(* ===== verification/Takl_Prelude.thy ===== *)
theory Takl_Prelude
  imports Complex_Main "HOL-Library.Word" "HOL-Library.Char_ord" "HOL-Library.List_Lexorder"
    "HOL-Library.Multiset"
begin

text \<open>
  What the components share: the named collections of the development, Go's signed 64-bit
  integers, and tables with a primary key.

  A Go \<^verbatim>\<open>int64\<close> is an \<^typ>\<open>int\<close> in the range \<open>in64\<close>; arithmetic that can leave the
  range goes through \<open>wrap64\<close>, two's complement wrap-around. Go strings are byte strings, \<^typ>\<open>string\<close>, and
  are compared bytewise, which is the lexicographic order of \<^typ>\<open>string\<close>.

  An SQL table with a primary key is the list of its rows in rowid order. An
  \<^verbatim>\<open>INSERT ... ON CONFLICT DO UPDATE\<close> keeps the place of an existing row and appends a new one
  (\<open>tbl_upsert\<close>); a \<^verbatim>\<open>SELECT\<close> on the whole primary key is \<open>tbl_select\<close>.
\<close>

named_theorems db_simps \<open>equations of the database layer\<close>
named_theorems table_simps \<open>look-ups in tables after an update\<close>

section \<open>Signed 64-bit integers\<close>

definition max64 :: int where
  "max64 = 9223372036854775807"

definition min64 :: int where
  "min64 = -9223372036854775808"

definition in64 :: "int \<Rightarrow> bool" where
  "in64 x \<longleftrightarrow> min64 \<le> x \<and> x \<le> max64"

definition wrap64 :: "int \<Rightarrow> int" where
  "wrap64 x = (x + 9223372036854775808) mod 18446744073709551616 - 9223372036854775808"

lemma wrap64_in64 [simp]: "in64 (wrap64 x)"
  using pos_mod_bound [of "18446744073709551616" "x + 9223372036854775808"]
  by (simp add: in64_def wrap64_def min64_def max64_def)

lemma wrap64_id: "in64 x \<Longrightarrow> wrap64 x = x"
  by (simp add: in64_def wrap64_def min64_def max64_def)

lemma wrap64_succ: "in64 x \<Longrightarrow> x < max64 \<Longrightarrow> wrap64 (x + 1) = x + 1"
  by (rule wrap64_id) (simp add: in64_def)

lemma wrap64_succ_max: "wrap64 (max64 + 1) = min64"
  by (simp add: wrap64_def max64_def min64_def)

section \<open>Tables with a primary key\<close>

fun tbl_upsert :: "('r \<Rightarrow> 'k) \<Rightarrow> 'r \<Rightarrow> 'r list \<Rightarrow> 'r list" where
  "tbl_upsert pk r [] = [r]"
| "tbl_upsert pk r (x # xs) = (if pk x = pk r then r # xs else x # tbl_upsert pk r xs)"

definition tbl_select :: "('r \<Rightarrow> 'k) \<Rightarrow> 'k \<Rightarrow> 'r list \<Rightarrow> 'r option" where
  "tbl_select pk k t = find (\<lambda>r. pk r = k) t"

definition tbl_wf :: "('r \<Rightarrow> 'k) \<Rightarrow> 'r list \<Rightarrow> bool" where
  "tbl_wf pk t \<longleftrightarrow> distinct (map pk t)"

lemma tbl_select_Nil [simp]: "tbl_select pk k [] = None"
  by (simp add: tbl_select_def)

lemma tbl_select_Cons [simp]:
  "tbl_select pk k (x # xs) = (if pk x = k then Some x else tbl_select pk k xs)"
  by (simp add: tbl_select_def)

lemma tbl_wf_Nil [simp]: "tbl_wf pk []"
  by (simp add: tbl_wf_def)

lemma tbl_wf_Cons [simp]: "tbl_wf pk (x # xs) \<longleftrightarrow> pk x \<notin> pk ` set xs \<and> tbl_wf pk xs"
  by (simp add: tbl_wf_def)

lemma tbl_select_upsert [table_simps]:
  "tbl_select pk k (tbl_upsert pk r t) = (if k = pk r then Some r else tbl_select pk k t)"
  by (induction t) auto

lemma tbl_select_Some: "tbl_select pk k t = Some r \<Longrightarrow> r \<in> set t \<and> pk r = k"
  by (induction t) (auto split: if_splits)

lemma tbl_select_None: "tbl_select pk k t = None \<longleftrightarrow> k \<notin> pk ` set t"
  by (induction t) auto

lemma tbl_select_iff:
  "tbl_wf pk t \<Longrightarrow> tbl_select pk k t = Some r \<longleftrightarrow> r \<in> set t \<and> pk r = k"
  by (induction t) (auto dest: tbl_select_Some)

lemma keys_upsert: "pk ` set (tbl_upsert pk r t) = insert (pk r) (pk ` set t)"
  by (induction t) auto

lemma tbl_wf_upsert [intro]: "tbl_wf pk t \<Longrightarrow> tbl_wf pk (tbl_upsert pk r t)"
  by (induction t) (auto simp: keys_upsert)

lemma set_upsert:
  "tbl_wf pk t \<Longrightarrow> set (tbl_upsert pk r t) = insert r {x \<in> set t. pk x \<noteq> pk r}"
  by (induction t) (auto simp: image_iff)

lemma set_upsert_subset: "set (tbl_upsert pk r t) \<subseteq> insert r (set t)"
  by (induction t) auto

lemma tbl_wf_filter [intro]: "tbl_wf pk t \<Longrightarrow> tbl_wf pk (filter P t)"
  by (simp add: tbl_wf_def distinct_map_filter)

lemma tbl_wf_map: "(\<And>r. r \<in> set t \<Longrightarrow> pk (f r) = pk r) \<Longrightarrow> tbl_wf pk (map f t) = tbl_wf pk t"
  by (induction t) (auto simp: image_iff)

lemma tbl_select_map:
  "(\<And>r. pk (f r) = pk r) \<Longrightarrow> tbl_select pk k (map f t) = map_option f (tbl_select pk k t)"
  by (induction t) auto

lemma tbl_select_filter:
  "tbl_wf pk t \<Longrightarrow> tbl_select pk k (filter P t) =
     (case tbl_select pk k t of None \<Rightarrow> None | Some r \<Rightarrow> if P r then Some r else None)"
  by (induction t) (auto simp: image_iff dest!: tbl_select_Some split: option.splits)

lemma tbl_wf_append_new:
  "tbl_wf pk (t @ [r]) \<longleftrightarrow> tbl_wf pk t \<and> pk r \<notin> pk ` set t"
  by (induction t) auto

lemma tbl_select_append_new:
  "tbl_select pk k (t @ [r]) =
     (case tbl_select pk k t of Some x \<Rightarrow> Some x | None \<Rightarrow> if pk r = k then Some r else None)"
  by (induction t) auto

lemma select_insert [table_simps]:
  "{r \<in> insert x S. P r} = (if P x then insert x {r \<in> S. P r} else {r \<in> S. P r})"
  by auto

text \<open>Two tables hold the same rows exactly when every primary key selects the same row.\<close>

lemma tbl_set_eqI:
  assumes "tbl_wf pk t" "tbl_wf pk u" "\<And>k. tbl_select pk k t = tbl_select pk k u"
  shows "set t = set u"
proof -
  have "r \<in> set t \<longleftrightarrow> r \<in> set u" for r
    using assms(3) [of "pk r"] tbl_select_iff [OF assms(1), of "pk r" r]
      tbl_select_iff [OF assms(2), of "pk r" r] by simp
  then show ?thesis by blast
qed

lemma tbl_select_cong:
  assumes "tbl_wf pk t" "tbl_wf pk u" "set t = set u"
  shows "tbl_select pk k t = tbl_select pk k u"
  using tbl_select_iff [OF assms(1), of k] tbl_select_iff [OF assms(2), of k] assms(3)
  by (cases "tbl_select pk k t"; cases "tbl_select pk k u") auto

lemma mset_tbl_eq:
  assumes "tbl_wf pk t" "tbl_wf pk u" "set t = set u"
  shows "mset t = mset u"
proof -
  have "distinct t" "distinct u"
    using assms(1,2) by (auto simp: tbl_wf_def distinct_map)
  then show ?thesis using assms(3) by (simp add: set_eq_iff_mset_eq_distinct)
qed

end
