(* ===== verification/Hlc.thy ===== *)
theory Hlc
  imports Takl_Prelude
begin

text \<open>
  \<^verbatim>\<open>internal/model/hlc.go\<close>: hybrid logical clock stamps and the clock that issues them.

  A stamp is a pair of \<^verbatim>\<open>int64\<close>s ordered lexicographically; the type is an instance of
  \<^verbatim>\<open>linorder\<close> and \<open>hlc_compare\<close> is shown to decide that order. The clock's mutex makes
  each of \<^verbatim>\<open>Tick\<close> and \<^verbatim>\<open>Update\<close> one atomic step, so each is one function on the clock's
  state; the reading of the wall clock (\<^verbatim>\<open>c.now()\<close>) is an argument of \<open>tick\<close>.

  The locale \<open>stamp_source\<close> is what the rest of the program relies on: a stamp is newer than
  everything the clock issued or observed before.
\<close>

section \<open>Stamps\<close>

datatype hlc = HLC (TS: int) (Seq: int)

definition hlc_zero :: hlc where
  "hlc_zero = HLC 0 0"

definition hlc_in64 :: "hlc \<Rightarrow> bool" where
  "hlc_in64 h \<longleftrightarrow> in64 (TS h) \<and> in64 (Seq h)"

definition hlc_compare :: "hlc \<Rightarrow> hlc \<Rightarrow> int" where
  "hlc_compare h o' =
     (if TS h \<noteq> TS o' then (if TS h < TS o' then -1 else 1)
      else if Seq h = Seq o' then 0
      else if Seq h < Seq o' then -1
      else 1)"

definition After :: "hlc \<Rightarrow> hlc \<Rightarrow> bool" where
  "After h o' \<longleftrightarrow> hlc_compare h o' > 0"

instantiation hlc :: linorder
begin

definition less_eq_hlc :: "hlc \<Rightarrow> hlc \<Rightarrow> bool" where
  "less_eq_hlc a b \<longleftrightarrow> TS a < TS b \<or> TS a = TS b \<and> Seq a \<le> Seq b"

definition less_hlc :: "hlc \<Rightarrow> hlc \<Rightarrow> bool" where
  "less_hlc a b \<longleftrightarrow> TS a < TS b \<or> TS a = TS b \<and> Seq a < Seq b"

instance
proof
  fix x y z :: hlc
  show "x < y \<longleftrightarrow> x \<le> y \<and> \<not> y \<le> x"
    by (auto simp: less_eq_hlc_def less_hlc_def)
  show "x \<le> x"
    by (simp add: less_eq_hlc_def)
  show "x \<le> y \<Longrightarrow> y \<le> z \<Longrightarrow> x \<le> z"
    by (auto simp: less_eq_hlc_def)
  show "x \<le> y \<Longrightarrow> y \<le> x \<Longrightarrow> x = y"
    by (auto simp: less_eq_hlc_def hlc.expand)
  show "x \<le> y \<or> y \<le> x"
    by (auto simp: less_eq_hlc_def)
qed

end

lemma hlc_less_simp [simp]:
  "HLC t s < HLC t' s' \<longleftrightarrow> t < t' \<or> t = t' \<and> s < s'"
  by (simp add: less_hlc_def)

lemma hlc_less_eq_simp [simp]:
  "HLC t s \<le> HLC t' s' \<longleftrightarrow> t < t' \<or> t = t' \<and> s \<le> s'"
  by (simp add: less_eq_hlc_def)

lemma After_iff [simp]: "After a b \<longleftrightarrow> b < a"
  by (auto simp: After_def hlc_compare_def less_hlc_def)

lemma hlc_compare_cases:
  "hlc_compare a b = 1 \<longleftrightarrow> b < a"
  "hlc_compare a b = -1 \<longleftrightarrow> a < b"
  "hlc_compare a b = 0 \<longleftrightarrow> a = b"
  by (auto simp: hlc_compare_def less_hlc_def hlc.expand)

text \<open>
  \<^verbatim>\<open>HLC.Compare\<close> is a three-way comparison: it returns the sign of the lexicographic
  order on (TS, Seq), it is antisymmetric, and it is zero only on equal stamps, so stamps
  are totally ordered.
\<close>
theorem hlc_compare_total_order:
  "hlc_compare a b = (if a < b then -1 else if a = b then 0 else 1) \<and>
   hlc_compare b a = - hlc_compare a b \<and>
   (After a b \<or> After b a \<or> a = b)"
  by (auto simp: hlc_compare_def less_hlc_def hlc.expand)

section \<open>The clock\<close>

record clock =
  c_ts :: int
  c_seq :: int

definition NewClock :: clock where
  "NewClock = \<lparr>c_ts = 0, c_seq = 0\<rparr>"

definition reading :: "clock \<Rightarrow> hlc" where
  "reading c = HLC (c_ts c) (c_seq c)"

definition tick :: "int \<Rightarrow> clock \<Rightarrow> hlc \<times> clock" where
  "tick n c =
     (let c' = (if n > c_ts c then c\<lparr>c_ts := n, c_seq := 0\<rparr>
                else c\<lparr>c_seq := wrap64 (c_seq c + 1)\<rparr>)
      in (HLC (c_ts c') (c_seq c'), c'))"

definition clock_update :: "hlc \<Rightarrow> clock \<Rightarrow> clock" where
  "clock_update o' c =
     (if TS o' > c_ts c then c\<lparr>c_ts := TS o', c_seq := Seq o'\<rparr>
      else if TS o' = c_ts c \<and> Seq o' > c_seq c then c\<lparr>c_seq := Seq o'\<rparr>
      else c)"

definition clock_ok :: "clock \<Rightarrow> bool" where
  "clock_ok c \<longleftrightarrow> in64 (c_ts c) \<and> in64 (c_seq c)"

definition clock_room :: "clock \<Rightarrow> bool" where
  "clock_room c \<longleftrightarrow> c_seq c < max64"

lemma reading_NewClock [simp]: "reading NewClock = hlc_zero"
  by (simp add: reading_def NewClock_def hlc_zero_def)

lemma clock_ok_NewClock [simp]: "clock_ok NewClock"
  by (simp add: clock_ok_def NewClock_def in64_def min64_def max64_def)

lemma tick_reading [simp]: "reading (snd (tick n c)) = fst (tick n c)"
  by (simp add: tick_def reading_def Let_def)

lemma in64_zero: "in64 0"
  by (simp add: in64_def min64_def max64_def)

lemma tick_ok: "in64 n \<Longrightarrow> clock_ok c \<Longrightarrow> clock_ok (snd (tick n c))"
  by (auto simp: tick_def clock_ok_def Let_def in64_zero)

lemma tick_after:
  "clock_ok c \<Longrightarrow> clock_room c \<Longrightarrow> reading c < fst (tick n c)"
  by (auto simp: tick_def reading_def Let_def clock_ok_def clock_room_def wrap64_succ)

lemma clock_update_reading [simp]: "reading (clock_update o' c) = max (reading c) o'"
  by (cases o') (auto simp: clock_update_def reading_def max_def)

lemma clock_update_ok: "hlc_in64 h \<Longrightarrow> clock_ok c \<Longrightarrow> clock_ok (clock_update h c)"
  by (auto simp: clock_update_def clock_ok_def hlc_in64_def)

section \<open>Runs of the clock\<close>

text \<open>
  The goroutines of a node (agent, sync engine, HTTP handlers) share one clock; the mutex
  serialises their calls, so any execution is a sequence of steps.
\<close>

datatype clock_step = Tick int | Update hlc

fun clock_exec :: "clock_step list \<Rightarrow> clock \<Rightarrow> hlc list \<times> clock" where
  "clock_exec [] c = ([], c)"
| "clock_exec (Tick n # ss) c =
     (let (h, c1) = tick n c; (hs, c2) = clock_exec ss c1 in (h # hs, c2))"
| "clock_exec (Update h # ss) c = clock_exec ss (clock_update h c)"

text \<open>The contract of a stamp source, and what its clients get from it.\<close>

locale stamp_source =
  fixes issue :: "int \<Rightarrow> 'c \<Rightarrow> hlc \<times> 'c"
    and observe :: "hlc \<Rightarrow> 'c \<Rightarrow> 'c"
    and latest :: "'c \<Rightarrow> hlc"
    and usable :: "'c \<Rightarrow> bool"
  assumes issue_newer: "usable c \<Longrightarrow> latest c < fst (issue n c)"
    and issue_latest: "latest (snd (issue n c)) = fst (issue n c)"
    and observe_latest: "latest (observe h c) = max (latest c) h"
begin

lemma issue_after_observe:
  "usable (observe h c) \<Longrightarrow> h < fst (issue n (observe h c)) \<and> latest c < fst (issue n (observe h c))"
  using issue_newer [of "observe h c" n] by (simp add: observe_latest)

lemma issue_twice:
  "usable (snd (issue n c)) \<Longrightarrow> fst (issue n c) < fst (issue m (snd (issue n c)))"
  using issue_newer [of "snd (issue n c)" m] by (simp add: issue_latest)

lemma issue_dominates:
  assumes "usable c" "\<And>x. x \<in> S \<Longrightarrow> x \<le> latest c"
  shows "x \<in> S \<Longrightarrow> x < fst (issue n c)" "x \<in> S \<Longrightarrow> x \<le> latest (snd (issue n c))"
  using assms(2) [of x] issue_newer [OF assms(1), of n] by (auto simp: issue_latest)

lemma observe_dominates:
  assumes "\<And>x. x \<in> S \<Longrightarrow> x \<le> latest c"
  shows "x \<in> insert h S \<Longrightarrow> x \<le> latest (observe h c)"
  using assms [of x] by (auto simp: observe_latest le_max_iff_disj)

end

interpretation clk: stamp_source tick clock_update reading "\<lambda>c. clock_ok c \<and> clock_room c"
  by unfold_locales (auto simp: tick_after)

definition step_in64 :: "clock_step \<Rightarrow> bool" where
  "step_in64 s = (case s of Tick n \<Rightarrow> in64 n | Update h \<Rightarrow> hlc_in64 h)"

definition seq_budget :: "nat \<Rightarrow> clock_step \<Rightarrow> bool" where
  "seq_budget k s = (case s of Tick n \<Rightarrow> True | Update h \<Rightarrow> Seq h + int k \<le> max64)"

lemma seq_budget_mono: "seq_budget (Suc k) s \<Longrightarrow> seq_budget k s"
  by (auto simp: seq_budget_def split: clock_step.splits)

lemma tick_budget:
  assumes "clock_ok c" "c_seq c + int (Suc k) \<le> max64" "int (Suc k) \<le> max64"
  shows "c_seq (snd (tick n c)) + int k \<le> max64"
  using assms by (auto simp: tick_def Let_def clock_ok_def wrap64_succ)

lemma clock_exec_sorted:
  assumes "clock_ok c" "c_seq c + int (length ss) \<le> max64" "int (length ss) \<le> max64"
    "\<forall>s \<in> set ss. step_in64 s \<and> seq_budget (length ss) s"
  shows "sorted_wrt (<) (fst (clock_exec ss c)) \<and> (\<forall>x \<in> set (fst (clock_exec ss c)). reading c < x)"
  using assms
proof (induction ss arbitrary: c)
  case Nil
  then show ?case by simp
next
  case (Cons s ss)
  have rest: "\<forall>s \<in> set ss. step_in64 s \<and> seq_budget (length ss) s"
    using Cons.prems(4) by (auto intro: seq_budget_mono)
  show ?case
  proof (cases s)
    case (Tick n)
    let ?c = "snd (tick n c)"
    have ok: "clock_ok ?c"
      using Cons.prems(1,4) Tick by (auto simp: step_in64_def intro: tick_ok)
    have "clock_room c"
      using Cons.prems(2) by (simp add: clock_room_def)
    then have newer: "reading c < fst (tick n c)"
      using Cons.prems(1) by (simp add: tick_after)
    have "c_seq ?c + int (length ss) \<le> max64"
      using Cons.prems by (intro tick_budget) auto
    then have "sorted_wrt (<) (fst (clock_exec ss ?c)) \<and> (\<forall>x \<in> set (fst (clock_exec ss ?c)). reading ?c < x)"
      using Cons.prems(3) ok rest by (intro Cons.IH) auto
    then show ?thesis
      using newer Tick by (auto simp: Let_def split: prod.splits intro: less_trans)
  next
    case (Update h)
    let ?c = "clock_update h c"
    have ok: "clock_ok ?c"
      using Cons.prems(1,4) Update by (auto simp: step_in64_def intro: clock_update_ok)
    have "c_seq ?c + int (length ss) \<le> max64"
      using Cons.prems(2,4) Update by (auto simp: clock_update_def seq_budget_def)
    then have "sorted_wrt (<) (fst (clock_exec ss ?c)) \<and> (\<forall>x \<in> set (fst (clock_exec ss ?c)). reading ?c < x)"
      using Cons.prems(3) ok rest by (intro Cons.IH) auto
    then show ?thesis
      using Update by auto
  qed
qed

text \<open>
  C15. Once the clock has observed a remote stamp \<open>h\<close>, every stamp it issues in any later
  sequence of \<^verbatim>\<open>Tick\<close>s and \<^verbatim>\<open>Update\<close>s, whatever the wall clock reads (even when it stands
  still or runs backwards), is strictly newer than \<open>h\<close>, than everything the clock had issued
  or observed before, and than the stamps issued before it in the sequence, as long as the
  \<^verbatim>\<open>int64\<close> sequence number has room for the steps.
\<close>
theorem clock_stamps_causal:
  assumes "clock_ok c" "hlc_in64 h"
    and "c_seq c + int (length ss) \<le> max64" "Seq h + int (length ss) \<le> max64"
    and "int (length ss) \<le> max64"
    and "\<forall>s \<in> set ss. step_in64 s \<and> seq_budget (length ss) s"
  shows "sorted_wrt (<) (fst (clock_exec ss (clock_update h c))) \<and>
    (\<forall>x \<in> set (fst (clock_exec ss (clock_update h c))). After x h \<and> After x (reading c))"
proof -
  have "c_seq (clock_update h c) + int (length ss) \<le> max64"
    using assms(3,4) by (auto simp: clock_update_def)
  then show ?thesis
    using clock_exec_sorted [of "clock_update h c" ss] assms
    by (auto intro: clock_update_ok)
qed

theorem clock_stamps_causal_witness:
  "fst (clock_exec [Tick 7, Tick 3, Update (HLC 9 4), Tick 5] (clock_update (HLC 6 2) NewClock))
     = [HLC 7 0, HLC 7 1, HLC 9 5] \<and>
   sorted_wrt (<) (fst (clock_exec [Tick 7, Tick 3, Update (HLC 9 4), Tick 5]
     (clock_update (HLC 6 2) NewClock)))"
proof -
  have "sorted_wrt (<) (fst (clock_exec [Tick 7, Tick 3, Update (HLC 9 4), Tick 5]
     (clock_update (HLC 6 2) NewClock)))"
    using clock_stamps_causal [of NewClock "HLC 6 2" "[Tick 7, Tick 3, Update (HLC 9 4), Tick 5]"]
    by (simp add: clock_ok_def hlc_in64_def in64_def min64_def max64_def NewClock_def
        step_in64_def seq_budget_def)
  then show ?thesis
    by (simp add: tick_def clock_update_def NewClock_def Let_def wrap64_def)
qed

text \<open>
  The bound is sharp: at the largest sequence number, with the wall clock not ahead of
  the stored time, \<^verbatim>\<open>c.seq++\<close> wraps and the stamp \<^verbatim>\<open>Tick\<close> returns is the smallest of its
  millisecond, older than what the clock issued before. With any room left, it is newer.
\<close>
theorem tick_monotone_iff_room:
  assumes "clock_ok c"
  shows "After (fst (tick n c)) (reading c) \<longleftrightarrow> n > c_ts c \<or> clock_room c"
proof (cases "n > c_ts c \<or> clock_room c")
  case True
  then show ?thesis
    using assms tick_after [OF assms, of n] by (auto simp: tick_def reading_def Let_def)
next
  case False
  then have "c_seq c = max64" "\<not> n > c_ts c"
    using assms by (auto simp: clock_room_def clock_ok_def in64_def)
  then show ?thesis
    by (simp add: tick_def reading_def Let_def wrap64_succ_max clock_room_def)
      (simp add: min64_def max64_def)
qed

theorem tick_monotone_iff_room_witness:
  "clock_ok \<lparr>c_ts = 5, c_seq = max64\<rparr> \<and>
   \<not> After (fst (tick 5 \<lparr>c_ts = 5, c_seq = max64\<rparr>)) (reading \<lparr>c_ts = 5, c_seq = max64\<rparr>)"
proof -
  have ok: "clock_ok \<lparr>c_ts = 5, c_seq = max64\<rparr>"
    by (simp add: clock_ok_def in64_def min64_def max64_def)
  show ?thesis
    using ok tick_monotone_iff_room [OF ok, of 5] by (simp add: clock_room_def)
qed

end
