(* ===== verification/Float64.thy ===== *)
theory Float64
  imports Takl_Prelude "HOL-Library.Log_Nat"
begin

text \<open>
  Go's \<^verbatim>\<open>float64\<close>: IEEE 754 binary64 with rounding to nearest, ties to even. A finite value is
  the rational number it denotes; the two zeros are not told apart, which none of the
  program's comparisons and sums can observe. Rounding is computed from the binade of the
  number, and shown to be monotone and the identity on the numbers it yields.
\<close>

section \<open>Rounding to an integer\<close>

definition round_half_even :: "rat \<Rightarrow> int" where
  "round_half_even x =
     (let f = \<lfloor>x\<rfloor>; r = x - of_int f in
      if r < 1 / 2 then f else if r > 1 / 2 then f + 1 else if even f then f else f + 1)"

lemma round_half_even_int [simp]: "round_half_even (of_int k) = k"
  by (simp add: round_half_even_def)

lemma round_half_even_bounds: "\<lfloor>x\<rfloor> \<le> round_half_even x" "round_half_even x \<le> \<lfloor>x\<rfloor> + 1"
  by (auto simp: round_half_even_def Let_def)

lemma round_half_even_mono: "x \<le> y \<Longrightarrow> round_half_even x \<le> round_half_even y"
proof -
  assume xy: "x \<le> y"
  show ?thesis
  proof (cases "\<lfloor>x\<rfloor> = \<lfloor>y\<rfloor>")
    case True
    then show ?thesis using xy by (auto simp: round_half_even_def Let_def)
  next
    case False
    then have "\<lfloor>x\<rfloor> + 1 \<le> \<lfloor>y\<rfloor>" using floor_mono [OF xy] by simp
    then show ?thesis using round_half_even_bounds(2) [of x] round_half_even_bounds(1) [of y] by simp
  qed
qed

lemma floor_uminus_frac: "x \<noteq> of_int \<lfloor>x\<rfloor> \<Longrightarrow> \<lfloor>- x\<rfloor> = - \<lfloor>x\<rfloor> - 1" for x :: rat
  by (auto simp: floor_minus ceiling_altdef)

lemma round_half_even_uminus: "round_half_even (- x) = - round_half_even x"
proof (cases "x = of_int \<lfloor>x\<rfloor>")
  case True
  then show ?thesis by (metis of_int_minus round_half_even_int)
next
  case False
  then show ?thesis
    using floor_uminus_frac [OF False] by (auto simp: round_half_even_def Let_def)
qed

section \<open>The binade of a number\<close>

definition ilog2 :: "rat \<Rightarrow> int" where
  "ilog2 x =
     (let (n, d) = quotient_of x; e = bitlen n - bitlen d
      in if 2 powi e \<le> x then e else e - 1)"

lemma bitlen_powi: "0 < n \<Longrightarrow> (2 :: rat) powi (bitlen n - 1) \<le> of_int n \<and> of_int n < (2 :: rat) powi (bitlen n)"
proof -
  assume n: "0 < n"
  have b: "0 \<le> bitlen n - 1" using n bitlen_ge_iff_power [of 1 n] by simp
  have "2 ^ nat (bitlen n - 1) \<le> n" "n < 2 ^ nat (bitlen n)"
    using bitlen_bounds [OF n] by simp_all
  then have "(of_int (2 ^ nat (bitlen n - 1)) :: rat) \<le> of_int n" "(of_int n :: rat) < of_int (2 ^ nat (bitlen n))"
    by (simp_all only: of_int_le_iff of_int_less_iff)
  then show ?thesis using b by (simp add: power_int_def)
qed

lemma ilog2_bounds:
  assumes "0 < x"
  shows "2 powi (ilog2 x) \<le> x" "x < 2 powi (ilog2 x + 1)"
proof -
  obtain n d where q: "quotient_of x = (n, d)" by (cases "quotient_of x")
  have d: "0 < d" using quotient_of_denom_pos [OF q] .
  have x: "x = of_int n / of_int d" using quotient_of_div [OF q] .
  have n: "0 < n" using assms d by (simp add: x zero_less_divide_iff)
  let ?e = "bitlen n - bitlen d"
  have "x < 2 powi (bitlen n) / 2 powi (bitlen d - 1)"
    unfolding x using bitlen_powi [OF n] bitlen_powi [OF d] d n
    by (intro frac_less) (simp_all add: zero_less_power_int)
  also have "\<dots> = 2 powi (?e + 1)"
    by (subst power_int_diff [symmetric]) (simp_all add: algebra_simps)
  finally have up: "x < 2 powi (?e + 1)" .
  have "2 powi (?e - 1) = (2 :: rat) powi (bitlen n - 1) / 2 powi (bitlen d)"
    by (subst power_int_diff [symmetric]) (simp_all add: algebra_simps)
  also have "\<dots> \<le> x"
    unfolding x using bitlen_powi [OF n] bitlen_powi [OF d] d n
    by (intro frac_le) (simp_all add: zero_less_power_int less_imp_le)
  finally have lo: "2 powi (?e - 1) \<le> x" .
  show "2 powi (ilog2 x) \<le> x" "x < 2 powi (ilog2 x + 1)"
    using up lo by (simp_all add: ilog2_def q Let_def not_le)
qed

section \<open>Rounding to a double\<close>

datatype f64 = Fin rat | PInf | NInf | NaN

definition quantum_exp :: "rat \<Rightarrow> int" where
  "quantum_exp x = max (ilog2 \<bar>x\<bar> - 52) (- 1074)"

definition f64_grid :: "rat \<Rightarrow> rat" where
  "f64_grid x =
     (if x = 0 then 0
      else of_int (round_half_even (x / 2 powi (quantum_exp x))) * 2 powi (quantum_exp x))"

definition f64_limit :: rat where
  "f64_limit = 2 ^ 1024"

definition f64_round :: "rat \<Rightarrow> f64" where
  "f64_round x =
     (let y = f64_grid x in if y \<ge> f64_limit then PInf else if y \<le> - f64_limit then NInf else Fin y)"

lemma f64_grid_zero [simp]: "f64_grid 0 = 0"
  by (simp add: f64_grid_def)

lemma f64_grid_uminus: "f64_grid (- x) = - f64_grid x"
  by (simp add: f64_grid_def quantum_exp_def round_half_even_uminus)

lemma ilog2_mono: "0 < x \<Longrightarrow> x \<le> y \<Longrightarrow> ilog2 x \<le> ilog2 y"
proof (rule ccontr)
  assume *: "0 < x" "x \<le> y" "\<not> ilog2 x \<le> ilog2 y"
  have "y < 2 powi (ilog2 y + 1)" using * by (intro ilog2_bounds) simp
  also have "\<dots> \<le> (2 :: rat) powi (ilog2 x)" using * by (intro power_int_increasing) simp_all
  also have "\<dots> \<le> x" using * by (intro ilog2_bounds)
  finally show False using * by simp
qed

lemma powi_multiple: "a \<le> b \<Longrightarrow> \<exists>k :: int. (2 :: rat) powi b = of_int k * 2 powi a"
proof (intro exI)
  assume "a \<le> b"
  then show "(2 :: rat) powi b = of_int (2 ^ nat (b - a)) * 2 powi a"
    by (simp add: power_int_def [of 2 "b - a", symmetric] power_int_add [symmetric] flip: power_int_of_nat)
qed

lemma grid_step:
  assumes "(c :: rat) = of_int k * 2 powi e"
  shows "x \<le> c \<Longrightarrow> of_int (round_half_even (x / 2 powi e)) * 2 powi e \<le> c"
    "c \<le> x \<Longrightarrow> c \<le> of_int (round_half_even (x / 2 powi e)) * 2 powi e"
proof -
  have p: "(0 :: rat) < 2 powi e" by (simp add: zero_less_power_int)
  have c: "c / 2 powi e = of_int k" using assms p by simp
  show "of_int (round_half_even (x / 2 powi e)) * 2 powi e \<le> c" if "x \<le> c"
  proof -
    have "x / 2 powi e \<le> of_int k" using divide_right_mono [OF that, of "2 powi e"] p c by simp
    from round_half_even_mono [OF this] show ?thesis
      using p assms by (simp add: mult_right_mono)
  qed
  show "c \<le> of_int (round_half_even (x / 2 powi e)) * 2 powi e" if "c \<le> x"
  proof -
    have "of_int k \<le> x / 2 powi e" using divide_right_mono [OF that, of "2 powi e"] p c by simp
    from round_half_even_mono [OF this] show ?thesis
      using p assms by (simp add: mult_right_mono)
  qed
qed

lemma f64_grid_mono_pos:
  assumes "0 < x" "x \<le> y"
  shows "f64_grid x \<le> f64_grid y"
proof (cases "quantum_exp x = quantum_exp y")
  case True
  have p: "(0 :: rat) < 2 powi (quantum_exp y)" by (simp add: zero_less_power_int)
  have "round_half_even (x / 2 powi (quantum_exp y)) \<le> round_half_even (y / 2 powi (quantum_exp y))"
    using assms p by (intro round_half_even_mono divide_right_mono) simp_all
  then show ?thesis using assms p True by (simp add: f64_grid_def mult_right_mono)
next
  case False
  have il: "ilog2 x \<le> ilog2 y" using assms by (rule ilog2_mono)
  then have q: "quantum_exp x < quantum_exp y" and lt: "ilog2 x < ilog2 y" and e: "quantum_exp y \<le> ilog2 y"
    using False assms by (auto simp: quantum_exp_def max_def split: if_splits)
  let ?c = "(2 :: rat) powi (ilog2 y)"
  have "x < 2 powi (ilog2 x + 1)" using assms by (intro ilog2_bounds)
  also have "\<dots> \<le> ?c" using lt by (intro power_int_increasing) simp_all
  finally have xc: "x \<le> ?c" by simp
  have cy: "?c \<le> y" using assms by (intro ilog2_bounds) simp
  obtain k where "?c = of_int k * 2 powi (quantum_exp x)"
    using powi_multiple [of "quantum_exp x" "ilog2 y"] q e by auto
  from grid_step(1) [OF this xc] have "f64_grid x \<le> ?c" using assms by (simp add: f64_grid_def)
  moreover obtain m where "?c = of_int m * 2 powi (quantum_exp y)"
    using powi_multiple [OF e] by auto
  from grid_step(2) [OF this cy] have "?c \<le> f64_grid y" using assms by (simp add: f64_grid_def)
  ultimately show ?thesis by simp
qed

lemma f64_grid_nonneg: "0 \<le> x \<Longrightarrow> 0 \<le> f64_grid x"
proof -
  assume x: "0 \<le> x"
  have "(0 :: rat) = of_int 0 * 2 powi (quantum_exp x)" by simp
  from grid_step(2) [OF this x] show ?thesis by (simp add: f64_grid_def)
qed

lemma f64_grid_mono: "x \<le> y \<Longrightarrow> f64_grid x \<le> f64_grid y"
proof -
  assume xy: "x \<le> y"
  consider "0 < x" | "x \<le> 0" "0 \<le> y" | "y < 0" by linarith
  then show ?thesis
  proof cases
    case 1
    then show ?thesis using xy by (rule f64_grid_mono_pos)
  next
    case 2
    then show ?thesis
      using f64_grid_nonneg [of y] f64_grid_nonneg [of "- x"] by (simp add: f64_grid_uminus)
  next
    case 3
    then show ?thesis
      using f64_grid_mono_pos [of "- y" "- x"] xy by (simp add: f64_grid_uminus)
  qed
qed

lemma f64_grid_multiple:
  assumes "y = of_int k * 2 powi (quantum_exp y)"
  shows "f64_grid y = y"
proof -
  have "y / 2 powi (quantum_exp y) = of_int k"
    by (subst assms) simp
  then show ?thesis using assms by (simp add: f64_grid_def)
qed

lemma f64_grid_idem_pos:
  assumes "0 < x"
  shows "f64_grid (f64_grid x) = f64_grid x"
proof (cases "f64_grid x = 0")
  case False
  let ?y = "f64_grid x"
  obtain k where y: "?y = of_int k * 2 powi (quantum_exp x)"
    using assms by (simp add: f64_grid_def)
  have pos: "0 < ?y" using False f64_grid_nonneg [of x] assms by simp
  show ?thesis
  proof (cases "quantum_exp ?y \<le> quantum_exp x")
    case True
    from powi_multiple [OF this] obtain m where "(2 :: rat) powi (quantum_exp x) = of_int m * 2 powi (quantum_exp ?y)" ..
    then have "?y = of_int (k * m) * 2 powi (quantum_exp ?y)" using y by simp
    then show ?thesis by (rule f64_grid_multiple)
  next
    case False
    define m where "m = max (ilog2 x + 1) (quantum_exp x)"
    have e: "quantum_exp ?y \<le> ilog2 ?y" "quantum_exp x \<le> m" "m \<le> ilog2 ?y"
      using False assms pos by (auto simp: quantum_exp_def m_def max_def split: if_splits)
    obtain j where c: "(2 :: rat) powi m = of_int j * 2 powi (quantum_exp x)"
      using powi_multiple [OF e(2)] by blast
    have "x < 2 powi (ilog2 x + 1)" using assms by (rule ilog2_bounds)
    also have "\<dots> \<le> (2 :: rat) powi m" by (intro power_int_increasing) (simp_all add: m_def)
    finally have "?y \<le> 2 powi m" using grid_step(1) [OF c, of x] assms by (simp add: f64_grid_def)
    also have "\<dots> \<le> (2 :: rat) powi (ilog2 ?y)" using e(3) by (intro power_int_increasing) simp_all
    finally have "?y = 2 powi (ilog2 ?y)" using ilog2_bounds(1) [OF pos] by simp
    with powi_multiple [OF e(1)] obtain j where "?y = of_int j * 2 powi (quantum_exp ?y)" by auto
    then show ?thesis by (rule f64_grid_multiple)
  qed
qed simp

lemma f64_grid_idem: "f64_grid (f64_grid x) = f64_grid x"
proof -
  consider "0 < x" | "x = 0" | "0 < - x" by linarith
  then show ?thesis
    using f64_grid_idem_pos [of x] f64_grid_idem_pos [of "- x"] by cases (simp_all add: f64_grid_uminus)
qed

definition is_f64 :: "rat \<Rightarrow> bool" where
  "is_f64 x \<longleftrightarrow> f64_round x = Fin x"

lemma f64_round_Fin: "f64_round x = Fin y \<Longrightarrow> is_f64 y"
  by (auto simp: f64_round_def is_f64_def Let_def f64_grid_idem split: if_splits)

section \<open>Order and arithmetic\<close>

fun f64_le :: "f64 \<Rightarrow> f64 \<Rightarrow> bool" where
  "f64_le NaN _ = False"
| "f64_le _ NaN = False"
| "f64_le NInf _ = True"
| "f64_le _ PInf = True"
| "f64_le (Fin x) (Fin y) = (x \<le> y)"
| "f64_le _ _ = False"

definition f64_less :: "f64 \<Rightarrow> f64 \<Rightarrow> bool" where
  "f64_less x y \<longleftrightarrow> f64_le x y \<and> \<not> f64_le y x"

fun f64_add :: "f64 \<Rightarrow> f64 \<Rightarrow> f64" where
  "f64_add (Fin x) (Fin y) = f64_round (x + y)"
| "f64_add NaN _ = NaN"
| "f64_add _ NaN = NaN"
| "f64_add PInf NInf = NaN"
| "f64_add NInf PInf = NaN"
| "f64_add PInf _ = PInf"
| "f64_add _ PInf = PInf"
| "f64_add NInf _ = NInf"
| "f64_add _ NInf = NInf"

fun f64_neg :: "f64 \<Rightarrow> f64" where
  "f64_neg (Fin x) = Fin (- x)"
| "f64_neg PInf = NInf"
| "f64_neg NInf = PInf"
| "f64_neg NaN = NaN"

definition f64_sub :: "f64 \<Rightarrow> f64 \<Rightarrow> f64" where
  "f64_sub x y = f64_add x (f64_neg y)"

text \<open>The product with, and the quotient by, a positive finite number: the program has no others.\<close>

fun f64_scale :: "rat \<Rightarrow> f64 \<Rightarrow> f64" where
  "f64_scale c (Fin x) = f64_round (c * x)"
| "f64_scale c x = x"

definition f64_of_int :: "int \<Rightarrow> f64" where
  "f64_of_int i = f64_round (of_int i)"

lemma f64_le_refl: "x \<noteq> NaN \<Longrightarrow> f64_le x x"
  by (cases x) simp_all

lemma f64_le_trans: "f64_le x y \<Longrightarrow> f64_le y z \<Longrightarrow> f64_le x z"
  by (cases x; cases y; cases z) simp_all

lemma f64_le_total: "x \<noteq> NaN \<Longrightarrow> y \<noteq> NaN \<Longrightarrow> f64_le x y \<or> f64_le y x"
  by (cases x; cases y) auto

lemma f64_round_not_NaN [simp]: "f64_round x \<noteq> NaN"
  by (simp add: f64_round_def Let_def)

lemma f64_le_Inf [simp]: "x \<noteq> NaN \<Longrightarrow> f64_le x PInf" "x \<noteq> NaN \<Longrightarrow> f64_le NInf x"
  by (cases x; simp)+

lemma f64_round_mono: "x \<le> y \<Longrightarrow> f64_le (f64_round x) (f64_round y)"
proof -
  assume "x \<le> y"
  then have "f64_grid x \<le> f64_grid y" by (rule f64_grid_mono)
  moreover have "0 < f64_limit" by (simp add: f64_limit_def)
  ultimately show ?thesis by (auto simp: f64_round_def Let_def)
qed

lemma f64_add_mono:
  "f64_le x x' \<Longrightarrow> f64_le y y' \<Longrightarrow> f64_add x y \<noteq> NaN \<Longrightarrow> f64_add x' y' \<noteq> NaN \<Longrightarrow> f64_le (f64_add x y) (f64_add x' y')"
  by (cases x; cases x'; cases y; cases y') (simp_all add: f64_round_mono)

lemma f64_neg_mono: "f64_le x y \<Longrightarrow> f64_le (f64_neg y) (f64_neg x)"
  by (cases x; cases y) simp_all

lemma f64_scale_mono: "0 < c \<Longrightarrow> f64_le x y \<Longrightarrow> f64_le (f64_scale c x) (f64_scale c y)"
  by (cases x; cases y) (simp_all add: f64_round_mono)

section \<open>Exact numbers\<close>

lemma ilog2_less: "0 < x \<Longrightarrow> x < 2 powi n \<Longrightarrow> ilog2 x < n"
proof (rule ccontr)
  assume *: "0 < x" "x < 2 powi n" "\<not> ilog2 x < n"
  have "2 powi n \<le> (2 :: rat) powi (ilog2 x)" using * by (intro power_int_increasing) simp_all
  also have "\<dots> \<le> x" using * by (intro ilog2_bounds)
  finally show False using * by simp
qed

lemma f64_limit_large: "n \<le> 1023 \<Longrightarrow> 2 powi n < f64_limit"
proof -
  assume "n \<le> 1023"
  then have "(2 :: rat) powi n < 2 powi 1024" by (intro power_int_strict_increasing) simp_all
  then show ?thesis by (simp only: f64_limit_def power_int_numeral)
qed

lemma is_f64_dyadic:
  assumes "\<bar>k\<bar> < 2 ^ 53" "- 1074 \<le> e" "e \<le> 900"
  shows "is_f64 (of_int k * 2 powi e)"
proof (cases "k = 0")
  case True
  have "0 < f64_limit" by (simp add: f64_limit_def)
  then show ?thesis using True by (simp add: is_f64_def f64_round_def not_le)
next
  case False
  let ?x = "of_int k * (2 :: rat) powi e"
  have p: "(0 :: rat) < 2 powi e" by (simp add: zero_less_power_int)
  have k: "\<bar>of_int k\<bar> < (2 :: rat) ^ 53" using assms(1) by (metis of_int_abs of_int_less_iff of_int_numeral of_int_power)
  have "\<bar>?x\<bar> = \<bar>of_int k\<bar> * 2 powi e" using p by (simp add: abs_mult)
  also have "\<dots> < 2 ^ 53 * 2 powi e" using k p by (intro mult_strict_right_mono)
  also have "\<dots> = 2 powi (53 + e)" by (subst power_int_add) simp_all
  finally have b: "\<bar>?x\<bar> < 2 powi (53 + e)" .
  have pos: "0 < \<bar>?x\<bar>" using False p by simp
  have "quantum_exp ?x \<le> e" using ilog2_less [OF pos b] assms(2) by (simp add: quantum_exp_def)
  from powi_multiple [OF this] obtain m where "(2 :: rat) powi e = of_int m * 2 powi (quantum_exp ?x)" ..
  then have "?x = of_int (k * m) * 2 powi (quantum_exp ?x)" by simp
  then have g: "f64_grid ?x = ?x" by (rule f64_grid_multiple)
  have "\<bar>?x\<bar> < f64_limit" using b f64_limit_large [of "53 + e"] assms(3) by linarith
  then show ?thesis using g by (simp add: is_f64_def f64_round_def Let_def abs_less_iff not_le)
qed

lemma is_f64_int: "\<bar>i\<bar> < 2 ^ 53 \<Longrightarrow> is_f64 (of_int i)"
  using is_f64_dyadic [of i 0] by simp

lemma f64_of_int_exact: "\<bar>i\<bar> < 2 ^ 53 \<Longrightarrow> f64_of_int i = Fin (of_int i)"
  using is_f64_int [of i] by (simp add: f64_of_int_def is_f64_def)


lemma f64_round_bounded:
  assumes "\<bar>x\<bar> \<le> 2 ^ k" "k \<le> 900"
  shows "\<exists>y. f64_round x = Fin y \<and> \<bar>y\<bar> \<le> 2 ^ k"
proof -
  have "is_f64 (of_int c * 2 powi int k)" if "\<bar>c\<bar> = 1" for c
    using assms(2) that by (intro is_f64_dyadic) simp_all
  from this [of 1] this [of "- 1"] have e: "f64_round (2 ^ k) = Fin (2 ^ k)" "f64_round (- (2 ^ k)) = Fin (- (2 ^ k))"
    by (simp_all add: is_f64_def)
  have "f64_le (f64_round x) (Fin (2 ^ k))" "f64_le (Fin (- (2 ^ k))) (f64_round x)"
    using f64_round_mono [of x "2 ^ k"] f64_round_mono [of "- (2 ^ k)" x] assms(1) by (simp_all add: e abs_le_iff)
  then show ?thesis by (cases "f64_round x") (auto simp: abs_le_iff)
qed

lemma f64_of_int_bounded: "in64 i \<Longrightarrow> \<exists>y. f64_of_int i = Fin y \<and> \<bar>y\<bar> \<le> 2 ^ 63"
proof -
  assume "in64 i"
  then have "\<bar>i\<bar> \<le> 2 ^ 63" by (simp add: in64_def min64_def max64_def abs_le_iff)
  then have "\<bar>(of_int i :: rat)\<bar> \<le> 2 ^ 63" by (metis of_int_abs of_int_le_iff of_int_numeral of_int_power)
  then show ?thesis unfolding f64_of_int_def by (intro f64_round_bounded) simp_all
qed

lemma f64_of_int_mono: "i \<le> j \<Longrightarrow> f64_le (f64_of_int i) (f64_of_int j)"
  by (simp add: f64_of_int_def f64_round_mono)

end
