(* ===== verification/Json.thy ===== *)
theory Json
  imports Float64
begin

text \<open>
  What the program uses of \<^verbatim>\<open>encoding/json\<close>, and the errors of the model.

  JSON values are the abstract syntax \<open>json\<close>. The text syntax (quoting, number formats) is
  not modelled: the codec record carries the two functions between text and values, and a
  theorem that needs them to be inverse says so in a hypothesis about the value at hand.
  What Go does beyond the text syntax, the rules by which \<^verbatim>\<open>json.Unmarshal\<close> fills a map, is
  modelled here.

  A Go \<^verbatim>\<open>map[string]T\<close> is an association list kept strictly sorted by key, so that equal
  maps are equal lists; a nil map is \<^const>\<open>None\<close>.
\<close>

section \<open>Errors\<close>

datatype error =
    ErrNoRows
  | DbErr string
  | ErrSchema error
  | ErrConstraint
  | ErrFilterKey string
  | ErrJson
  | ErrRpc string
  | ErrMsg string
  | Panic string

section \<open>Maps with string keys\<close>

type_synonym 'v gomap = "(string \<times> 'v) list"

fun gm_put :: "string \<Rightarrow> 'v \<Rightarrow> 'v gomap \<Rightarrow> 'v gomap" where
  "gm_put k v [] = [(k, v)]"
| "gm_put k v (e # m) =
     (if k = fst e then (k, v) # m else if k < fst e then (k, v) # e # m else e # gm_put k v m)"

definition gm_get :: "'v gomap \<Rightarrow> string \<Rightarrow> 'v option" where
  "gm_get m k = map_of m k"

definition gm_wf :: "'v gomap \<Rightarrow> bool" where
  "gm_wf m \<longleftrightarrow> sorted_wrt (<) (map fst m)"

definition gm_put_all :: "'v gomap \<Rightarrow> 'v gomap \<Rightarrow> 'v gomap" where
  "gm_put_all src dst = fold (\<lambda>(k, v). gm_put k v) src dst"

lemma gm_get_Nil [simp]: "gm_get [] k = None"
  by (simp add: gm_get_def)

lemma gm_get_put [simp]: "gm_get (gm_put k v m) j = (if j = k then Some v else gm_get m j)"
  by (induction m) (auto simp: gm_get_def)

lemma gm_wf_Nil [simp]: "gm_wf []"
  by (simp add: gm_wf_def)

lemma gm_wf_Cons [simp]: "gm_wf (e # m) \<longleftrightarrow> (\<forall>k \<in> fst ` set m. fst e < k) \<and> gm_wf m"
  by (simp add: gm_wf_def)

lemma fst_gm_put: "fst ` set (gm_put k v m) = insert k (fst ` set m)"
  by (induction m) auto

lemma gm_wf_put [intro]: "gm_wf m \<Longrightarrow> gm_wf (gm_put k v m)"
  by (induction m) (auto simp: fst_gm_put dest: less_trans)

lemma gm_wf_put_all [intro]: "gm_wf dst \<Longrightarrow> gm_wf (gm_put_all src dst)"
  unfolding gm_put_all_def by (induction src arbitrary: dst) auto

lemma gm_get_put_all:
  "distinct (map fst src) \<Longrightarrow>
   gm_get (gm_put_all src dst) k = (case gm_get src k of Some v \<Rightarrow> Some v | None \<Rightarrow> gm_get dst k)"
proof (induction src arbitrary: dst)
  case Nil
  then show ?case by (simp add: gm_put_all_def)
next
  case (Cons e src)
  obtain a b where e: "e = (a, b)" by (cases e)
  have "gm_get (gm_put_all src (gm_put a b dst)) k =
      (case gm_get src k of Some v \<Rightarrow> Some v | None \<Rightarrow> gm_get (gm_put a b dst) k)"
    using Cons by auto
  moreover have "a \<notin> fst ` set src"
    using Cons.prems e by auto
  ultimately show ?case
    by (auto simp: e gm_put_all_def gm_get_def [of src] gm_get_def [of "(a, b) # src"]
        map_of_eq_None_iff dest: map_of_SomeD split: option.splits intro: rev_image_eqI)
qed

lemma gm_wf_distinct: "gm_wf m \<Longrightarrow> distinct (map fst m)"
  by (induction m) auto

lemma gm_entries: "distinct (map fst m) \<Longrightarrow> map (\<lambda>k. (k, the (gm_get m k))) (map fst m) = m"
  by (auto simp: gm_get_def intro!: map_idI)

lemma gm_eqI:
  assumes "gm_wf m" "gm_wf n" "\<And>k. gm_get m k = gm_get n k"
  shows "m = n"
proof -
  have "set (map fst m) = set (map fst n)"
    using assms(3) by (metis gm_get_def map_of_eq_None_iff set_map subsetI subset_antisym)
  then have "map fst m = map fst n"
    using assms(1,2) by (intro strict_sorted_equal) (auto simp: gm_wf_def)
  then show ?thesis
    using gm_entries [OF gm_wf_distinct [OF assms(1)]] gm_entries [OF gm_wf_distinct [OF assms(2)]]
      assms(3) by simp
qed

section \<open>Values\<close>

text \<open>
  A number literal without fraction and exponent is \<open>JInt\<close>, any other \<open>JNum\<close>: the decoder
  accepts only the first for an integer.
\<close>

datatype json =
    JNull
  | JBool bool
  | JInt int
  | JNum rat
  | JStr string
  | JArr "json list"
  | JObj "(string \<times> json) list"

record codec =
  marshal :: "json \<Rightarrow> error + string"
  unmarshal :: "string \<Rightarrow> error + json"

section \<open>Numbers\<close>

text \<open>
  A \<^verbatim>\<open>float64\<close> is written as an integer literal when it is one and smaller than \<open>10\<^sup>2\<^sup>1\<close>; infinities
  and NaN cannot be written. A literal out of range cannot be read.
\<close>

fun f64_json :: "f64 \<Rightarrow> error + json" where
  "f64_json (Fin x) = Inr (if x = of_int \<lfloor>x\<rfloor> \<and> \<bar>x\<bar> < 10 ^ 21 then JInt \<lfloor>x\<rfloor> else JNum x)"
| "f64_json _ = Inl ErrJson"

definition num_f64 :: "rat \<Rightarrow> f64 option" where
  "num_f64 x = (case f64_round x of Fin y \<Rightarrow> Some (Fin y) | _ \<Rightarrow> None)"

fun json_f64 :: "json \<Rightarrow> f64 option" where
  "json_f64 (JInt i) = num_f64 (of_int i)"
| "json_f64 (JNum x) = num_f64 x"
| "json_f64 _ = None"

lemma json_f64_inverse: "is_f64 x \<Longrightarrow> f64_json (Fin x) = Inr j \<Longrightarrow> json_f64 j = Some (Fin x)"
  by (auto simp: is_f64_def num_f64_def split: if_splits)

section \<open>Decoding into maps\<close>

text \<open>
  A value decoded into an \<^verbatim>\<open>any\<close> and written again: numbers become \<^verbatim>\<open>float64\<close> (a number out of
  range is an error and leaves null), members of an object become a map. The second component
  says whether there was no error; decoding goes on after one.
\<close>

fun num_any :: "rat \<Rightarrow> json \<times> bool" where
  "num_any x =
     (case f64_round x of
        Fin y \<Rightarrow> (case f64_json (Fin y) of Inr j \<Rightarrow> (j, True) | Inl _ \<Rightarrow> (JNull, False))
      | _ \<Rightarrow> (JNull, False))"

fun json_any :: "json \<Rightarrow> json \<times> bool"
  and json_any_list :: "json list \<Rightarrow> json list \<times> bool"
  and json_any_members :: "(string \<times> json) list \<Rightarrow> json gomap \<Rightarrow> json gomap \<times> bool" where
  "json_any JNull = (JNull, True)"
| "json_any (JBool b) = (JBool b, True)"
| "json_any (JInt i) = num_any (of_int i)"
| "json_any (JNum x) = num_any x"
| "json_any (JStr s) = (JStr s, True)"
| "json_any (JArr js) = (let (js', ok) = json_any_list js in (JArr js', ok))"
| "json_any (JObj kvs) = (let (m, ok) = json_any_members kvs [] in (JObj m, ok))"
| "json_any_list [] = ([], True)"
| "json_any_list (j # js) =
     (let (j', ok) = json_any j; (js', ok') = json_any_list js in (j' # js', ok \<and> ok'))"
| "json_any_members [] m = (m, True)"
| "json_any_members (kv # kvs) m =
     (case kv of (k, j) \<Rightarrow>
        (let (j', ok) = json_any j; (m', ok') = json_any_members kvs (gm_put k j' m) in (m', ok \<and> ok')))"

text \<open>
  \<^verbatim>\<open>map[string]any\<close>: a nil map is written as null, and null read into a map variable sets it
  to nil; an object adds its members to the map (a nil map is allocated first); any other
  value is an error and leaves the variable alone. The result is the variable afterwards and
  the error.
\<close>

definition any_map_json :: "json gomap option \<Rightarrow> json" where
  "any_map_json m = (case m of None \<Rightarrow> JNull | Some kvs \<Rightarrow> JObj kvs)"

definition json_any_map :: "json \<Rightarrow> json gomap option \<Rightarrow> json gomap option \<times> error option" where
  "json_any_map j m =
     (case j of
        JNull \<Rightarrow> (None, None)
      | JObj kvs \<Rightarrow>
          (let (m', ok) = json_any_members kvs (case m of None \<Rightarrow> [] | Some m' \<Rightarrow> m')
           in (Some m', if ok then None else Some ErrJson))
      | _ \<Rightarrow> (m, Some ErrJson))"

text \<open>
  \<^verbatim>\<open>map[string]string\<close>: a member that is not a string is set to the empty string; null is not an
  error, anything else is.
\<close>

definition str_map_json :: "string gomap option \<Rightarrow> json" where
  "str_map_json m = (case m of None \<Rightarrow> JNull | Some kvs \<Rightarrow> JObj (map (\<lambda>(k, v). (k, JStr v)) kvs))"

fun str_members :: "(string \<times> json) list \<Rightarrow> string gomap \<Rightarrow> string gomap \<times> bool" where
  "str_members [] m = (m, True)"
| "str_members (kv # kvs) m =
     (let v = (case snd kv of JStr s \<Rightarrow> s | _ \<Rightarrow> []);
          ok = (case snd kv of JStr _ \<Rightarrow> True | JNull \<Rightarrow> True | _ \<Rightarrow> False);
          (m', ok') = str_members kvs (gm_put (fst kv) v m)
      in (m', ok \<and> ok'))"

definition json_str_map :: "json \<Rightarrow> string gomap option \<Rightarrow> string gomap option \<times> error option" where
  "json_str_map j m =
     (case j of
        JNull \<Rightarrow> (None, None)
      | JObj kvs \<Rightarrow>
          (let (m', ok) = str_members kvs (case m of None \<Rightarrow> [] | Some m' \<Rightarrow> m')
           in (Some m', if ok then None else Some ErrJson))
      | _ \<Rightarrow> (m, Some ErrJson))"

lemma gm_put_all_empty:
  assumes "gm_wf m"
  shows "gm_put_all m [] = m"
  by (rule gm_eqI) (auto simp: assms gm_get_put_all [OF gm_wf_distinct [OF assms]]
      split: option.splits)

lemma str_members_strings: "str_members (map (\<lambda>(k, v). (k, JStr v)) kvs) m = (gm_put_all kvs m, True)"
  by (induction kvs arbitrary: m) (auto simp: gm_put_all_def Let_def)

lemma json_str_map_inverse:
  "gm_wf m \<Longrightarrow> json_str_map (str_map_json (Some m)) None = (Some m, None)"
  by (simp add: json_str_map_def str_map_json_def str_members_strings gm_put_all_empty)

lemma json_str_map_add:
  "json_str_map (str_map_json (Some kvs)) (Some m) = (Some (gm_put_all kvs m), None)"
  by (simp add: json_str_map_def str_map_json_def str_members_strings)

end
