(* ===== verification/Db.thy ===== *)
theory Db
  imports Hlc Json
begin

text \<open>
  The database under \<^verbatim>\<open>internal/engine/store\<close>: the three tables of the schema, calls that can
  fail, and transactions.

  An operation on a state is a function from the state to a result and the state after it;
  here the state is the store.
  The result is \<^term>\<open>Inl e\<close> where the Go function returns a non-nil error and \<^term>\<open>Inr x\<close>
  where it returns \<open>x\<close> and nil. Every call into the database (a statement, a scan, begin,
  commit) can fail for a reason of its own: \<open>st_faults\<close> is the script of those outcomes, one
  entry per call, \<^term>\<open>Some e\<close> for a failure; past the end of the script every call
  succeeds. Theorems that quantify over the store therefore quantify over every placement of
  faults. A call that fails has no effect on the tables, and a transaction that is not
  committed has none either: that is what SQLite documents and what \<open>with_tx\<close> says.

  The \<^verbatim>\<open>rows\<close> and \<^verbatim>\<open>events_v2\<close> tables are lists in rowid order; \<^verbatim>\<open>watermarks\<close> is only ever
  read and written through its primary key, so it is a map. The pool holds one connection
  (\<^verbatim>\<open>SetMaxOpenConns(1)\<close>), so the operations on one store are serialised.
\<close>

section \<open>Tables\<close>

type_synonym kind = string

definition KindRunner :: kind where "KindRunner = ''runner''"
definition KindMeta :: kind where "KindMeta = ''meta''"
definition KindEvent :: kind where "KindEvent = ''event''"

definition Kinds :: "kind list" where
  "Kinds = [KindRunner, KindMeta]"

lemma kinds_distinct [simp]:
  "KindRunner \<noteq> KindMeta" "KindMeta \<noteq> KindRunner" "KindRunner \<noteq> KindEvent"
  "KindEvent \<noteq> KindRunner" "KindMeta \<noteq> KindEvent" "KindEvent \<noteq> KindMeta"
  by (simp_all add: KindRunner_def KindMeta_def KindEvent_def)

record row =
  r_kind :: kind
  r_key :: string
  r_owner :: string
  r_hlc :: hlc
  r_tombstone :: bool
  r_payload :: string

record event_row =
  er_runner_id :: string
  er_seq :: int
  er_type :: string
  er_payload :: string
  er_hlc :: hlc

record store =
  st_node_id :: string
  st_rows :: "row list"
  st_events :: "event_row list"
  st_watermarks :: "string \<times> kind \<rightharpoonup> hlc"
  st_faults :: "string option list"

definition row_pk :: "row \<Rightarrow> kind \<times> string" where
  "row_pk r = (r_kind r, r_key r)"

definition event_pk :: "event_row \<Rightarrow> string \<times> int" where
  "event_pk e = (er_runner_id e, er_seq e)"

abbreviation select_row :: "kind \<Rightarrow> string \<Rightarrow> row list \<Rightarrow> row option" where
  "select_row k key t \<equiv> tbl_select row_pk (k, key) t"

abbreviation upsert_row :: "row \<Rightarrow> row list \<Rightarrow> row list" where
  "upsert_row \<equiv> tbl_upsert row_pk"

definition store_wf :: "store \<Rightarrow> bool" where
  "store_wf s \<longleftrightarrow> tbl_wf row_pk (st_rows s) \<and> tbl_wf event_pk (st_events s)"

definition same_tables :: "store \<Rightarrow> store \<Rightarrow> bool" where
  "same_tables s s' \<longleftrightarrow>
     st_rows s = st_rows s' \<and> st_events s = st_events s' \<and> st_watermarks s = st_watermarks s'
     \<and> st_node_id s = st_node_id s'"

lemma same_tables_refl [simp]: "same_tables s s"
  by (simp add: same_tables_def)

lemma same_tables_trans [trans]:
  "same_tables s s' \<Longrightarrow> same_tables s' s'' \<Longrightarrow> same_tables s s''"
  by (simp add: same_tables_def)

lemma same_tables_faults [simp]:
  "same_tables s (s'\<lparr>st_faults := fs\<rparr>) = same_tables s s'"
  "same_tables (s\<lparr>st_faults := fs\<rparr>) s' = same_tables s s'"
  by (simp_all add: same_tables_def)

lemma same_tables_wf: "same_tables s s' \<Longrightarrow> store_wf s = store_wf s'"
  by (simp add: same_tables_def store_wf_def)

section \<open>Calls that can fail\<close>

type_synonym ('s, 'a) st_op = "'s \<Rightarrow> (error + 'a) \<times> 's"
type_synonym 'a op = "(store, 'a) st_op"

definition ret :: "'a \<Rightarrow> ('s, 'a) st_op" where
  "ret x s = (Inr x, s)"

definition throw :: "error \<Rightarrow> ('s, 'a) st_op" where
  "throw e s = (Inl e, s)"

text \<open>\<open>bindE m f\<close>: run \<open>m\<close>; return its error if it has one, else go on with \<open>f\<close>.\<close>

definition bindE :: "('s, 'a) st_op \<Rightarrow> ('a \<Rightarrow> ('s, 'b) st_op) \<Rightarrow> ('s, 'b) st_op" where
  "bindE m f s = (case m s of (Inl e, s') \<Rightarrow> (Inl e, s') | (Inr x, s') \<Rightarrow> f x s')"

text \<open>\<open>tryE m h f\<close>: the same with the error handled by \<open>h\<close>.\<close>

definition tryE :: "('s, 'a) st_op \<Rightarrow> (error \<Rightarrow> ('s, 'b) st_op) \<Rightarrow> ('a \<Rightarrow> ('s, 'b) st_op) \<Rightarrow> ('s, 'b) st_op" where
  "tryE m h f s = (case m s of (Inl e, s') \<Rightarrow> h e s' | (Inr x, s') \<Rightarrow> f x s')"

definition db_call :: "unit op" where
  "db_call s =
     (case st_faults s of
        [] \<Rightarrow> (Inr (), s)
      | None # fs \<Rightarrow> (Inr (), s\<lparr>st_faults := fs\<rparr>)
      | Some e # fs \<Rightarrow> (Inl (DbErr e), s\<lparr>st_faults := fs\<rparr>))"

definition query :: "(store \<Rightarrow> 'a) \<Rightarrow> 'a op" where
  "query f = bindE db_call (\<lambda>_ s. (Inr (f s), s))"

definition exec :: "(store \<Rightarrow> store) \<Rightarrow> unit op" where
  "exec f = bindE db_call (\<lambda>_ s. (Inr (), f s))"

text \<open>\<^verbatim>\<open>QueryRow(...).Scan(...)\<close>: an empty result set is the error \<open>ErrNoRows\<close>.\<close>

definition query_row :: "(store \<Rightarrow> 'a option) \<Rightarrow> 'a op" where
  "query_row f = bindE db_call (\<lambda>_ s. case f s of None \<Rightarrow> (Inl ErrNoRows, s) | Some x \<Rightarrow> (Inr x, s))"

text \<open>
  A transaction: begin, the body, and the deferred rollback. The body ends with
  \<^term>\<open>Inr True\<close> when it got through \<^verbatim>\<open>tx.Commit()\<close> and with \<^term>\<open>Inr False\<close> when it returned
  nil before the commit; in that case, and on an error, the rollback undoes its writes.
\<close>

definition rollback :: "store \<Rightarrow> store \<Rightarrow> store" where
  "rollback s0 s = s0\<lparr>st_faults := st_faults s\<rparr>"

definition with_tx :: "bool op \<Rightarrow> unit op" where
  "with_tx body = bindE db_call (\<lambda>_ s0.
     case body s0 of
       (Inl e, s) \<Rightarrow> (Inl e, rollback s0 s)
     | (Inr True, s) \<Rightarrow> (Inr (), s)
     | (Inr False, s) \<Rightarrow> (Inr (), rollback s0 s))"

definition commit :: "bool op" where
  "commit = bindE db_call (\<lambda>_. ret True)"

text \<open>\<^verbatim>\<open>for rows.Next() { scan }; rows.Err()\<close>: each scan and the final check can fail.\<close>

fun scan_all :: "'a list \<Rightarrow> unit op" where
  "scan_all [] = db_call"
| "scan_all (_ # rs) = bindE db_call (\<lambda>_. scan_all rs)"

definition query_rows :: "(store \<Rightarrow> 'a list) \<Rightarrow> 'a list op" where
  "query_rows f = bindE (query f) (\<lambda>rs. bindE (scan_all rs) (\<lambda>_. ret rs))"

section \<open>Rules for calls\<close>

definition healthy :: "store \<Rightarrow> bool" where
  "healthy s \<longleftrightarrow> st_faults s = []"

lemma bindE_Inr:
  "bindE m f s = (Inr y, t) \<longleftrightarrow> (\<exists>x s'. m s = (Inr x, s') \<and> f x s' = (Inr y, t))"
  by (auto simp: bindE_def split: prod.splits sum.splits)

lemma bindE_Inl:
  "bindE m f s = (Inl e, t) \<longleftrightarrow>
     m s = (Inl e, t) \<or> (\<exists>x s'. m s = (Inr x, s') \<and> f x s' = (Inl e, t))"
  by (auto simp: bindE_def split: prod.splits sum.splits)

lemma ret_simp [db_simps]: "ret x s = (Inr x, s)"
  by (simp add: ret_def)

lemma throw_simp [db_simps]: "throw e s = (Inl e, s)"
  by (simp add: throw_def)

lemma db_call_tables: "db_call s = (r, s') \<Longrightarrow> \<exists>fs. s' = s\<lparr>st_faults := fs\<rparr>"
  by (auto simp: db_call_def split: list.splits option.splits) (metis store.surjective store.update_convs(5))

lemma db_call_same: "db_call s = (r, s') \<Longrightarrow> same_tables s s'"
  by (auto dest!: db_call_tables)

lemma db_call_healthy [db_simps]: "healthy s \<Longrightarrow> db_call s = (Inr (), s)"
  by (simp add: db_call_def healthy_def)

lemma bindE_healthy [db_simps]: "m s = (Inr x, s') \<Longrightarrow> bindE m f s = f x s'"
  by (simp add: bindE_def)

lemma query_healthy [db_simps]: "healthy s \<Longrightarrow> query f s = (Inr (f s), s)"
  by (simp add: query_def db_simps)

lemma exec_healthy [db_simps]: "healthy s \<Longrightarrow> exec f s = (Inr (), f s)"
  by (simp add: exec_def db_simps)

lemma query_row_healthy [db_simps]:
  "healthy s \<Longrightarrow> query_row f s = (case f s of None \<Rightarrow> (Inl ErrNoRows, s) | Some x \<Rightarrow> (Inr x, s))"
  by (simp add: query_row_def db_simps)

lemma scan_all_healthy [db_simps]: "healthy s \<Longrightarrow> scan_all rs s = (Inr (), s)"
  by (induction rs) (auto simp: db_simps)

lemma query_rows_healthy [db_simps]: "healthy s \<Longrightarrow> query_rows f s = (Inr (f s), s)"
  by (simp add: query_rows_def db_simps)

lemma commit_healthy [db_simps]: "healthy s \<Longrightarrow> commit s = (Inr True, s)"
  by (simp add: commit_def db_simps)

lemma with_tx_healthy:
  "healthy s \<Longrightarrow> body s = (Inr True, s') \<Longrightarrow> with_tx body s = (Inr (), s')"
  "healthy s \<Longrightarrow> body s = (Inr False, s') \<Longrightarrow> with_tx body s = (Inr (), s\<lparr>st_faults := st_faults s'\<rparr>)"
  by (simp_all add: with_tx_def db_simps rollback_def)

lemma healthy_faults [simp]: "healthy (s\<lparr>st_faults := fs\<rparr>) \<longleftrightarrow> fs = []"
  by (simp add: healthy_def)

lemma healthy_updates [simp]:
  "healthy (s\<lparr>st_rows := t\<rparr>) = healthy s" "healthy (s\<lparr>st_events := es\<rparr>) = healthy s"
  "healthy (s\<lparr>st_watermarks := w\<rparr>) = healthy s"
  by (simp_all add: healthy_def)

lemma query_same: "query f s = (r, s') \<Longrightarrow> same_tables s s'"
  by (auto simp: query_def bindE_def split: prod.splits sum.splits dest: db_call_same)

lemma query_row_same: "query_row f s = (r, s') \<Longrightarrow> same_tables s s'"
  by (auto simp: query_row_def bindE_def split: prod.splits sum.splits option.splits dest: db_call_same)

lemma scan_all_same: "scan_all rs s = (r, s') \<Longrightarrow> same_tables s s'"
  by (induction rs arbitrary: s)
     (auto simp: bindE_def split: prod.splits sum.splits dest: db_call_same intro: same_tables_trans)

lemma query_rows_same: "query_rows f s = (r, s') \<Longrightarrow> same_tables s s'"
  by (auto simp: query_rows_def bindE_def ret_def split: prod.splits sum.splits
      dest!: query_same scan_all_same intro: same_tables_trans)

text \<open>The value a successful call returns is the one the tables give.\<close>

lemma query_Inr: "query f s = (Inr x, s') \<Longrightarrow> \<exists>fs. s' = s\<lparr>st_faults := fs\<rparr> \<and> x = f s'"
  by (auto simp: query_def bindE_Inr dest!: db_call_tables)

lemma exec_Inr: "exec f s = (Inr x, s') \<Longrightarrow> \<exists>fs. s' = f (s\<lparr>st_faults := fs\<rparr>)"
  by (auto simp: exec_def bindE_Inr dest!: db_call_tables)

lemma exec_Inl: "exec f s = (Inl e, s') \<Longrightarrow> same_tables s s'"
  by (auto simp: exec_def bindE_Inl dest: db_call_same)

lemma query_rows_Inr:
  "query_rows f s = (Inr x, s') \<Longrightarrow> \<exists>fs. x = f (s\<lparr>st_faults := fs\<rparr>) \<and> same_tables s s'"
  by (auto simp: query_rows_def bindE_Inr ret_def dest!: query_Inr scan_all_same)

lemma query_row_Inr: "query_row f s = (Inr x, s') \<Longrightarrow> \<exists>fs. s' = s\<lparr>st_faults := fs\<rparr> \<and> f s' = Some x"
  by (auto simp: query_row_def bindE_Inr split: option.splits dest!: db_call_tables)

lemma query_row_ErrNoRows:
  "query_row f s = (Inl ErrNoRows, s') \<Longrightarrow> \<exists>fs. s' = s\<lparr>st_faults := fs\<rparr> \<and> f s' = None"
proof -
  have "db_call s \<noteq> (Inl ErrNoRows, s')"
    by (auto simp: db_call_def split: list.splits option.splits)
  then show "query_row f s = (Inl ErrNoRows, s') \<Longrightarrow> \<exists>fs. s' = s\<lparr>st_faults := fs\<rparr> \<and> f s' = None"
    by (auto simp: query_row_def bindE_Inl split: option.splits dest!: db_call_tables)
qed

text \<open>A transaction that returns an error leaves the tables as they were.\<close>

lemma with_tx_Inl: "with_tx body s = (Inl e, s') \<Longrightarrow> same_tables s s'"
  by (auto simp: with_tx_def bindE_def rollback_def split: prod.splits sum.splits bool.splits
      dest: db_call_same)

lemma with_tx_Inr:
  "with_tx body s = (Inr x, s') \<Longrightarrow>
     \<exists>s0 b s1. same_tables s s0 \<and> body s0 = (Inr b, s1) \<and> s' = (if b then s1 else rollback s0 s1)"
  by (auto simp: with_tx_def bindE_def split: prod.splits sum.splits bool.splits dest!: db_call_same)

lemma with_tx_Inr_faults:
  "with_tx body s = (Inr x, s') \<Longrightarrow>
     \<exists>fs b s1. body (s\<lparr>st_faults := fs\<rparr>) = (Inr b, s1) \<and>
       s' = (if b then s1 else rollback (s\<lparr>st_faults := fs\<rparr>) s1)"
  by (auto simp: with_tx_def bindE_def split: prod.splits sum.splits bool.splits dest!: db_call_tables)

lemma commit_Inr: "commit s = (Inr b, s') \<Longrightarrow> b \<and> (\<exists>fs. s' = s\<lparr>st_faults := fs\<rparr>)"
  by (auto simp: commit_def bindE_Inr ret_def dest!: db_call_tables)

end
