(* ===== verification/Lww.thy ===== *)
theory Lww
  imports Main
begin

text \<open>
  Last-writer-wins tables as an interface. A provider gives a look-up, a merge that keeps the
  newer of two rows with one key, and a strict weak order \<open>beats\<close> on rows; the locale proves
  what replication needs of it: which row wins a sequence of merges, that the winner depends
  neither on the order nor on repetitions of the merges, and that merging never loses ground.
\<close>

locale lww_table =
  fixes pk :: "'r \<Rightarrow> 'k"
    and beats :: "'r \<Rightarrow> 'r \<Rightarrow> bool"
    and get :: "'k \<Rightarrow> 't \<Rightarrow> 'r option"
    and merge :: "'r \<Rightarrow> 't \<Rightarrow> 't"
    and wf :: "'t \<Rightarrow> bool"
  assumes beats_irrefl: "\<not> beats a a"
    and beats_trans: "beats a b \<Longrightarrow> beats b c \<Longrightarrow> beats a c"
    and beats_weak: "beats a c \<Longrightarrow> beats a b \<or> beats b c"
    and get_merge: "wf t \<Longrightarrow> get k (merge r t) =
      (if k = pk r \<and> (\<forall>c. get k t = Some c \<longrightarrow> beats r c) then Some r else get k t)"
    and wf_merge: "wf t \<Longrightarrow> wf (merge r t)"
    and get_pk: "wf t \<Longrightarrow> get k t = Some r \<Longrightarrow> pk r = k"
begin

definition merge_all :: "'r list \<Rightarrow> 't \<Rightarrow> 't" where
  "merge_all rs t = fold merge rs t"

definition candidates :: "'k \<Rightarrow> 'r list \<Rightarrow> 't \<Rightarrow> 'r set" where
  "candidates k rs t = {r \<in> set rs. pk r = k} \<union> set_option (get k t)"

definition unambiguous :: "'r set \<Rightarrow> bool" where
  "unambiguous S \<longleftrightarrow> (\<forall>a \<in> S. \<forall>b \<in> S. pk a = pk b \<longrightarrow> beats a b \<or> beats b a \<or> a = b)"

lemma wf_merge_all: "wf t \<Longrightarrow> wf (merge_all rs t)"
  unfolding merge_all_def by (induction rs arbitrary: t) (auto intro: wf_merge)

lemma get_merge_None: "wf t \<Longrightarrow> get k (merge r t) = None \<longleftrightarrow> get k t = None \<and> k \<noteq> pk r"
  by (auto simp: get_merge)

lemma winner:
  "wf t \<Longrightarrow> get k (merge_all rs t) = Some r \<Longrightarrow>
     r \<in> candidates k rs t \<and> (\<forall>c \<in> candidates k rs t. \<not> beats c r)"
proof (induction rs arbitrary: t)
  case Nil
  then show ?case by (simp add: merge_all_def candidates_def beats_irrefl)
next
  case (Cons x rs)
  let ?t = "merge x t"
  have IH: "r \<in> candidates k rs ?t" "\<forall>c \<in> candidates k rs ?t. \<not> beats c r"
    using Cons.IH [of ?t] Cons.prems wf_merge by (auto simp: merge_all_def)
  have sub: "candidates k rs ?t \<subseteq> candidates k (x # rs) t"
    using Cons.prems(1) by (auto simp: candidates_def get_merge split: if_splits)
  have "\<not> beats c r" if c: "c \<in> candidates k (x # rs) t" for c
  proof (cases "c \<in> candidates k rs ?t")
    case True
    then show ?thesis using IH(2) by blast
  next
    case False
    then obtain d where d: "get k ?t = Some d" "\<not> beats c d"
      using c Cons.prems(1) by (auto simp: candidates_def get_merge beats_irrefl split: if_splits)
        (metis beats_irrefl beats_trans)+
    then have "\<not> beats d r"
      using IH(2) by (auto simp: candidates_def)
    then show ?thesis
      using d(2) beats_weak by blast
  qed
  then show ?case using IH(1) sub by blast
qed

lemma winner_None:
  "wf t \<Longrightarrow> get k (merge_all rs t) = None \<longleftrightarrow> candidates k rs t = {}"
proof (induction rs arbitrary: t)
  case Nil
  then show ?case by (auto simp: merge_all_def candidates_def)
next
  case (Cons x rs)
  have "get k (merge_all (x # rs) t) = None \<longleftrightarrow> candidates k rs (merge x t) = {}"
    using Cons.IH [of "merge x t"] Cons.prems wf_merge by (simp add: merge_all_def)
  also have "\<dots> \<longleftrightarrow> candidates k (x # rs) t = {}"
    using Cons.prems by (auto simp: candidates_def get_merge_None)
  finally show ?case .
qed

theorem converge:
  assumes "wf t" "wf u"
    and same: "candidates k rs t = candidates k rs' u"
    and unamb: "unambiguous (candidates k rs t)"
  shows "get k (merge_all rs t) = get k (merge_all rs' u)"
proof (cases "get k (merge_all rs t)")
  case None
  then show ?thesis
    using winner_None [OF assms(1), of k rs] winner_None [OF assms(2), of k rs'] same by simp
next
  case (Some r)
  then obtain r' where r': "get k (merge_all rs' u) = Some r'"
    using winner_None [OF assms(1), of k rs] winner_None [OF assms(2), of k rs'] same
    by (cases "get k (merge_all rs' u)") auto
  have "pk r = k" "pk r' = k"
    using Some r' assms(1,2) wf_merge_all get_pk by blast+
  then have "r = r'"
    using winner [OF assms(1) Some] winner [OF assms(2) r'] same unamb
    by (simp add: unambiguous_def) blast
  then show ?thesis using Some r' by simp
qed

lemma merge_all_keeps:
  assumes "wf t" "get k t = Some c"
  shows "\<exists>r. get k (merge_all rs t) = Some r \<and> \<not> beats c r"
proof -
  have "c \<in> candidates k rs t"
    using assms(2) by (simp add: candidates_def)
  then show ?thesis
    using winner [OF assms(1), of k rs] winner_None [OF assms(1), of k rs]
    by (cases "get k (merge_all rs t)") auto
qed

lemma merge_all_covers:
  assumes "wf t" "c \<in> set rs"
  shows "\<exists>r. get (pk c) (merge_all rs t) = Some r \<and> \<not> beats c r"
proof -
  have "c \<in> candidates (pk c) rs t"
    using assms(2) by (simp add: candidates_def)
  then show ?thesis
    using winner [OF assms(1), of "pk c" rs] winner_None [OF assms(1), of "pk c" rs]
    by (cases "get (pk c) (merge_all rs t)") auto
qed

lemma merge_absorb:
  assumes "wf t" "get (pk r) t = Some c" "\<not> beats r c"
  shows "get k (merge r t) = get k t"
  using assms by (auto simp: get_merge)

lemma merge_all_absorb:
  assumes "wf t" "\<And>r. r \<in> set rs \<Longrightarrow> \<exists>c. get (pk r) t = Some c \<and> \<not> beats r c"
  shows "get k (merge_all rs t) = get k t"
  using assms
proof (induction rs arbitrary: t)
  case Nil
  then show ?case by (simp add: merge_all_def)
next
  case (Cons r rs)
  have same: "get j (merge r t) = get j t" for j
    using Cons.prems by (auto intro: merge_absorb)
  then have "get k (merge_all rs (merge r t)) = get k (merge r t)"
    using Cons.prems by (intro Cons.IH) (auto intro: wf_merge)
  then show ?case using same by (simp add: merge_all_def)
qed

theorem merge_all_idem:
  assumes "wf t"
  shows "get k (merge_all rs (merge_all rs t)) = get k (merge_all rs t)"
  using assms by (intro merge_all_absorb wf_merge_all) (auto intro: merge_all_covers)

end

end
