(* ===== verification/Store.thy ===== *)
theory Store
  imports Db Lww
begin

text \<open>
  \<^verbatim>\<open>internal/engine/store/store.go\<close>, the \<^verbatim>\<open>rows\<close> and \<^verbatim>\<open>watermarks\<close> tables: opening a store,
  local writes (\<^verbatim>\<open>Put\<close>, \<^verbatim>\<open>Delete\<close>, \<^verbatim>\<open>DeleteByNode\<close>), merging of replicated rows (\<^verbatim>\<open>Apply\<close>,
  \<^verbatim>\<open>ApplyRemote\<close>), reads (\<^verbatim>\<open>Get\<close>, \<^verbatim>\<open>List\<close>, \<^verbatim>\<open>ChangesSince\<close>), tombstone collection and
  watermarks. The SQL in the source is translated statement by statement.

  \<open>merge_row\<close> and \<open>merge_rows\<close> are the specification of merging, a function on tables with no
  faults and no transaction; the operations are shown to refine it, and \<open>rows_lww\<close> shows that
  it is a last-writer-wins table.
\<close>

section \<open>Opening\<close>

text \<open>
  \<^verbatim>\<open>init\<close> runs eight statements that only create what is missing; \<^verbatim>\<open>Open\<close> finds the tables the
  file already holds (\<open>disk\<close>).
\<close>

primrec init_stmts :: "nat \<Rightarrow> unit op" where
  "init_stmts 0 = ret ()"
| "init_stmts (Suc n) = tryE (exec id) (\<lambda>e. throw (ErrSchema e)) (\<lambda>_. init_stmts n)"

definition store_init :: "unit op" where
  "store_init = init_stmts 8"

definition Open :: "store \<Rightarrow> string \<Rightarrow> error + store" where
  "Open disk nodeID =
     (case db_call (disk\<lparr>st_node_id := nodeID\<rparr>) of
        (Inl e, _) \<Rightarrow> Inl e
      | (Inr _, s) \<Rightarrow> (case store_init s of (Inl e, _) \<Rightarrow> Inl e | (Inr _, s') \<Rightarrow> Inr s'))"

definition NodeID :: "store \<Rightarrow> string" where
  "NodeID s = st_node_id s"

definition empty_disk :: store where
  "empty_disk = \<lparr>st_node_id = [], st_rows = [], st_events = [], st_watermarks = Map.empty, st_faults = []\<rparr>"

section \<open>Conflict resolution\<close>

definition newer :: "row \<Rightarrow> row \<Rightarrow> bool" where
  "newer a b =
     (if hlc_compare (r_hlc a) (r_hlc b) = 1 then True
      else if hlc_compare (r_hlc a) (r_hlc b) = -1 then False
      else r_owner a > r_owner b)"

definition maxHLC :: "hlc \<Rightarrow> hlc \<Rightarrow> hlc" where
  "maxHLC a b = (if After b a then b else a)"

lemma newer_iff:
  "newer a b \<longleftrightarrow> r_hlc b < r_hlc a \<or> r_hlc a = r_hlc b \<and> r_owner b < r_owner a"
  by (auto simp: newer_def hlc_compare_cases)

lemma maxHLC_max [simp]: "maxHLC a b = max a b"
  by (auto simp: maxHLC_def max_def)

section \<open>Local writes and reads\<close>

definition upsert :: "row \<Rightarrow> unit op" where
  "upsert r = exec (\<lambda>s. s\<lparr>st_rows := upsert_row r (st_rows s)\<rparr>)"

definition Put :: "row \<Rightarrow> unit op" where
  "Put r = upsert r"

definition store_get :: "kind \<Rightarrow> string \<Rightarrow> row option op" where
  "store_get kind key =
     tryE (query_row (\<lambda>s. select_row kind key (st_rows s)))
       (\<lambda>e. if e = ErrNoRows then ret None else throw e)
       (\<lambda>r. ret (Some r))"

definition Get :: "kind \<Rightarrow> string \<Rightarrow> row option op" where
  "Get kind key = store_get kind key"

definition Delete :: "kind \<Rightarrow> string \<Rightarrow> string \<Rightarrow> hlc \<Rightarrow> unit op" where
  "Delete kind key owner hlc =
     bindE (store_get kind key) (\<lambda>cur.
       let payload = (case cur of None \<Rightarrow> [] | Some c \<Rightarrow> r_payload c)
       in upsert \<lparr>r_kind = kind, r_key = key, r_owner = owner, r_hlc = hlc,
                  r_tombstone = True, r_payload = payload\<rparr>)"

definition ChangesSince :: "kind \<Rightarrow> hlc \<Rightarrow> row list op" where
  "ChangesSince kind wm =
     query_rows (\<lambda>s. sort_key r_hlc
       (filter (\<lambda>r. r_kind r = kind \<and>
          (TS (r_hlc r) > TS wm \<or> TS (r_hlc r) = TS wm \<and> Seq (r_hlc r) > Seq wm))
        (st_rows s)))"

section \<open>Merging replicated rows\<close>

definition Apply :: "row \<Rightarrow> unit op" where
  "Apply r = with_tx
     (let write = bindE (exec (\<lambda>s. s\<lparr>st_rows := upsert_row r (st_rows s)\<rparr>)) (\<lambda>_. commit) in
      tryE (query_row (\<lambda>s. select_row (r_kind r) (r_key r) (st_rows s)))
        (\<lambda>e. if e = ErrNoRows then write else throw e)
        (\<lambda>cur. if \<not> newer r cur then ret False else write))"

definition bump_max :: "row \<Rightarrow> hlc gomap \<Rightarrow> hlc gomap" where
  "bump_max r m =
     gm_put (r_kind r)
       (maxHLC (case gm_get m (r_kind r) of None \<Rightarrow> hlc_zero | Some h \<Rightarrow> h) (r_hlc r)) m"

text \<open>
  The body of the loop over the batch: the row's current version is read (owner and stamp
  only), and the row is written unless the current one is at least as new. Both ways of the
  body then record the row's stamp in \<^verbatim>\<open>maxByKind\<close>.
\<close>

definition apply_one :: "row \<Rightarrow> unit op" where
  "apply_one r =
     (let put = exec (\<lambda>s. s\<lparr>st_rows := upsert_row r (st_rows s)\<rparr>) in
      tryE (query_row (\<lambda>s. map_option (\<lambda>c. (r_owner c, r_hlc c))
                             (select_row (r_kind r) (r_key r) (st_rows s))))
        (\<lambda>e. if e = ErrNoRows then put else throw e)
        (\<lambda>(curOwner, h).
           let cur = \<lparr>r_kind = r_kind r, r_key = r_key r, r_owner = curOwner, r_hlc = h,
                      r_tombstone = False, r_payload = []\<rparr>
           in if \<not> newer r cur then ret () else put))"

primrec apply_rows :: "row list \<Rightarrow> hlc gomap \<Rightarrow> hlc gomap op" where
  "apply_rows [] m = ret m"
| "apply_rows (r # rs) m = bindE (apply_one r) (\<lambda>_. apply_rows rs (bump_max r m))"

definition advance_one :: "string \<Rightarrow> kind \<Rightarrow> hlc \<Rightarrow> unit op" where
  "advance_one peer kind hlc =
     (let put = exec (\<lambda>s. s\<lparr>st_watermarks := (st_watermarks s)((peer, kind) \<mapsto> hlc)\<rparr>) in
      tryE (query_row (\<lambda>s. st_watermarks s (peer, kind)))
        (\<lambda>e. if e = ErrNoRows then put else throw e)
        (\<lambda>cur. if \<not> After hlc cur then ret () else put))"

primrec advance_watermarks :: "string \<Rightarrow> hlc gomap \<Rightarrow> unit op" where
  "advance_watermarks peer [] = ret ()"
| "advance_watermarks peer (e # m) =
     bindE (advance_one peer (fst e) (snd e)) (\<lambda>_. advance_watermarks peer m)"

definition ApplyRemote :: "string \<Rightarrow> row list \<Rightarrow> unit op" where
  "ApplyRemote peer rs =
     (if rs = [] then ret ()
      else with_tx (bindE (apply_rows rs []) (\<lambda>maxByKind.
             bindE (advance_watermarks peer maxByKind) (\<lambda>_. commit))))"

section \<open>Deletion by node and tombstone collection\<close>

text \<open>
  SQLite's \<^verbatim>\<open>LIKE\<close>: \<^verbatim>\<open>%\<close> matches any sequence of characters, \<^verbatim>\<open>_\<close> any one character, and every
  other character itself or, for ASCII letters, the same letter in the other case. A UTF-8
  character is its first byte and the continuation bytes after a first byte of 192 or more.
\<close>

definition ascii_lower :: "char \<Rightarrow> char" where
  "ascii_lower c = (if CHR ''A'' \<le> c \<and> c \<le> CHR ''Z'' then char_of ((of_char c :: nat) + 32) else c)"

definition utf8_rest :: "char \<Rightarrow> string \<Rightarrow> string" where
  "utf8_rest c s =
     (if (of_char c :: nat) \<ge> 192
      then dropWhile (\<lambda>d. 128 \<le> (of_char d :: nat) \<and> (of_char d :: nat) < 192) s else s)"

lemma length_utf8_rest [simp]: "length (utf8_rest c s) \<le> length s"
  by (simp add: utf8_rest_def length_dropWhile_le)

function sql_like :: "string \<Rightarrow> string \<Rightarrow> bool" where
  "sql_like [] s = (s = [])"
| "sql_like (p # ps) s =
     (if p = CHR ''%'' then
        sql_like ps s \<or> (case s of [] \<Rightarrow> False | c # cs \<Rightarrow> sql_like (p # ps) (utf8_rest c cs))
      else (case s of
          [] \<Rightarrow> False
        | c # cs \<Rightarrow>
            if p = CHR ''_'' then sql_like ps (utf8_rest c cs)
            else ascii_lower p = ascii_lower c \<and> sql_like ps cs))"
  by pat_completeness auto
termination
  by (relation "measure (\<lambda>(p, s). length p + length s)") (auto simp: less_Suc_eq_le le_SucI)

definition DeleteByNode :: "string \<Rightarrow> hlc \<Rightarrow> unit op" where
  "DeleteByNode nodeID hlc =
     (let prefix = nodeID @ ''/%'' in
      exec (\<lambda>s. s\<lparr>st_rows := map (\<lambda>r. if sql_like prefix (r_owner r) \<and> \<not> r_tombstone r
                                     then r\<lparr>r_tombstone := True, r_hlc := hlc\<rparr> else r) (st_rows s)\<rparr>))"

definition gc_drops :: "hlc \<Rightarrow> row \<Rightarrow> bool" where
  "gc_drops minHLC r \<longleftrightarrow> r_tombstone r \<and>
     (TS (r_hlc r) < TS minHLC \<or> TS (r_hlc r) = TS minHLC \<and> Seq (r_hlc r) < Seq minHLC)"

definition GCTombstones :: "hlc \<Rightarrow> int op" where
  "GCTombstones minHLC = (\<lambda>s.
     bindE (exec (\<lambda>s. s\<lparr>st_rows := filter (\<lambda>r. \<not> gc_drops minHLC r) (st_rows s)\<rparr>))
       (\<lambda>_. ret (int (length (filter (gc_drops minHLC) (st_rows s))))) s)"

section \<open>Listing\<close>

definition key_letters :: string where
  "key_letters = ''abcdefghijklmnopqrstuvwxyzABCDEFGHIJKLMNOPQRSTUVWXYZ_''"

definition safeKey :: "string \<Rightarrow> bool" where
  "safeKey k =
     (case k of
        [] \<Rightarrow> False
      | c # cs \<Rightarrow> c \<in> set key_letters \<and> set cs \<subseteq> set key_letters \<union> set ''0123456789'')"

text \<open>
  \<open>jx payload k v\<close> is the value of SQLite's \<^verbatim>\<open>json_extract(payload, '$.k') = v\<close> on one row; it is
  an argument, and an error where the payload is not JSON.
\<close>

fun row_matches :: "(string \<Rightarrow> string \<Rightarrow> json \<Rightarrow> error + bool) \<Rightarrow> (string \<times> json) list \<Rightarrow> row \<Rightarrow> error + bool" where
  "row_matches jx [] r = Inr True"
| "row_matches jx (f # fs) r =
     (case jx (r_payload r) (fst f) (snd f) of
        Inl e \<Rightarrow> Inl e
      | Inr b \<Rightarrow> if b then row_matches jx fs r else Inr False)"

fun filter_rows :: "(row \<Rightarrow> error + bool) \<Rightarrow> row list \<Rightarrow> error + row list" where
  "filter_rows p [] = Inr []"
| "filter_rows p (r # rs) =
     (case p r of
        Inl e \<Rightarrow> Inl e
      | Inr b \<Rightarrow> (case filter_rows p rs of Inl e \<Rightarrow> Inl e | Inr out \<Rightarrow> Inr (if b then r # out else out)))"

definition page :: "int \<Rightarrow> int \<Rightarrow> 'a list \<Rightarrow> 'a list" where
  "page limit offset xs =
     (if limit > 0 then take (nat limit) (if offset > 0 then drop (nat offset) xs else xs)
      else if limit = -1 \<and> offset > 0 then drop (nat offset) xs
      else xs)"

text \<open>The callback is a function on the state its closure captures, and whether to go on.\<close>

primrec list_loop :: "(row \<Rightarrow> 'b \<Rightarrow> 'b \<times> bool) \<Rightarrow> row list \<Rightarrow> 'b \<Rightarrow> 'b op" where
  "list_loop fn [] acc = bindE db_call (\<lambda>_. ret acc)"
| "list_loop fn (r # rs) acc =
     bindE db_call (\<lambda>_.
       let (acc', go_on) = fn r acc
       in if go_on then list_loop fn rs acc' else bindE db_call (\<lambda>_. ret acc'))"

definition List_rows ::
  "(string \<Rightarrow> string \<Rightarrow> json \<Rightarrow> error + bool) \<Rightarrow> kind \<Rightarrow> int \<Rightarrow> int \<Rightarrow> json gomap \<Rightarrow>
   (row \<Rightarrow> 'b \<Rightarrow> 'b \<times> bool) \<Rightarrow> 'b \<Rightarrow> 'b op" where
  "List_rows jx kind limit offset filters fn acc =
     (case find (\<lambda>f. \<not> safeKey (fst f)) filters of
        Some f \<Rightarrow> throw (ErrFilterKey (fst f))
      | None \<Rightarrow>
          bindE (query (\<lambda>s. filter_rows (row_matches jx filters)
                  (filter (\<lambda>r. r_kind r = kind \<and> \<not> r_tombstone r) (st_rows s))))
            (\<lambda>res. case res of
               Inl e \<Rightarrow> throw e
             | Inr rs \<Rightarrow> list_loop fn (page limit offset (sort_key r_key rs)) acc))"

section \<open>Watermarks\<close>

definition Watermark :: "string \<Rightarrow> kind \<Rightarrow> hlc op" where
  "Watermark peer kind =
     tryE (query_row (\<lambda>s. st_watermarks s (peer, kind)))
       (\<lambda>e. if e = ErrNoRows then ret hlc_zero else throw e)
       ret"

definition SetWatermark :: "string \<Rightarrow> kind \<Rightarrow> hlc \<Rightarrow> unit op" where
  "SetWatermark peer kind hlc =
     bindE (Watermark peer kind) (\<lambda>cur.
       if \<not> After hlc cur then ret ()
       else exec (\<lambda>s. s\<lparr>st_watermarks := (st_watermarks s)((peer, kind) \<mapsto> hlc)\<rparr>))"

section \<open>The specification of merging\<close>

definition merge_row :: "row \<Rightarrow> row list \<Rightarrow> row list" where
  "merge_row r t =
     (case select_row (r_kind r) (r_key r) t of
        None \<Rightarrow> upsert_row r t
      | Some cur \<Rightarrow> if newer r cur then upsert_row r t else t)"

definition merge_rows :: "row list \<Rightarrow> row list \<Rightarrow> row list" where
  "merge_rows rs t = fold merge_row rs t"

text \<open>The watermark a batch leaves: per kind, the largest stamp of the batch, from zero up.\<close>

definition batch_max :: "row list \<Rightarrow> hlc gomap" where
  "batch_max rs = fold bump_max rs []"

definition raise_watermarks ::
  "string \<Rightarrow> hlc gomap \<Rightarrow> (string \<times> kind \<rightharpoonup> hlc) \<Rightarrow> (string \<times> kind \<rightharpoonup> hlc)" where
  "raise_watermarks peer m w = (\<lambda>(p, k).
     if p = peer then
       (case (gm_get m k, w (p, k)) of
          (None, x) \<Rightarrow> x
        | (Some h, None) \<Rightarrow> Some h
        | (Some h, Some cur) \<Rightarrow> Some (max cur h))
     else w (p, k))"

lemma merge_rows_Nil [simp]: "merge_rows [] t = t"
  by (simp add: merge_rows_def)

lemma merge_rows_Cons [simp]: "merge_rows (r # rs) t = merge_rows rs (merge_row r t)"
  by (simp add: merge_rows_def)

lemma merge_row_wf [intro]: "tbl_wf row_pk t \<Longrightarrow> tbl_wf row_pk (merge_row r t)"
  by (auto simp: merge_row_def split: option.splits)

lemma merge_rows_wf [intro]: "tbl_wf row_pk t \<Longrightarrow> tbl_wf row_pk (merge_rows rs t)"
  unfolding merge_rows_def by (induction rs arbitrary: t) auto

lemma select_merge_row:
  "tbl_select row_pk k (merge_row r t) =
     (if k = row_pk r \<and> (\<forall>c. tbl_select row_pk k t = Some c \<longrightarrow> newer r c) then Some r
      else tbl_select row_pk k t)"
  by (auto simp: merge_row_def table_simps row_pk_def split: option.splits)

interpretation rows_lww: lww_table row_pk newer "tbl_select row_pk" merge_row "tbl_wf row_pk"
  rewrites "lww_table.merge_all merge_row = merge_rows"
proof -
  show l: "lww_table row_pk newer (tbl_select row_pk) merge_row (tbl_wf row_pk)"
  proof
    fix a b c :: row
    show "\<not> newer a a" by (simp add: newer_iff)
    show "newer a b \<Longrightarrow> newer b c \<Longrightarrow> newer a c" by (auto simp: newer_iff)
    show "newer a c \<Longrightarrow> newer a b \<or> newer b c" by (auto simp: newer_iff)
  qed (auto simp: select_merge_row dest: tbl_select_Some)
  show "lww_table.merge_all merge_row = merge_rows"
    by (intro ext) (simp add: lww_table.merge_all_def [OF l] merge_rows_def)
qed

section \<open>The operations refine the specification\<close>

lemma newer_stub [simp]:
  "newer r \<lparr>r_kind = k, r_key = key, r_owner = r_owner c, r_hlc = r_hlc c, r_tombstone = b, r_payload = p\<rparr>
     = newer r c"
  by (simp add: newer_iff)

lemma tryE_Inr:
  "tryE m h f s = (Inr y, t) \<longleftrightarrow>
     (\<exists>e s'. m s = (Inl e, s') \<and> h e s' = (Inr y, t)) \<or> (\<exists>x s'. m s = (Inr x, s') \<and> f x s' = (Inr y, t))"
  by (auto simp: tryE_def split: prod.splits sum.splits)

lemma tryE_healthy [db_simps]:
  "m s = (Inr x, s') \<Longrightarrow> tryE m h f s = f x s'" "m s = (Inl e, s') \<Longrightarrow> tryE m h f s = h e s'"
  by (simp_all add: tryE_def)

lemma apply_one_Inr:
  "apply_one r s = (Inr u, s') \<Longrightarrow> \<exists>fs. s' = s\<lparr>st_rows := merge_row r (st_rows s), st_faults := fs\<rparr>"
  by (auto simp: apply_one_def Let_def tryE_Inr throw_def ret_def merge_row_def split: if_splits
      dest!: query_row_ErrNoRows query_row_Inr exec_Inr intro: exI [of _ "st_faults s'"])

lemma apply_one_healthy [db_simps]:
  "healthy s \<Longrightarrow> apply_one r s = (Inr (), s\<lparr>st_rows := merge_row r (st_rows s)\<rparr>)"
  by (auto simp: apply_one_def db_simps Let_def merge_row_def split: option.splits)

lemma apply_rows_Inr:
  "apply_rows rs m s = (Inr m', s') \<Longrightarrow>
     m' = fold bump_max rs m \<and> (\<exists>fs. s' = s\<lparr>st_rows := merge_rows rs (st_rows s), st_faults := fs\<rparr>)"
proof (induction rs arbitrary: m s)
  case Nil
  then show ?case by (auto simp: ret_def intro: exI [of _ "st_faults s"])
next
  case (Cons r rs)
  then show ?case by (auto simp: bindE_Inr dest!: apply_one_Inr Cons.IH)
qed

lemma apply_rows_healthy [db_simps]:
  "healthy s \<Longrightarrow> apply_rows rs m s = (Inr (fold bump_max rs m), s\<lparr>st_rows := merge_rows rs (st_rows s)\<rparr>)"
  by (induction rs arbitrary: m s) (auto simp: db_simps)

definition raise_one ::
  "string \<Rightarrow> kind \<Rightarrow> hlc \<Rightarrow> (string \<times> kind \<rightharpoonup> hlc) \<Rightarrow> (string \<times> kind \<rightharpoonup> hlc)" where
  "raise_one peer kind h w =
     w((peer, kind) \<mapsto> (case w (peer, kind) of None \<Rightarrow> h | Some cur \<Rightarrow> max cur h))"

lemma advance_one_Inr:
  "advance_one peer k h s = (Inr u, s') \<Longrightarrow>
     \<exists>fs. s' = s\<lparr>st_watermarks := raise_one peer k h (st_watermarks s), st_faults := fs\<rparr>"
  by (auto simp: advance_one_def Let_def tryE_Inr throw_def ret_def raise_one_def max_def fun_upd_idem
      split: if_splits dest!: query_row_ErrNoRows query_row_Inr exec_Inr intro: exI [of _ "st_faults s'"])

lemma advance_one_healthy [db_simps]:
  "healthy s \<Longrightarrow> advance_one peer k h s =
     (Inr (), s\<lparr>st_watermarks := raise_one peer k h (st_watermarks s)\<rparr>)"
  by (auto simp: advance_one_def db_simps Let_def raise_one_def max_def fun_upd_idem split: option.splits)

lemma raise_watermarks_Nil [simp]: "raise_watermarks peer [] w = w"
  by (auto simp: raise_watermarks_def)

lemma raise_watermarks_Cons:
  "k \<notin> fst ` set m \<Longrightarrow> raise_watermarks peer m (raise_one peer k h w) = raise_watermarks peer ((k, h) # m) w"
  by (auto simp: raise_watermarks_def raise_one_def fun_eq_iff gm_get_def split: option.splits
      dest!: map_of_SomeD intro: rev_image_eqI)

lemma advance_watermarks_Inr:
  "advance_watermarks peer m s = (Inr u, s') \<Longrightarrow> distinct (map fst m) \<Longrightarrow>
     \<exists>fs. s' = s\<lparr>st_watermarks := raise_watermarks peer m (st_watermarks s), st_faults := fs\<rparr>"
proof (induction m arbitrary: s)
  case Nil
  then show ?case by (auto simp: ret_def intro: exI [of _ "st_faults s"])
next
  case (Cons e m)
  obtain k h where e: "e = (k, h)" by (cases e)
  from Cons.prems e obtain s1 where "advance_one peer k h s = (Inr (), s1)"
      "advance_watermarks peer m s1 = (Inr u, s')" "distinct (map fst m)" "k \<notin> fst ` set m"
    by (auto simp: bindE_Inr)
  then show ?case
    using Cons.IH [of s1] e by (auto simp: raise_watermarks_Cons dest!: advance_one_Inr)
qed

lemma advance_watermarks_healthy [db_simps]:
  "healthy s \<Longrightarrow> distinct (map fst m) \<Longrightarrow> advance_watermarks peer m s =
     (Inr (), s\<lparr>st_watermarks := raise_watermarks peer m (st_watermarks s)\<rparr>)"
  by (induction m arbitrary: s) (auto simp: db_simps raise_watermarks_Cons)

lemma batch_max_wf: "gm_wf (batch_max rs)"
proof -
  have "gm_wf m \<Longrightarrow> gm_wf (fold bump_max rs m)" for m
    by (induction rs arbitrary: m) (auto simp: bump_max_def)
  then show ?thesis by (simp add: batch_max_def)
qed

lemma batch_max_distinct [simp]: "distinct (map fst (batch_max rs))"
  by (rule gm_wf_distinct) (rule batch_max_wf)

lemma ApplyRemote_Inr:
  assumes "ApplyRemote peer rs s = (Inr u, s')"
  shows "st_rows s' = merge_rows rs (st_rows s) \<and> st_events s' = st_events s \<and>
    st_watermarks s' = raise_watermarks peer (batch_max rs) (st_watermarks s) \<and> st_node_id s' = st_node_id s"
proof (cases "rs = []")
  case True
  then show ?thesis using assms by (simp add: ApplyRemote_def ret_def batch_max_def)
next
  case False
  then show ?thesis
    using assms
    by (auto simp: ApplyRemote_def bindE_Inr same_tables_def batch_max_def [symmetric] split: if_splits
        dest!: with_tx_Inr apply_rows_Inr advance_watermarks_Inr commit_Inr)
qed

lemma ApplyRemote_Inl: "ApplyRemote peer rs s = (Inl e, s') \<Longrightarrow> same_tables s s'"
  by (auto simp: ApplyRemote_def ret_def split: if_splits dest: with_tx_Inl)

lemma ApplyRemote_healthy [db_simps]:
  "healthy s \<Longrightarrow> ApplyRemote peer rs s =
     (Inr (), s\<lparr>st_rows := merge_rows rs (st_rows s),
               st_watermarks := raise_watermarks peer (batch_max rs) (st_watermarks s)\<rparr>)"
  by (auto simp: ApplyRemote_def db_simps with_tx_healthy batch_max_def [symmetric] batch_max_def [of "[]"])

lemma Apply_Inr:
  "Apply r s = (Inr u, s') \<Longrightarrow>
     st_rows s' = merge_row r (st_rows s) \<and> st_events s' = st_events s \<and>
     st_watermarks s' = st_watermarks s \<and> st_node_id s' = st_node_id s"
  by (auto simp: Apply_def Let_def tryE_Inr bindE_Inr throw_def ret_def merge_row_def same_tables_def
      rollback_def split: if_splits
      dest!: with_tx_Inr query_row_ErrNoRows query_row_Inr exec_Inr commit_Inr)

lemma Apply_Inl: "Apply r s = (Inl e, s') \<Longrightarrow> same_tables s s'"
  by (auto simp: Apply_def dest: with_tx_Inl)

lemma Apply_healthy [db_simps]:
  "healthy s \<Longrightarrow> Apply r s = (Inr (), s\<lparr>st_rows := merge_row r (st_rows s)\<rparr>)"
  by (cases "select_row (r_kind r) (r_key r) (st_rows s)")
     (auto simp: Apply_def db_simps with_tx_healthy Let_def merge_row_def)

section \<open>Merging: atomicity, convergence, idempotence, watermarks\<close>

text \<open>
  C5. \<^verbatim>\<open>ApplyRemote\<close> is all or nothing. Whatever database call fails, if it returns an error
  every table is as before (rows, events and watermarks); if it returns nil, the rows are the
  last-writer-wins merge of the whole batch and the watermarks of the peer are raised to the
  batch's largest stamps, with nothing else changed. On a database that does not fail it
  returns nil.
\<close>
theorem ApplyRemote_atomic:
  assumes "ApplyRemote peer rs s = (res, s')"
  shows "(case res of
      Inl e \<Rightarrow> same_tables s s'
    | Inr _ \<Rightarrow> st_rows s' = merge_rows rs (st_rows s) \<and>
        st_watermarks s' = raise_watermarks peer (batch_max rs) (st_watermarks s) \<and>
        st_events s' = st_events s) \<and> (healthy s \<longrightarrow> res = Inr ())"
  using assms ApplyRemote_Inr [of peer rs s] ApplyRemote_Inl [of peer rs s]
  by (auto simp: ApplyRemote_healthy split: sum.splits)

definition ex_row :: "string \<Rightarrow> string \<Rightarrow> int \<Rightarrow> row" where
  "ex_row key owner ts = \<lparr>r_kind = KindRunner, r_key = key, r_owner = owner, r_hlc = HLC ts 0,
     r_tombstone = False, r_payload = owner\<rparr>"

lemma ex_row_sel [simp]:
  "r_kind (ex_row k w t) = KindRunner" "r_key (ex_row k w t) = k" "r_owner (ex_row k w t) = w"
  "r_hlc (ex_row k w t) = HLC t 0" "r_tombstone (ex_row k w t) = False" "r_payload (ex_row k w t) = w"
  "row_pk (ex_row k w t) = (KindRunner, k)"
  by (simp_all add: ex_row_def row_pk_def)

lemma ex_row_inj [simp]: "ex_row k w t = ex_row k' w' t' \<longleftrightarrow> k = k' \<and> w = w' \<and> t = t'"
  by (auto simp: ex_row_def)

theorem ApplyRemote_atomic_witness:
  "(\<exists>s'. ApplyRemote ''p'' [ex_row ''a'' ''x'' 5]
      (empty_disk\<lparr>st_faults := [None, None, None, None, None, Some ''disk full'']\<rparr>)
        = (Inl (DbErr ''disk full''), s') \<and> same_tables empty_disk s') \<and>
   (\<exists>s'. ApplyRemote ''p'' [ex_row ''a'' ''x'' 5] empty_disk = (Inr (), s') \<and>
      st_rows s' = [ex_row ''a'' ''x'' 5] \<and> st_watermarks s' (''p'', KindRunner) = Some (HLC 5 0))"
proof -
  let ?s = "empty_disk\<lparr>st_faults := [None, None, None, None, None, Some ''disk full'']\<rparr>"
  have "fst (ApplyRemote ''p'' [ex_row ''a'' ''x'' 5] ?s) = Inl (DbErr ''disk full'')"
    by (simp add: ApplyRemote_def with_tx_def apply_one_def advance_one_def bindE_def tryE_def
        query_row_def exec_def db_call_def ret_def Let_def bump_max_def commit_def empty_disk_def)
  then have f: "\<exists>s'. ApplyRemote ''p'' [ex_row ''a'' ''x'' 5] ?s = (Inl (DbErr ''disk full''), s')"
    by (metis surjective_pairing)
  then have "\<exists>s'. ApplyRemote ''p'' [ex_row ''a'' ''x'' 5] ?s = (Inl (DbErr ''disk full''), s')
      \<and> same_tables empty_disk s'"
    using ApplyRemote_atomic [of "''p''" "[ex_row ''a'' ''x'' 5]" ?s] by fastforce
  moreover have "healthy empty_disk"
    by (simp add: healthy_def empty_disk_def)
  then have "\<exists>s'. ApplyRemote ''p'' [ex_row ''a'' ''x'' 5] empty_disk = (Inr (), s') \<and>
      st_rows s' = [ex_row ''a'' ''x'' 5] \<and> st_watermarks s' (''p'', KindRunner) = Some (HLC 5 0)"
    by (simp add: ApplyRemote_healthy merge_row_def batch_max_def bump_max_def raise_watermarks_def
        empty_disk_def hlc_zero_def gm_get_def max_def)
  ultimately show ?thesis by blast
qed

text \<open>
  Rows carry distinct stamps when two versions of one key with equal stamp and equal owner are
  the same version: the premise under which last-writer-wins is unambiguous.
\<close>

definition stamp_unique :: "row set \<Rightarrow> bool" where
  "stamp_unique S \<longleftrightarrow> (\<forall>a \<in> S. \<forall>b \<in> S.
     row_pk a = row_pk b \<and> r_hlc a = r_hlc b \<and> r_owner a = r_owner b \<longrightarrow> a = b)"

lemma stamp_unique_unambiguous:
  assumes "stamp_unique S" "T \<subseteq> S"
  shows "rows_lww.unambiguous T"
  unfolding rows_lww.unambiguous_def
proof (intro ballI impI)
  fix a b assume "a \<in> T" "b \<in> T" "row_pk a = row_pk b"
  then show "newer a b \<or> newer b a \<or> a = b"
    using assms by (auto simp: stamp_unique_def newer_iff subset_iff not_less_iff_gr_or_eq)
qed

lemma merge_rows_converge:
  assumes wf: "tbl_wf row_pk t" "tbl_wf row_pk u"
    and seen: "set rs \<union> set t = set rs' \<union> set u"
    and uniq: "stamp_unique (set rs \<union> set t)"
  shows "set (merge_rows rs t) = set (merge_rows rs' u)"
proof (rule tbl_set_eqI [of row_pk])
  fix k
  have c: "rows_lww.candidates k qs v = {r \<in> set qs \<union> set v. row_pk r = k}" if "tbl_wf row_pk v" for qs v
    using that by (auto simp: rows_lww.candidates_def tbl_select_iff)
  show "tbl_select row_pk k (merge_rows rs t) = tbl_select row_pk k (merge_rows rs' u)"
    using wf seen by (intro rows_lww.converge stamp_unique_unambiguous [OF uniq]) (auto simp: c)
qed (auto simp: wf)



lemma stamp_unique_mono: "stamp_unique S \<Longrightarrow> T \<subseteq> S \<Longrightarrow> stamp_unique T"
  by (auto simp: stamp_unique_def)

lemma batch_max_get:
  "gm_get (fold bump_max rs m) k =
     (if \<exists>r \<in> set rs. r_kind r = k
      then Some (fold (\<lambda>r h. max h (r_hlc r)) (filter (\<lambda>r. r_kind r = k) rs)
              (case gm_get m k of None \<Rightarrow> hlc_zero | Some h \<Rightarrow> h))
      else gm_get m k)"
  by (induction rs arbitrary: m) (auto simp: bump_max_def)

lemma fold_max_ge:
  fixes f :: "'a \<Rightarrow> 'b::linorder"
  shows "h \<le> fold (\<lambda>r h. max h (f r)) rs h"
proof (induction rs arbitrary: h)
  case (Cons r rs)
  have "h \<le> max h (f r)" by simp
  also have "\<dots> \<le> fold (\<lambda>r h. max h (f r)) rs (max h (f r))" by (rule Cons.IH)
  finally show ?case by simp
qed simp

lemma fold_max_upper:
  fixes f :: "'a \<Rightarrow> 'b::linorder"
  shows "r \<in> set rs \<Longrightarrow> f r \<le> fold (\<lambda>r h. max h (f r)) rs h"
proof (induction rs arbitrary: h)
  case (Cons x rs)
  then show ?case
    using fold_max_ge [of "max h (f x)" f rs] by (auto intro: order_trans)
qed simp

lemma fold_max_in:
  fixes f :: "'a \<Rightarrow> 'b::linorder"
  shows "fold (\<lambda>r h. max h (f r)) rs h \<in> insert h (f ` set rs)"
proof (induction rs arbitrary: h)
  case (Cons x rs)
  then show ?case using Cons.IH [of "max h (f x)"] by (auto simp: max_def split: if_splits)
qed simp

lemma batch_max_covers:
  assumes "r \<in> set rs"
  shows "\<exists>h. gm_get (batch_max rs) (r_kind r) = Some h \<and> r_hlc r \<le> h"
  using assms fold_max_upper [of r "filter (\<lambda>x. r_kind x = r_kind r) rs" r_hlc]
  by (auto simp: batch_max_def batch_max_get)

lemma batch_max_attained:
  assumes "gm_get (batch_max rs) k = Some h"
  shows "h = hlc_zero \<or> (\<exists>r \<in> set rs. r_kind r = k \<and> h = r_hlc r)"
  using assms fold_max_in [of r_hlc "filter (\<lambda>r. r_kind r = k) rs" hlc_zero]
  by (auto simp: batch_max_def batch_max_get split: if_splits)

definition wm_of :: "store \<Rightarrow> string \<Rightarrow> kind \<Rightarrow> hlc" where
  "wm_of s peer k = (case st_watermarks s (peer, k) of None \<Rightarrow> hlc_zero | Some h \<Rightarrow> h)"

text \<open>
  C19. Watermarks after \<^verbatim>\<open>ApplyRemote\<close>. For the peer of the batch, the watermark of every kind
  in it covers every row of the batch, applied or not; it never goes down; it is the old
  watermark, zero, or the stamp of a row of that kind in the batch, so it never runs ahead of
  what was received. Watermarks of other peers do not move.
\<close>
theorem ApplyRemote_watermarks:
  assumes "ApplyRemote peer rs s = (Inr (), s')"
  shows "(\<forall>r \<in> set rs. r_hlc r \<le> wm_of s' peer (r_kind r)) \<and>
    (\<forall>k h. st_watermarks s (peer, k) = Some h \<longrightarrow> h \<le> wm_of s' peer k) \<and>
    (\<forall>k. wm_of s' peer k \<in> {wm_of s peer k, hlc_zero} \<union> r_hlc ` {r \<in> set rs. r_kind r = k}) \<and>
    (\<forall>q k. q \<noteq> peer \<longrightarrow> st_watermarks s' (q, k) = st_watermarks s (q, k))"
proof -
  have w: "st_watermarks s' = raise_watermarks peer (batch_max rs) (st_watermarks s)"
    using ApplyRemote_Inr [OF assms] by simp
  have "r_hlc r \<le> wm_of s' peer (r_kind r)" if "r \<in> set rs" for r
    using batch_max_covers [OF that] w
    by (auto simp: wm_of_def raise_watermarks_def le_max_iff_disj split: option.splits)
  moreover have "wm_of s' peer k \<in> {wm_of s peer k, hlc_zero} \<union> r_hlc ` {r \<in> set rs. r_kind r = k}" for k
    using batch_max_attained [of rs k] w
    by (auto simp: wm_of_def raise_watermarks_def max_def split: option.splits)
  ultimately show ?thesis
    using w by (auto simp: wm_of_def raise_watermarks_def split: option.splits)
qed

theorem ApplyRemote_watermarks_witness:
  "\<exists>s'. ApplyRemote ''p'' [ex_row ''a'' ''x'' 9, ex_row ''a'' ''x'' 4] empty_disk = (Inr (), s') \<and>
     wm_of s' ''p'' KindRunner = HLC 9 0 \<and> wm_of s' ''q'' KindRunner = hlc_zero"
proof -
  let ?rs = "[ex_row ''a'' ''x'' 9, ex_row ''a'' ''x'' 4]"
  have "healthy empty_disk"
    by (simp add: healthy_def empty_disk_def)
  then obtain s' where s': "ApplyRemote ''p'' ?rs empty_disk = (Inr (), s')"
    by (simp add: ApplyRemote_healthy)
  note wm = ApplyRemote_watermarks [OF s']
  then have "HLC 9 0 \<le> wm_of s' ''p'' KindRunner"
    "wm_of s' ''p'' KindRunner \<in> {hlc_zero, HLC 9 0, HLC 4 0}"
    by (auto simp: wm_of_def empty_disk_def)
  then have "wm_of s' ''p'' KindRunner = HLC 9 0"
    by (auto simp: hlc_zero_def)
  moreover have "wm_of s' ''q'' KindRunner = hlc_zero"
    using wm by (simp add: wm_of_def empty_disk_def)
  ultimately show ?thesis using s' by blast
qed

text \<open>
  Replay is harmless: applying a batch that was already applied, from any peer, leaves
  the contents of the rows table as it is; and no row that a store held is ever replaced by
  one it is newer than.
\<close>
theorem ApplyRemote_idempotent:
  assumes "store_wf s"
    and "ApplyRemote p rs s = (Inr (), s1)" "ApplyRemote q rs s1 = (Inr (), s2)"
  shows "set (st_rows s2) = set (st_rows s1) \<and>
    (\<forall>k c. tbl_select row_pk k (st_rows s) = Some c \<longrightarrow>
       (\<exists>r. tbl_select row_pk k (st_rows s1) = Some r \<and> \<not> newer c r))"
proof -
  have r: "st_rows s1 = merge_rows rs (st_rows s)" "st_rows s2 = merge_rows rs (st_rows s1)"
    using ApplyRemote_Inr [OF assms(2)] ApplyRemote_Inr [OF assms(3)] by simp_all
  have wf: "tbl_wf row_pk (st_rows s)"
    using assms(1) by (simp add: store_wf_def)
  have "set (st_rows s2) = set (st_rows s1)"
    using wf r by (intro tbl_set_eqI [of row_pk]) (auto simp: rows_lww.merge_all_idem)
  then show ?thesis
    using rows_lww.merge_all_keeps [OF wf] r by simp
qed

theorem ApplyRemote_idempotent_witness:
  "\<exists>s1 s2. ApplyRemote ''p'' [ex_row ''a'' ''x'' 3, ex_row ''a'' ''x'' 2] empty_disk = (Inr (), s1) \<and>
     ApplyRemote ''q'' [ex_row ''a'' ''x'' 3, ex_row ''a'' ''x'' 2] s1 = (Inr (), s2) \<and>
     st_rows s1 = [ex_row ''a'' ''x'' 3] \<and> set (st_rows s2) = {ex_row ''a'' ''x'' 3}"
proof -
  let ?rs = "[ex_row ''a'' ''x'' 3, ex_row ''a'' ''x'' 2]"
  have h: "healthy empty_disk" "store_wf empty_disk"
    by (simp_all add: healthy_def empty_disk_def store_wf_def)
  obtain s1 where s1: "ApplyRemote ''p'' ?rs empty_disk = (Inr (), s1)" "healthy s1"
    using h(1) by (simp add: ApplyRemote_healthy)
  obtain s2 where s2: "ApplyRemote ''q'' ?rs s1 = (Inr (), s2)"
    using s1(2) by (simp add: ApplyRemote_healthy)
  have "st_rows s1 = [ex_row ''a'' ''x'' 3]"
    using ApplyRemote_Inr [OF s1(1)] by (simp add: merge_row_def newer_iff empty_disk_def)
  then show ?thesis
    using ApplyRemote_idempotent [OF h(2) s1(1) s2] s1 s2 by auto
qed

section \<open>Local writes and reads\<close>

lemma store_get_healthy [db_simps]:
  "healthy s \<Longrightarrow> store_get k key s = (Inr (select_row k key (st_rows s)), s)"
  by (cases "select_row k key (st_rows s)") (auto simp: store_get_def db_simps)

lemma Get_healthy [db_simps]:
  "healthy s \<Longrightarrow> Get k key s = (Inr (select_row k key (st_rows s)), s)"
  by (simp add: Get_def db_simps)

lemma upsert_healthy [db_simps]:
  "healthy s \<Longrightarrow> upsert r s = (Inr (), s\<lparr>st_rows := upsert_row r (st_rows s)\<rparr>)"
  by (simp add: upsert_def db_simps)

lemma Put_healthy [db_simps]:
  "healthy s \<Longrightarrow> Put r s = (Inr (), s\<lparr>st_rows := upsert_row r (st_rows s)\<rparr>)"
  by (simp add: Put_def db_simps)

lemma ChangesSince_healthy [db_simps]:
  "healthy s \<Longrightarrow> ChangesSince k wm s =
     (Inr (sort_key r_hlc (filter (\<lambda>r. r_kind r = k \<and> After (r_hlc r) wm) (st_rows s))), s)"
  by (auto simp: ChangesSince_def db_simps less_hlc_def intro!: arg_cong [where f = "sort_key r_hlc"] filter_cong)

lemma Watermark_healthy [db_simps]: "healthy s \<Longrightarrow> Watermark peer k s = (Inr (wm_of s peer k), s)"
  by (cases "st_watermarks s (peer, k)") (auto simp: Watermark_def db_simps wm_of_def)

lemma SetWatermark_healthy [db_simps]:
  "healthy s \<Longrightarrow> SetWatermark peer k h s =
     (Inr (), if wm_of s peer k < h then s\<lparr>st_watermarks := (st_watermarks s)((peer, k) \<mapsto> h)\<rparr> else s)"
  by (auto simp: SetWatermark_def db_simps)

definition deleted_row :: "kind \<Rightarrow> string \<Rightarrow> string \<Rightarrow> hlc \<Rightarrow> row list \<Rightarrow> row" where
  "deleted_row kind key owner hlc t =
     \<lparr>r_kind = kind, r_key = key, r_owner = owner, r_hlc = hlc, r_tombstone = True,
      r_payload = (case select_row kind key t of None \<Rightarrow> [] | Some c \<Rightarrow> r_payload c)\<rparr>"

lemma row_pk_deleted [simp]: "row_pk (deleted_row k key w h t) = (k, key)"
  by (simp add: deleted_row_def row_pk_def)

lemma Delete_healthy [db_simps]:
  "healthy s \<Longrightarrow> Delete k key owner h s =
     (Inr (), s\<lparr>st_rows := upsert_row (deleted_row k key owner h (st_rows s)) (st_rows s)\<rparr>)"
  by (simp add: Delete_def db_simps Let_def deleted_row_def)

lemma Delete_Inr:
  "Delete k key owner h s = (Inr u, s') \<Longrightarrow>
     \<exists>fs. s' = s\<lparr>st_rows := upsert_row (deleted_row k key owner h (st_rows s)) (st_rows s), st_faults := fs\<rparr>"
  by (auto simp: Delete_def store_get_def upsert_def bindE_Inr tryE_Inr throw_def ret_def Let_def
      deleted_row_def split: if_splits dest!: query_row_Inr query_row_ErrNoRows exec_Inr
      intro: exI [of _ "st_faults s'"])

lemma store_get_same: "store_get k key s = (r, s') \<Longrightarrow> same_tables s s'"
  by (auto simp: store_get_def tryE_def throw_def ret_def split: prod.splits sum.splits if_splits
      dest!: query_row_same)

lemma Delete_Inl: "Delete k key owner h s = (Inl e, s') \<Longrightarrow> same_tables s s'"
  by (auto simp: Delete_def upsert_def bindE_Inl Let_def dest!: store_get_same exec_Inl
      intro: same_tables_trans)

text \<open>
  Writing and reading back. After \<^verbatim>\<open>Put\<close> the row is what \<^verbatim>\<open>Get\<close> returns for its key,
  whatever was stored before and however old its stamp is. After \<^verbatim>\<open>Delete\<close>, \<^verbatim>\<open>Get\<close> returns a
  tombstone with the given owner and stamp that keeps the payload of the deleted version.
  Both leave every other key alone.
\<close>
theorem Put_Delete_Get:
  assumes "healthy s"
  shows "(\<exists>s'. Put r s = (Inr (), s') \<and>
      (\<forall>k key. Get k key s' = (Inr (if (k, key) = row_pk r then Some r
                                   else select_row k key (st_rows s)), s'))) \<and>
    (\<exists>s'. Delete kind name owner h s = (Inr (), s') \<and>
      (\<forall>k key. Get k key s' = (Inr (if (k, key) = (kind, name)
         then Some \<lparr>r_kind = kind, r_key = name, r_owner = owner, r_hlc = h, r_tombstone = True,
                    r_payload = (case select_row kind name (st_rows s) of None \<Rightarrow> [] | Some c \<Rightarrow> r_payload c)\<rparr>
         else select_row k key (st_rows s)), s')))"
  using assms by (auto simp: db_simps table_simps deleted_row_def [symmetric])

theorem Put_Delete_Get_witness:
  "\<exists>s s'. Put (ex_row ''a'' ''x'' 3) empty_disk = (Inr (), s) \<and>
     Delete KindRunner ''a'' ''api/n'' (HLC 4 0) s = (Inr (), s') \<and>
     fst (Get KindRunner ''a'' s') = Inr (Some \<lparr>r_kind = KindRunner, r_key = ''a'', r_owner = ''api/n'',
       r_hlc = HLC 4 0, r_tombstone = True, r_payload = ''x''\<rparr>)"
proof -
  have h: "healthy empty_disk" by (simp add: healthy_def empty_disk_def)
  obtain s where s: "Put (ex_row ''a'' ''x'' 3) empty_disk = (Inr (), s)"
      "Get KindRunner ''a'' s = (Inr (Some (ex_row ''a'' ''x'' 3)), s)"
    using conjunct1 [OF Put_Delete_Get [OF h, of "ex_row ''a'' ''x'' 3"]] by auto
  then have hs: "healthy s" "select_row KindRunner ''a'' (st_rows s) = Some (ex_row ''a'' ''x'' 3)"
    using h by (auto simp: db_simps table_simps)
  obtain s' where s': "Delete KindRunner ''a'' ''api/n'' (HLC 4 0) s = (Inr (), s')"
      "fst (Get KindRunner ''a'' s') = Inr (Some \<lparr>r_kind = KindRunner, r_key = ''a'', r_owner = ''api/n'',
       r_hlc = HLC 4 0, r_tombstone = True, r_payload = ''x''\<rparr>)"
    using conjunct2 [OF Put_Delete_Get [OF hs(1)], of KindRunner "''a''" "''api/n''" "HLC 4 0"] hs(2) by auto
  show ?thesis using s(1) s' by blast
qed

text \<open>
  \<^verbatim>\<open>ChangesSince\<close> returns exactly the rows of the kind whose stamp is after the watermark,
  tombstones included, each once, in stamp order; it changes nothing.
\<close>
theorem ChangesSince_exact:
  assumes "ChangesSince kind wm s = (Inr out, s')"
  shows "set out = {r \<in> set (st_rows s). r_kind r = kind \<and> After (r_hlc r) wm} \<and>
    sorted (map r_hlc out) \<and> (store_wf s \<longrightarrow> distinct out) \<and> same_tables s s'"
proof -
  let ?P = "\<lambda>r. r_kind r = kind \<and>
          (TS (r_hlc r) > TS wm \<or> TS (r_hlc r) = TS wm \<and> Seq (r_hlc r) > Seq wm)"
  have out: "out = sort_key r_hlc (filter ?P (st_rows s))" "same_tables s s'"
    using assms by (auto simp: ChangesSince_def dest!: query_rows_Inr)
  have "store_wf s \<longrightarrow> distinct (st_rows s)"
    by (auto simp: store_wf_def tbl_wf_def distinct_map)
  then show ?thesis
    using out by (auto simp: less_hlc_def)
qed

theorem ChangesSince_exact_witness:
  "\<exists>s'. ChangesSince KindRunner (HLC 3 1)
      (empty_disk\<lparr>st_rows := [ex_row ''c'' ''x'' 9, ex_row ''a'' ''x'' 3, ex_row ''b'' ''x'' 4]\<rparr>)
     = (Inr [ex_row ''b'' ''x'' 4, ex_row ''c'' ''x'' 9], s') \<and>
     sorted (map r_hlc [ex_row ''b'' ''x'' 4, ex_row ''c'' ''x'' 9])"
proof -
  let ?s = "empty_disk\<lparr>st_rows := [ex_row ''c'' ''x'' 9, ex_row ''a'' ''x'' 3, ex_row ''b'' ''x'' 4]\<rparr>"
  have c: "ChangesSince KindRunner (HLC 3 1) ?s = (Inr [ex_row ''b'' ''x'' 4, ex_row ''c'' ''x'' 9], ?s)"
    by (simp add: ChangesSince_healthy healthy_def empty_disk_def)
  then show ?thesis
    using ChangesSince_exact [OF c] by blast
qed

section \<open>Deletion by node\<close>

definition like_literal :: "string \<Rightarrow> bool" where
  "like_literal p \<longleftrightarrow> CHR ''%'' \<notin> set p \<and> CHR ''_'' \<notin> set p"

declare sql_like.simps [simp del]

lemma sql_like_Nil [simp]: "sql_like [] s = (s = [])"
  by (simp add: sql_like.simps)

lemma sql_like_percent: "sql_like ''%'' s"
proof (induction s rule: measure_induct_rule [of length])
  case (less s)
  show ?case
  proof (cases s)
    case (Cons c cs)
    have "length (utf8_rest c cs) < length s"
      using Cons by (simp add: le_imp_less_Suc)
    then have "sql_like ''%'' (utf8_rest c cs)" by (rule less.IH)
    then show ?thesis using Cons by (simp add: sql_like.simps(2))
  qed (simp add: sql_like.simps(2))
qed

lemma sql_like_literal_prefix:
  "like_literal p \<Longrightarrow>
   sql_like (p @ ''%'') s \<longleftrightarrow> (length p \<le> length s \<and> map ascii_lower (take (length p) s) = map ascii_lower p)"
proof (induction p arbitrary: s)
  case Nil
  then show ?case by (simp add: sql_like_percent)
next
  case (Cons c p)
  then show ?case
    by (cases s) (auto simp: like_literal_def sql_like.simps(2) [of c "p @ ''%''"])
qed

lemma ascii_lower_slash [simp]: "ascii_lower CHR ''/'' = CHR ''/''"
  by (simp add: ascii_lower_def less_eq_char_def)

lemma DeleteByNode_Inr:
  "DeleteByNode n h s = (Inr u, s') \<Longrightarrow> \<exists>fs. s' = s\<lparr>st_rows := map (\<lambda>r.
      if sql_like (n @ ''/%'') (r_owner r) \<and> \<not> r_tombstone r then r\<lparr>r_tombstone := True, r_hlc := h\<rparr> else r)
      (st_rows s), st_faults := fs\<rparr>"
  by (auto simp: DeleteByNode_def Let_def dest!: exec_Inr intro: exI [of _ "st_faults s'"])

text \<open>
  C36. \<^verbatim>\<open>DeleteByNode\<close>, for a node id without the characters \<^verbatim>\<open>%\<close> and \<^verbatim>\<open>_\<close>, turns into tombstones
  with the given stamp exactly the live rows whose owner starts with the id and a slash, up to
  the case of ASCII letters; their payload and owner stay, and every other row stays as it is.
\<close>
theorem DeleteByNode_exact:
  assumes "like_literal n" "DeleteByNode n h s = (Inr (), s')"
  shows "st_rows s' = map (\<lambda>r.
      if length n < length (r_owner r) \<and> r_owner r ! length n = CHR ''/'' \<and>
         map ascii_lower (take (length n) (r_owner r)) = map ascii_lower n \<and> \<not> r_tombstone r
      then r\<lparr>r_tombstone := True, r_hlc := h\<rparr> else r) (st_rows s)"
proof -
  have lit: "like_literal (n @ ''/'')"
    using assms(1) by (simp add: like_literal_def)
  have lower_slash: "ascii_lower c = CHR ''/'' \<longleftrightarrow> c = CHR ''/''" for c
    by (auto simp: ascii_lower_def less_eq_char_def char_of_eq_iff take_bit_eq_mod)
  have like: "sql_like (n @ ''/%'') w \<longleftrightarrow> length n < length w \<and> w ! length n = CHR ''/'' \<and>
      map ascii_lower (take (length n) w) = map ascii_lower n" for w
    using sql_like_literal_prefix [OF lit, of w]
    by (auto simp: take_Suc_conv_app_nth lower_slash Suc_le_eq)
  obtain fs where "s' = s\<lparr>st_rows := map (\<lambda>r. if sql_like (n @ ''/%'') (r_owner r) \<and> \<not> r_tombstone r
      then r\<lparr>r_tombstone := True, r_hlc := h\<rparr> else r) (st_rows s), st_faults := fs\<rparr>"
    using DeleteByNode_Inr [OF assms(2)] by blast
  then show ?thesis by (simp only: like conj_assoc) simp
qed

theorem DeleteByNode_exact_witness:
  "\<exists>s'. DeleteByNode ''n1'' (HLC 9 0)
      (empty_disk\<lparr>st_rows := [ex_row ''a'' ''n1/ff'' 3, ex_row ''b'' ''n11/ff'' 3]\<rparr>) = (Inr (), s') \<and>
     st_rows s' = [(ex_row ''a'' ''n1/ff'' 3)\<lparr>r_tombstone := True, r_hlc := HLC 9 0\<rparr>, ex_row ''b'' ''n11/ff'' 3]"
proof -
  let ?s = "empty_disk\<lparr>st_rows := [ex_row ''a'' ''n1/ff'' 3, ex_row ''b'' ''n11/ff'' 3]\<rparr>"
  obtain s' where s': "DeleteByNode ''n1'' (HLC 9 0) ?s = (Inr (), s')"
    by (simp add: DeleteByNode_def Let_def db_simps healthy_def empty_disk_def)
  have "like_literal ''n1''" by (simp add: like_literal_def)
  then have "st_rows s' = [(ex_row ''a'' ''n1/ff'' 3)\<lparr>r_tombstone := True, r_hlc := HLC 9 0\<rparr>, ex_row ''b'' ''n11/ff'' 3]"
    using DeleteByNode_exact [OF _ s'] by simp
  then show ?thesis using s' by blast
qed

text \<open>
  The premise on the id matters: in the pattern given to \<^verbatim>\<open>LIKE\<close> an underscore in the id is a
  wildcard. When a node whose id is \<open>a\<close>, an underscore and \<open>b\<close> leaves, the live rows of every
  node whose id has any other single character in that place become tombstones as well.
\<close>
theorem DeleteByNode_underscore_wildcard:
  assumes "like_literal a" "like_literal b" "(of_char c :: nat) < 128"
    and "DeleteByNode (a @ ''_'' @ b) h s = (Inr (), s')"
    and "r \<in> set (st_rows s)" "\<not> r_tombstone r" "r_owner r = a @ [c] @ b @ ''/'' @ epoch"
  shows "r\<lparr>r_tombstone := True, r_hlc := h\<rparr> \<in> set (st_rows s')"
proof -
  have pre: "like_literal p \<Longrightarrow> sql_like q t \<Longrightarrow> sql_like (p @ q) (p @ t)" for p q t
    by (induction p) (auto simp: like_literal_def sql_like.simps(2))
  have "like_literal (b @ ''/'')"
    using assms(2) by (simp add: like_literal_def)
  then have "sql_like (b @ ''/%'') (b @ ''/'' @ epoch)"
    using pre [of "b @ ''/''" "''%''" epoch] by (simp add: sql_like_percent)
  then have "sql_like (''_'' @ b @ ''/%'') (c # b @ ''/'' @ epoch)"
    using assms(3) by (simp add: sql_like.simps(2) utf8_rest_def)
  then have "sql_like ((a @ ''_'' @ b) @ ''/%'') (r_owner r)"
    using pre [OF assms(1), of "''_'' @ b @ ''/%''" "c # b @ ''/'' @ epoch"] assms(7) by simp
  then show ?thesis
    using DeleteByNode_Inr [OF assms(4)] assms(5,6) by (auto simp: image_iff)
qed

theorem DeleteByNode_underscore_wildcard_witness:
  "\<exists>s'. DeleteByNode ''node_1'' (HLC 9 0) (empty_disk\<lparr>st_rows := [ex_row ''node-1'' ''node-1/ff'' 3]\<rparr>)
      = (Inr (), s') \<and>
     (ex_row ''node-1'' ''node-1/ff'' 3)\<lparr>r_tombstone := True, r_hlc := HLC 9 0\<rparr> \<in> set (st_rows s')"
proof -
  let ?s = "empty_disk\<lparr>st_rows := [ex_row ''node-1'' ''node-1/ff'' 3]\<rparr>"
  obtain s' where s': "DeleteByNode (''node'' @ ''_'' @ ''1'') (HLC 9 0) ?s = (Inr (), s')"
    by (simp add: DeleteByNode_def Let_def db_simps healthy_def empty_disk_def)
  have "(ex_row ''node-1'' ''node-1/ff'' 3)\<lparr>r_tombstone := True, r_hlc := HLC 9 0\<rparr> \<in> set (st_rows s')"
    by (rule DeleteByNode_underscore_wildcard [OF _ _ _ s', of "CHR ''-''" _ "''ff''"])
       (auto simp: like_literal_def)
  then show ?thesis using s' by auto
qed

section \<open>Tombstone collection\<close>

lemma gc_drops_iff: "gc_drops m r \<longleftrightarrow> r_tombstone r \<and> r_hlc r < m"
  by (auto simp: gc_drops_def less_hlc_def)

lemma GCTombstones_Inr:
  "GCTombstones m s = (Inr n, s') \<Longrightarrow>
     n = int (length (filter (gc_drops m) (st_rows s))) \<and>
     (\<exists>fs. s' = s\<lparr>st_rows := filter (\<lambda>r. \<not> gc_drops m r) (st_rows s), st_faults := fs\<rparr>)"
  by (auto simp: GCTombstones_def bindE_Inr ret_def dest!: exec_Inr intro: exI [of _ "st_faults s'"])

lemma GCTombstones_Inl: "GCTombstones m s = (Inl e, s') \<Longrightarrow> same_tables s s'"
  by (auto simp: GCTombstones_def bindE_Inl ret_def dest!: exec_Inl)

lemma GCTombstones_healthy [db_simps]:
  "healthy s \<Longrightarrow> GCTombstones m s = (Inr (int (length (filter (gc_drops m) (st_rows s)))),
     s\<lparr>st_rows := filter (\<lambda>r. \<not> gc_drops m r) (st_rows s)\<rparr>)"
  by (simp add: GCTombstones_def db_simps)

text \<open>
  C39. A collected tombstone comes back to life. While a store keeps the tombstone of a key, an
  older live version sent by a peer changes nothing; once \<^verbatim>\<open>GCTombstones\<close> has removed the
  tombstone, the same older version is accepted and the deleted key is live again.
\<close>
theorem gc_resurrects:
  assumes "store_wf s" "d \<in> set (st_rows s)" "r_tombstone d" "After m (r_hlc d)"
    and "row_pk r = row_pk d" "newer d r" "\<not> r_tombstone r"
    and "ApplyRemote p [r] s = (Inr (), s_kept)"
    and "GCTombstones m s = (Inr n, s_gc)" "ApplyRemote p [r] s_gc = (Inr (), s_back)"
  shows "tbl_select row_pk (row_pk r) (st_rows s_kept) = Some d \<and>
    tbl_select row_pk (row_pk r) (st_rows s_back) = Some r"
proof -
  have wf: "tbl_wf row_pk (st_rows s)"
    using assms(1) by (simp add: store_wf_def)
  have d: "tbl_select row_pk (row_pk r) (st_rows s) = Some d"
    using wf assms(2,5) by (simp add: tbl_select_iff)
  have "\<not> newer r d"
    using assms(6) by (auto simp: newer_iff)
  then have "tbl_select row_pk (row_pk r) (st_rows s_kept) = Some d"
    using ApplyRemote_Inr [OF assms(8)] d by (simp add: select_merge_row)
  moreover have "tbl_select row_pk (row_pk r) (st_rows s_gc) = None"
    using GCTombstones_Inr [OF assms(9)] d wf assms(3,4)
    by (auto simp: tbl_select_filter gc_drops_iff)
  then have "tbl_select row_pk (row_pk r) (st_rows s_back) = Some r"
    using ApplyRemote_Inr [OF assms(10)] by (simp add: select_merge_row)
  ultimately show ?thesis by simp
qed

theorem gc_resurrects_witness:
  "\<exists>s_kept s_gc s_back.
     ApplyRemote ''p'' [ex_row ''a'' ''x'' 3]
       (empty_disk\<lparr>st_rows := [(ex_row ''a'' ''x'' 5)\<lparr>r_tombstone := True\<rparr>]\<rparr>) = (Inr (), s_kept) \<and>
     GCTombstones (HLC 6 0) (empty_disk\<lparr>st_rows := [(ex_row ''a'' ''x'' 5)\<lparr>r_tombstone := True\<rparr>]\<rparr>) = (Inr 1, s_gc) \<and>
     ApplyRemote ''p'' [ex_row ''a'' ''x'' 3] s_gc = (Inr (), s_back) \<and>
     select_row KindRunner ''a'' (st_rows s_kept) = Some ((ex_row ''a'' ''x'' 5)\<lparr>r_tombstone := True\<rparr>) \<and>
     select_row KindRunner ''a'' (st_rows s_back) = Some (ex_row ''a'' ''x'' 3)"
proof -
  let ?d = "(ex_row ''a'' ''x'' 5)\<lparr>r_tombstone := True\<rparr>" and ?r = "ex_row ''a'' ''x'' 3"
  let ?s = "empty_disk\<lparr>st_rows := [?d]\<rparr>"
  have h: "healthy ?s" by (simp add: healthy_def empty_disk_def)
  have g: "GCTombstones (HLC 6 0) ?s = (Inr 1, ?s\<lparr>st_rows := []\<rparr>)"
    using h by (simp add: GCTombstones_healthy gc_drops_iff)
  obtain s_kept where k: "ApplyRemote ''p'' [?r] ?s = (Inr (), s_kept)"
    using h by (simp add: ApplyRemote_healthy)
  obtain s_back where b: "ApplyRemote ''p'' [?r] (?s\<lparr>st_rows := []\<rparr>) = (Inr (), s_back)"
    using h by (simp add: ApplyRemote_healthy)
  have "select_row KindRunner ''a'' (st_rows s_kept) = Some ?d \<and> select_row KindRunner ''a'' (st_rows s_back) = Some ?r"
    using gc_resurrects [OF _ _ _ _ _ _ _ k g b, of ?d]
    by (simp add: store_wf_def empty_disk_def newer_iff row_pk_def)
  then show ?thesis using k g b by blast
qed

section \<open>Listing\<close>

definition collect :: "row \<Rightarrow> row list \<Rightarrow> row list \<times> bool" where
  "collect r acc = (acc @ [r], True)"

definition live_rows :: "kind \<Rightarrow> store \<Rightarrow> row list" where
  "live_rows kind s = sort_key r_key (filter (\<lambda>r. r_kind r = kind \<and> \<not> r_tombstone r) (st_rows s))"

lemma filter_rows_Nil: "filter_rows (row_matches jx []) rs = Inr rs"
  by (induction rs) auto

lemma list_loop_healthy [db_simps]:
  "healthy s \<Longrightarrow> (\<And>r acc. snd (fn r acc)) \<Longrightarrow>
     list_loop fn rs acc s = (Inr (fold (\<lambda>r acc. fst (fn r acc)) rs acc), s)"
  by (induction rs arbitrary: acc) (auto simp: db_simps split: prod.splits dest: arg_cong [where f = snd])

lemma List_rows_healthy:
  "healthy s \<Longrightarrow> (\<And>r acc. snd (fn r acc)) \<Longrightarrow> List_rows jx kind limit offset [] fn acc s =
     (Inr (fold (\<lambda>r acc. fst (fn r acc)) (page limit offset (live_rows kind s)) acc), s)"
  by (simp add: List_rows_def db_simps filter_rows_Nil live_rows_def)

lemma fold_collect: "fold (\<lambda>r acc. acc @ [r]) rs acc = acc @ rs"
  by (induction rs arbitrary: acc) auto

lemma page_nat: "n > 0 \<Longrightarrow> page (int n) (int m) xs = take n (drop m xs)"
  by (simp add: page_def)

lemma pages_concat:
  assumes "n > 0"
  shows "concat (map (\<lambda>i. page (int n) (int (i * n)) xs) [0..<k]) = take (k * n) xs"
proof (induction k)
  case (Suc k)
  have "page (int n) (int (k * n)) xs = take n (drop (k * n) xs)"
    by (rule page_nat [OF assms])
  then show ?case
    using Suc by (simp add: take_add add.commute [of n])
qed simp



section \<open>The primary keys stay unique\<close>

lemma wf_same: "store_wf s \<Longrightarrow> same_tables s s' \<Longrightarrow> store_wf s'"
  using same_tables_wf by blast

lemma exec_cases:
  assumes "exec f s = (res, s')"
  obtains "same_tables s s'" | fs where "s' = f (s\<lparr>st_faults := fs\<rparr>)"
  using assms by (cases res) (auto dest: exec_Inl exec_Inr)

lemma Put_wf: "store_wf s \<Longrightarrow> Put r s = (res, s') \<Longrightarrow> store_wf s'"
  by (auto simp: Put_def upsert_def store_wf_def same_tables_def elim!: exec_cases)

lemma Delete_wf: "store_wf s \<Longrightarrow> Delete k key w h s = (res, s') \<Longrightarrow> store_wf s'"
  by (cases res) (auto simp: store_wf_def same_tables_def dest!: Delete_Inr Delete_Inl)

lemma DeleteByNode_wf:
  assumes "store_wf s" "DeleteByNode n h s = (res, s')"
  shows "store_wf s'"
proof (cases res)
  case (Inl e)
  then show ?thesis
    using assms by (auto simp: DeleteByNode_def Let_def dest!: exec_Inl dest: wf_same)
next
  case (Inr u)
  then show ?thesis
    using assms by (auto simp: store_wf_def tbl_wf_map row_pk_def dest!: DeleteByNode_Inr)
qed

lemma Apply_wf: "store_wf s \<Longrightarrow> Apply r s = (res, s') \<Longrightarrow> store_wf s'"
  by (cases res) (auto simp: store_wf_def same_tables_def dest!: Apply_Inr Apply_Inl)

lemma ApplyRemote_wf: "store_wf s \<Longrightarrow> ApplyRemote p rs s = (res, s') \<Longrightarrow> store_wf s'"
  by (cases res) (auto simp: store_wf_def same_tables_def dest!: ApplyRemote_Inr ApplyRemote_Inl
     )

lemma GCTombstones_wf: "store_wf s \<Longrightarrow> GCTombstones m s = (res, s') \<Longrightarrow> store_wf s'"
  by (cases res) (auto simp: store_wf_def same_tables_def dest!: GCTombstones_Inr GCTombstones_Inl
     )

lemma Watermark_same: "Watermark p k s = (res, s') \<Longrightarrow> same_tables s s'"
  by (auto simp: Watermark_def tryE_def throw_def ret_def split: prod.splits sum.splits if_splits
      dest!: query_row_same)

lemma SetWatermark_cases:
  assumes "SetWatermark p k h s = (res, s')"
  shows "st_rows s' = st_rows s \<and> st_events s' = st_events s \<and> st_node_id s' = st_node_id s"
  using assms
  by (auto simp: SetWatermark_def bindE_def ret_def split: prod.splits sum.splits if_splits
      elim!: exec_cases dest!: Watermark_same simp: same_tables_def)

lemmas rows_ops_wf = Put_wf Delete_wf DeleteByNode_wf Apply_wf ApplyRemote_wf GCTombstones_wf

lemma init_stmts_same: "init_stmts n s = (res, s') \<Longrightarrow> same_tables s s'"
proof (induction n arbitrary: s)
  case (Suc n)
  show ?case
  proof (cases "exec id s")
    case (Pair r s1)
    then have "same_tables s s1"
      by (auto elim: exec_cases)
    then show ?thesis
      using Suc Pair by (cases r) (auto simp: tryE_def throw_def intro: same_tables_trans)
  qed
qed (simp add: ret_def)

lemma init_stmts_healthy [db_simps]: "healthy s \<Longrightarrow> init_stmts n s = (Inr (), s)"
  by (induction n) (auto simp: db_simps)

lemma Open_tables:
  "Open disk n = Inr s \<Longrightarrow> same_tables (disk\<lparr>st_node_id := n\<rparr>) s"
  by (auto simp: Open_def store_init_def split: prod.splits sum.splits
      dest!: db_call_same init_stmts_same intro: same_tables_trans)



end
