(* ===== verification/Grow_Log.thy ===== *)
theory Grow_Log
  imports Main
begin

text \<open>
  Append-only logs with a key as an interface: inserting an entry whose key is taken does
  nothing. The locale proves which entry a key has after a sequence of inserts, that nothing
  is lost or overwritten, and that logs that have seen the same entries agree when a key
  determines its entry.
\<close>

locale grow_log =
  fixes pk :: "'e \<Rightarrow> 'k"
    and get :: "'k \<Rightarrow> 't \<Rightarrow> 'e option"
    and ins :: "'e \<Rightarrow> 't \<Rightarrow> 't"
  assumes get_ins: "get k (ins e t) =
    (case get k t of Some x \<Rightarrow> Some x | None \<Rightarrow> if pk e = k then Some e else None)"
begin

definition ins_all :: "'e list \<Rightarrow> 't \<Rightarrow> 't" where
  "ins_all es t = fold ins es t"

lemma get_ins_all:
  "get k (ins_all es t) = (case get k t of Some x \<Rightarrow> Some x | None \<Rightarrow> find (\<lambda>e. pk e = k) es)"
  unfolding ins_all_def
  by (induction es arbitrary: t) (auto simp: get_ins split: option.splits)

lemma ins_all_keeps: "get k t = Some x \<Longrightarrow> get k (ins_all es t) = Some x"
  by (simp add: get_ins_all)

lemma ins_all_has:
  assumes "e \<in> set es"
  shows "get (pk e) (ins_all es t) \<noteq> None"
proof -
  have "find (\<lambda>x. pk x = pk e) es \<noteq> None"
    using assms by (auto simp: find_None_iff simp del: not_None_eq)
  then show ?thesis by (simp add: get_ins_all split: option.splits)
qed

lemma ins_all_idem: "get k (ins_all es (ins_all es t)) = get k (ins_all es t)"
  by (auto simp: get_ins_all split: option.splits)

lemma find_key:
  "inj_on pk (set es) \<Longrightarrow> find (\<lambda>e. pk e = k) es = Some x \<longleftrightarrow> x \<in> set es \<and> pk x = k"
proof (induction es)
  case (Cons e es)
  then show ?case
    using inj_onD [OF Cons.prems, of e x] by (cases "pk e = k"; cases "x = e") (simp_all, blast)
qed simp

lemma get_ins_all_iff:
  assumes inj: "inj_on pk U"
    and es: "set es \<subseteq> U"
    and t: "\<And>k x. get k t = Some x \<Longrightarrow> x \<in> U \<and> pk x = k"
  shows "get k (ins_all es t) = Some x \<longleftrightarrow> (x \<in> set es \<or> get (pk x) t = Some x) \<and> pk x = k"
proof (cases "get k t")
  case None
  have "inj_on pk (set es)"
    using inj es by (rule inj_on_subset)
  then show ?thesis using None by (auto simp: get_ins_all find_key)
next
  case (Some y)
  then have y: "y \<in> U" "pk y = k" using t [of k y] by simp_all
  have "x = y" if "x \<in> set es" "pk x = k"
    using that inj_onD [OF inj, of x y] y subsetD [OF es, of x] by simp
  then have "x \<noteq> y \<Longrightarrow> \<not> (x \<in> set es \<and> pk x = k)" by iprover
  then show ?thesis using Some y(2)
    by (cases "x = y"; cases "pk x = k") (simp_all add: get_ins_all)
qed

lemma ins_all_agree:
  assumes inj: "inj_on pk U"
    and es: "set es \<subseteq> U" "set es' \<subseteq> U"
    and t: "\<And>k x. get k t = Some x \<Longrightarrow> x \<in> U \<and> pk x = k"
    and u: "\<And>k x. get k u = Some x \<Longrightarrow> x \<in> U \<and> pk x = k"
    and seen: "set es \<union> {x. get (pk x) t = Some x} = set es' \<union> {x. get (pk x) u = Some x}"
  shows "get k (ins_all es t) = get k (ins_all es' u)"
proof -
  have "x \<in> set es \<or> get (pk x) t = Some x \<longleftrightarrow> x \<in> set es' \<or> get (pk x) u = Some x" for x
    using seen by (simp add: set_eq_iff)
  moreover have "get k (ins_all es t) = Some x \<longleftrightarrow> (x \<in> set es \<or> get (pk x) t = Some x) \<and> pk x = k" for x
    using inj es(1) t by (rule get_ins_all_iff)
  moreover have "get k (ins_all es' u) = Some x \<longleftrightarrow> (x \<in> set es' \<or> get (pk x) u = Some x) \<and> pk x = k" for x
    using inj es(2) u by (rule get_ins_all_iff)
  ultimately have eq: "get k (ins_all es t) = Some x \<longleftrightarrow> get k (ins_all es' u) = Some x" for x
    by simp
  show ?thesis
  proof (cases "get k (ins_all es t)")
    case left: None
    show ?thesis
    proof (cases "get k (ins_all es' u)")
      case None
      then show ?thesis using left by simp
    next
      case (Some y)
      then show ?thesis using left eq [of y] by simp
    qed
  next
    case (Some x)
    then show ?thesis using eq [of x] by simp
  qed
qed

end

end
