(* ===== verification/Store_Events.thy ===== *)
theory Store_Events
  imports Store Grow_Log
begin

text \<open>
  \<^verbatim>\<open>internal/model/event.go\<close> and the event log of \<^verbatim>\<open>internal/engine/store/store.go\<close>: numbering
  of local events (\<^verbatim>\<open>AppendEvent\<close>), merging of replicated ones (\<^verbatim>\<open>ApplyEvents\<close>) and the two
  queries (\<^verbatim>\<open>Events\<close>, \<^verbatim>\<open>EventsSince\<close>).

  The payload column holds JSON text; the codec between text and values is an argument. The
  locale of append-only logs is interpreted on the insert that \<^verbatim>\<open>ON CONFLICT DO NOTHING\<close> gives.
\<close>

section \<open>Events\<close>

definition EventRunnerJoined :: string where "EventRunnerJoined = ''RunnerJoined''"
definition EventRunnerLeft :: string where "EventRunnerLeft = ''RunnerLeft''"
definition EventRunnerDraining :: string where "EventRunnerDraining = ''RunnerDraining''"

record event =
  ev_seq :: int
  ev_type :: string
  ev_runner_id :: string
  ev_payload :: "json gomap option"
  ev_hlc :: hlc

section \<open>Appending\<close>

text \<open>\<^verbatim>\<open>SELECT COALESCE(MAX(seq), 0) FROM events_v2 WHERE runner_id = ?\<close>\<close>

definition max_seq :: "string \<Rightarrow> event_row list \<Rightarrow> int" where
  "max_seq rid es =
     (case map er_seq (filter (\<lambda>r. er_runner_id r = rid) es) of [] \<Rightarrow> 0 | x # xs \<Rightarrow> fold max xs x)"

definition event_to_row :: "event \<Rightarrow> int \<Rightarrow> string \<Rightarrow> event_row" where
  "event_to_row e seq payload =
     \<lparr>er_runner_id = ev_runner_id e, er_seq = seq, er_type = ev_type e, er_payload = payload,
      er_hlc = ev_hlc e\<rparr>"

text \<open>A plain \<^verbatim>\<open>INSERT\<close> of a row whose primary key is taken is a constraint error.\<close>

definition insert_event :: "event_row \<Rightarrow> unit op" where
  "insert_event r = bindE db_call (\<lambda>_ s.
     if tbl_select event_pk (event_pk r) (st_events s) \<noteq> None then (Inl ErrConstraint, s)
     else (Inr (), s\<lparr>st_events := st_events s @ [r]\<rparr>))"

definition AppendEvent :: "codec \<Rightarrow> event \<Rightarrow> unit op" where
  "AppendEvent C e =
     (case marshal C (any_map_json (ev_payload e)) of
        Inl err \<Rightarrow> throw err
      | Inr payload \<Rightarrow> with_tx
          (bindE (query_row (\<lambda>s. Some (max_seq (ev_runner_id e) (st_events s)))) (\<lambda>seq.
             let seq = wrap64 (seq + 1) in
             bindE (insert_event (event_to_row e seq payload)) (\<lambda>_. commit))))"

section \<open>Merging\<close>

definition insert_ignore :: "event_row \<Rightarrow> event_row list \<Rightarrow> event_row list" where
  "insert_ignore r t =
     (if tbl_select event_pk (event_pk r) t \<noteq> None then t else t @ [r])"

primrec apply_events_loop :: "codec \<Rightarrow> event list \<Rightarrow> unit op" where
  "apply_events_loop C [] = ret ()"
| "apply_events_loop C (e # es) =
     (case marshal C (any_map_json (ev_payload e)) of
        Inl err \<Rightarrow> throw err
      | Inr pl \<Rightarrow>
          bindE (exec (\<lambda>s. s\<lparr>st_events := insert_ignore (event_to_row e (ev_seq e) pl) (st_events s)\<rparr>))
            (\<lambda>_. apply_events_loop C es))"

definition ApplyEvents :: "codec \<Rightarrow> event list \<Rightarrow> unit op" where
  "ApplyEvents C events =
     (if events = [] then ret ()
      else with_tx (bindE db_call (\<lambda>_. bindE (apply_events_loop C events) (\<lambda>_. commit))))"

section \<open>Queries\<close>

definition decode_payload :: "codec \<Rightarrow> string \<Rightarrow> error + json gomap option" where
  "decode_payload C pl =
     (if pl \<noteq> [] then
        (case unmarshal C pl of
           Inl e \<Rightarrow> Inl e
         | Inr j \<Rightarrow> (case json_any_map j None of (m, None) \<Rightarrow> Inr m | (_, Some e) \<Rightarrow> Inl e))
      else Inr None)"

definition row_to_event :: "event_row \<Rightarrow> json gomap option \<Rightarrow> event" where
  "row_to_event r p =
     \<lparr>ev_seq = er_seq r, ev_type = er_type r, ev_runner_id = er_runner_id r, ev_payload = p,
      ev_hlc = er_hlc r\<rparr>"

primrec decode_events :: "codec \<Rightarrow> event_row list \<Rightarrow> event list \<Rightarrow> event list op" where
  "decode_events C [] out = bindE db_call (\<lambda>_. ret out)"
| "decode_events C (r # rs) out =
     bindE db_call (\<lambda>_.
       case decode_payload C (er_payload r) of
         Inl e \<Rightarrow> throw e
       | Inr p \<Rightarrow> decode_events C rs (out @ [row_to_event r p]))"

text \<open>The loop that turns the result round, on the indices the code uses.\<close>

function swap_loop :: "int \<Rightarrow> int \<Rightarrow> 'a list \<Rightarrow> 'a list" where
  "swap_loop i j out =
     (if i < j
      then swap_loop (i + 1) (j - 1) (out[nat i := out ! nat j, nat j := out ! nat i])
      else out)"
  by pat_completeness auto
termination
  by (relation "measure (\<lambda>(i, j, _). nat (j - i))") auto

declare swap_loop.simps [simp del]

definition Events :: "codec \<Rightarrow> int \<Rightarrow> event list op" where
  "Events C limit =
     (let limit = (if limit \<le> 0 then 100 else limit) in
      bindE (query (\<lambda>s. take (nat limit) (rev (sort_key er_hlc (st_events s))))) (\<lambda>rows.
        bindE (decode_events C rows []) (\<lambda>out. ret (swap_loop 0 (int (length out) - 1) out))))"

definition EventsSince :: "codec \<Rightarrow> hlc \<Rightarrow> event list op" where
  "EventsSince C wm =
     bindE (query (\<lambda>s. sort_key er_hlc
       (filter (\<lambda>r. TS (er_hlc r) > TS wm \<or> TS (er_hlc r) = TS wm \<and> Seq (er_hlc r) > Seq wm)
         (st_events s)))) (\<lambda>rows. decode_events C rows [])"

section \<open>The log as a growing set\<close>

lemma select_insert_ignore:
  "tbl_select event_pk k (insert_ignore r t) =
     (case tbl_select event_pk k t of Some x \<Rightarrow> Some x | None \<Rightarrow> if event_pk r = k then Some r else None)"
  by (cases "tbl_select event_pk (event_pk r) t"; cases "event_pk r = k"; cases "tbl_select event_pk k t")
     (simp_all add: insert_ignore_def tbl_select_append_new)

interpretation evlog: grow_log event_pk "tbl_select event_pk" insert_ignore
  by unfold_locales (rule select_insert_ignore)

lemma insert_ignore_wf [intro]: "tbl_wf event_pk t \<Longrightarrow> tbl_wf event_pk (insert_ignore r t)"
  by (simp add: insert_ignore_def tbl_wf_append_new tbl_select_None del: not_None_eq)

lemma ins_all_wf [intro]: "tbl_wf event_pk t \<Longrightarrow> tbl_wf event_pk (evlog.ins_all rs t)"
  unfolding evlog.ins_all_def by (induction rs arbitrary: t) auto

lemma set_ins_all: "set t \<subseteq> set (evlog.ins_all rs t)" "set (evlog.ins_all rs t) \<subseteq> set rs \<union> set t"
proof -
  have step: "set v \<subseteq> set (insert_ignore r v) \<and> set (insert_ignore r v) \<subseteq> insert r (set v)" for r v
    by (simp add: insert_ignore_def subset_insertI)
  have "set t \<subseteq> set (fold insert_ignore rs t) \<and> set (fold insert_ignore rs t) \<subseteq> set rs \<union> set t"
  proof (induction rs arbitrary: t)
    case (Cons r rs)
    show ?case using Cons [of "insert_ignore r t"] step [of t r] by simp blast
  qed simp
  then show "set t \<subseteq> set (evlog.ins_all rs t)" "set (evlog.ins_all rs t) \<subseteq> set rs \<union> set t"
    by (simp_all add: evlog.ins_all_def)
qed

section \<open>What the operations do to the log\<close>

lemma max_seq_Max:
  "max_seq rid es = (let S = er_seq ` {r \<in> set es. er_runner_id r = rid} in if S = {} then 0 else Max S)"
proof (cases "map er_seq (filter (\<lambda>r. er_runner_id r = rid) es)")
  case Nil
  then show ?thesis by (auto simp: max_seq_def filter_empty_conv)
next
  case (Cons x xs)
  then have "er_seq ` {r \<in> set es. er_runner_id r = rid} = set (x # xs)"
    by (metis set_filter set_map)
  then show ?thesis using Cons by (simp add: max_seq_def Max.set_eq_fold [symmetric] del: set_simps)
qed

lemma insert_event_Inr:
  "insert_event r s = (Inr u, s') \<Longrightarrow>
     event_pk r \<notin> event_pk ` set (st_events s) \<and> (\<exists>fs. s' = s\<lparr>st_events := st_events s @ [r], st_faults := fs\<rparr>)"
  by (auto simp: insert_event_def bindE_Inr tbl_select_None simp del: not_None_eq
      split: if_splits dest!: db_call_tables intro: exI [of _ "st_faults s'"])

lemma insert_event_healthy [db_simps]:
  "healthy s \<Longrightarrow> insert_event r s =
     (if event_pk r \<in> event_pk ` set (st_events s) then (Inl ErrConstraint, s)
      else (Inr (), s\<lparr>st_events := st_events s @ [r]\<rparr>))"
  by (auto simp: insert_event_def db_simps tbl_select_None simp del: not_None_eq)

definition encodes :: "codec \<Rightarrow> event \<Rightarrow> event_row \<Rightarrow> bool" where
  "encodes C e r \<longleftrightarrow>
     marshal C (any_map_json (ev_payload e)) = Inr (er_payload r) \<and> r = event_to_row e (ev_seq e) (er_payload r)"

definition decodes :: "codec \<Rightarrow> event_row \<Rightarrow> event \<Rightarrow> bool" where
  "decodes C r e \<longleftrightarrow>
     decode_payload C (er_payload r) = Inr (ev_payload e) \<and> e = row_to_event r (ev_payload e)"

lemma AppendEvent_Inr:
  assumes "AppendEvent C e s = (Inr u, s')"
  shows "\<exists>pl fs. marshal C (any_map_json (ev_payload e)) = Inr pl \<and>
    event_pk (event_to_row e (wrap64 (max_seq (ev_runner_id e) (st_events s) + 1)) pl)
      \<notin> event_pk ` set (st_events s) \<and>
    s' = s\<lparr>st_events := st_events s @
      [event_to_row e (wrap64 (max_seq (ev_runner_id e) (st_events s) + 1)) pl], st_faults := fs\<rparr>"
proof (cases "marshal C (any_map_json (ev_payload e))")
  case (Inr pl)
  then show ?thesis
    using assms
    by (auto simp: AppendEvent_def bindE_Inr Let_def split: if_splits
        dest!: with_tx_Inr_faults commit_Inr query_row_Inr insert_event_Inr) (rule exI, rule refl)
qed (use assms in \<open>simp add: AppendEvent_def throw_def\<close>)

lemma AppendEvent_Inl: "AppendEvent C e s = (Inl err, s') \<Longrightarrow> same_tables s s'"
  by (auto simp: AppendEvent_def throw_def split: sum.splits dest: with_tx_Inl)

lemma AppendEvent_healthy [db_simps]:
  assumes "healthy s" "marshal C (any_map_json (ev_payload e)) = Inr pl"
    and "event_pk (event_to_row e (wrap64 (max_seq (ev_runner_id e) (st_events s) + 1)) pl)
      \<notin> event_pk ` set (st_events s)"
  shows "AppendEvent C e s = (Inr (), s\<lparr>st_events := st_events s @
      [event_to_row e (wrap64 (max_seq (ev_runner_id e) (st_events s) + 1)) pl]\<rparr>)"
  using assms by (simp add: AppendEvent_def db_simps with_tx_healthy Let_def)

lemma apply_events_loop_Inr:
  "apply_events_loop C es s = (Inr u, s') \<Longrightarrow>
     \<exists>rs fs. list_all2 (encodes C) es rs \<and> s' = s\<lparr>st_events := evlog.ins_all rs (st_events s), st_faults := fs\<rparr>"
proof (induction es arbitrary: s)
  case Nil
  then show ?case by (auto simp: ret_def evlog.ins_all_def intro: exI [of _ "st_faults s"])
next
  case (Cons e es)
  then obtain pl fs where pl: "marshal C (any_map_json (ev_payload e)) = Inr pl"
      and loop: "apply_events_loop C es
        (s\<lparr>st_faults := fs, st_events := insert_ignore (event_to_row e (ev_seq e) pl) (st_events s)\<rparr>) = (Inr u, s')"
    by (auto simp: bindE_Inr throw_def split: sum.splits dest!: exec_Inr)
  let ?r = "event_to_row e (ev_seq e) pl"
  have "encodes C e ?r"
    using pl by (simp add: encodes_def event_to_row_def)
  moreover obtain rs fs' where "list_all2 (encodes C) es rs"
      "s' = s\<lparr>st_events := evlog.ins_all (?r # rs) (st_events s), st_faults := fs'\<rparr>"
    using Cons.IH [OF loop] by (auto simp: evlog.ins_all_def)
  ultimately show ?case by blast
qed

lemma apply_events_loop_healthy [db_simps]:
  "healthy s \<Longrightarrow> list_all2 (encodes C) es rs \<Longrightarrow>
     apply_events_loop C es s = (Inr (), s\<lparr>st_events := evlog.ins_all rs (st_events s)\<rparr>)"
proof (induction es arbitrary: s rs)
  case (Cons e es)
  then obtain r rs' where "rs = r # rs'" "encodes C e r" "list_all2 (encodes C) es rs'"
    by (auto simp: list_all2_Cons1)
  then show ?case
    using Cons.prems(1) Cons.IH [of "s\<lparr>st_events := insert_ignore r (st_events s)\<rparr>" rs']
    by (simp add: db_simps evlog.ins_all_def encodes_def [of C e r])
qed (simp add: db_simps evlog.ins_all_def)

lemma ApplyEvents_Inr:
  assumes "ApplyEvents C es s = (Inr u, s')"
  shows "\<exists>rs fs. list_all2 (encodes C) es rs \<and>
    s' = s\<lparr>st_events := evlog.ins_all rs (st_events s), st_faults := fs\<rparr>"
proof (cases "es = []")
  case True
  then show ?thesis
    using assms by (auto simp: ApplyEvents_def ret_def evlog.ins_all_def intro: exI [of _ "st_faults s"])
next
  case False
  then obtain fs s1 fs' where "apply_events_loop C es (s\<lparr>st_faults := fs\<rparr>) = (Inr (), s1)" "s' = s1\<lparr>st_faults := fs'\<rparr>"
    using assms
    by (auto simp: ApplyEvents_def bindE_Inr split: if_splits
        dest!: with_tx_Inr_faults db_call_tables commit_Inr)
  then obtain rs where "list_all2 (encodes C) es rs"
      "s' = s\<lparr>st_events := evlog.ins_all rs (st_events s), st_faults := fs'\<rparr>"
    by (auto dest!: apply_events_loop_Inr)
  then show ?thesis by blast
qed

lemma ApplyEvents_Inl: "ApplyEvents C es s = (Inl e, s') \<Longrightarrow> same_tables s s'"
  by (auto simp: ApplyEvents_def ret_def split: if_splits dest: with_tx_Inl)

lemma ApplyEvents_healthy [db_simps]:
  "healthy s \<Longrightarrow> list_all2 (encodes C) es rs \<Longrightarrow>
     ApplyEvents C es s = (Inr (), s\<lparr>st_events := evlog.ins_all rs (st_events s)\<rparr>)"
  by (cases "es = []") (simp_all add: ApplyEvents_def db_simps with_tx_healthy evlog.ins_all_def)

lemma decode_events_Inr:
  "decode_events C rs out s = (Inr evs, s') \<Longrightarrow>
     same_tables s s' \<and> (\<exists>es. evs = out @ es \<and> list_all2 (decodes C) rs es)"
proof (induction rs arbitrary: out s)
  case Nil
  then show ?case by (auto simp: bindE_Inr ret_def dest!: db_call_same)
next
  case (Cons r rs)
  then obtain s1 p where "same_tables s s1" and p: "decode_payload C (er_payload r) = Inr p"
      and "decode_events C rs (out @ [row_to_event r p]) s1 = (Inr evs, s')"
    by (auto simp: bindE_Inr throw_def split: sum.splits dest!: db_call_same)
  moreover from p have "decodes C r (row_to_event r p)"
    by (simp add: decodes_def row_to_event_def)
  ultimately show ?case
    by (fastforce dest!: Cons.IH intro: same_tables_trans)
qed

lemma decodes_hlc: "list_all2 (decodes C) rs es \<Longrightarrow> map ev_hlc es = map er_hlc rs"
proof (induction rule: list_all2_induct)
  case (Cons r rs e es)
  then obtain p where "e = row_to_event r p" by (auto simp: decodes_def)
  then show ?case using Cons by (simp add: row_to_event_def)
qed simp

lemma decode_events_healthy [db_simps]:
  "healthy s \<Longrightarrow> list_all2 (decodes C) rs es \<Longrightarrow> decode_events C rs out s = (Inr (out @ es), s)"
proof (induction rs arbitrary: es out)
  case (Cons r rs)
  then obtain e es' where "es = e # es'" "decodes C r e" "list_all2 (decodes C) rs es'"
    by (auto simp: list_all2_Cons1)
  then show ?case
    using Cons.prems(1) Cons.IH [of es' "out @ [e]"] by (simp add: db_simps decodes_def [of C r e])
qed (simp add: db_simps)

lemma length_swap_loop [simp]: "length (swap_loop i j xs) = length xs"
  by (induction i j xs rule: swap_loop.induct) (subst swap_loop.simps, simp)

lemma nth_swap_loop:
  "0 \<le> i \<Longrightarrow> j < int (length xs) \<Longrightarrow> k < length xs \<Longrightarrow>
     swap_loop i j xs ! k = (if i \<le> int k \<and> int k \<le> j then xs ! nat (i + j - int k) else xs ! k)"
proof (induction i j xs rule: swap_loop.induct)
  case (1 i j xs)
  show ?case
  proof (cases "i < j")
    case False
    then show ?thesis
      using 1(2-) by (subst swap_loop.simps) (auto intro!: arg_cong [where f = "(!) xs"])
  next
    case True
    let ?ys = "xs[nat i := xs ! nat j, nat j := xs ! nat i]"
    have "swap_loop i j xs ! k = swap_loop (i + 1) (j - 1) ?ys ! k"
      using True by (subst swap_loop.simps) simp
    also have "\<dots> = (if i + 1 \<le> int k \<and> int k \<le> j - 1 then ?ys ! nat (i + j - int k) else ?ys ! k)"
      using 1(1) [OF True] 1(2-) by simp
    also have "\<dots> = (if i \<le> int k \<and> int k \<le> j then xs ! nat (i + j - int k) else xs ! k)"
      using True 1(2-) by (auto simp: nth_list_update nat_eq_iff)
    finally show ?thesis .
  qed
qed

lemma swap_loop_rev: "swap_loop 0 (int (length xs) - 1) xs = rev xs"
proof (rule nth_equalityI)
  fix k assume "k < length (swap_loop 0 (int (length xs) - 1) xs)"
  then have "k < length xs" by simp
  then show "swap_loop 0 (int (length xs) - 1) xs ! k = rev xs ! k"
    by (subst nth_swap_loop) (auto simp: rev_nth intro!: arg_cong [where f = "(!) xs"])
qed simp

section \<open>Numbering\<close>

definition runner_seqs :: "string \<Rightarrow> event_row list \<Rightarrow> int list" where
  "runner_seqs rid es = map er_seq (filter (\<lambda>r. er_runner_id r = rid) es)"

lemma max_seq_upto: "runner_seqs rid es = [1..int n] \<Longrightarrow> max_seq rid es = int n"
proof -
  assume *: "runner_seqs rid es = [1..int n]"
  then have "er_seq ` {r \<in> set es. er_runner_id r = rid} = {1..int n}"
    unfolding runner_seqs_def by (metis set_filter set_map set_upto)
  then show ?thesis
    by (cases "n = 0") (auto simp: max_seq_Max Let_def intro!: Max_eqI)
qed

lemma fresh_seq:
  assumes "runner_seqs (ev_runner_id e) es = [1..int n]"
  shows "event_pk (event_to_row e (int n + 1) pl) \<notin> event_pk ` set es"
proof
  assume "event_pk (event_to_row e (int n + 1) pl) \<in> event_pk ` set es"
  then have "int n + 1 \<in> set (runner_seqs (ev_runner_id e) es)"
    by (force simp: event_pk_def event_to_row_def runner_seqs_def)
  then show False using assms by simp
qed

text \<open>
  C23. \<^verbatim>\<open>AppendEvent\<close> numbers the events of a runner without gaps or repetitions. If the log holds
  the numbers \<open>1, ..., n\<close> for the runner, a successful append adds exactly one row, last, with
  number \<open>n + 1\<close> and the event's type, stamp and encoded payload, and changes nothing else; a
  failed one, wherever the database fails and also when the payload cannot be encoded, leaves
  every table as it was. On a database that does not fail, with an encodable payload, it
  succeeds.
\<close>
theorem AppendEvent_gapless:
  assumes "AppendEvent C e s = (res, s')"
    and "runner_seqs (ev_runner_id e) (st_events s) = [1..int n]" "int n < max64"
  shows "(case res of
      Inl err \<Rightarrow> same_tables s s'
    | Inr _ \<Rightarrow> (\<exists>pl. marshal C (any_map_json (ev_payload e)) = Inr pl \<and>
          st_events s' = st_events s @ [event_to_row e (int n + 1) pl]) \<and>
        runner_seqs (ev_runner_id e) (st_events s') = [1..int n + 1] \<and>
        st_rows s' = st_rows s \<and> st_watermarks s' = st_watermarks s)
    \<and> (healthy s \<and> (\<exists>pl. marshal C (any_map_json (ev_payload e)) = Inr pl) \<longrightarrow> res = Inr ())"
proof -
  have w: "wrap64 (max_seq (ev_runner_id e) (st_events s) + 1) = int n + 1"
    using assms(2,3) by (simp add: max_seq_upto wrap64_succ in64_def min64_def max64_def)
  have run: "runner_seqs (ev_runner_id e) (st_events s @ [event_to_row e (int n + 1) pl]) = [1..int n + 1]" for pl
    using assms(2) by (simp add: runner_seqs_def event_to_row_def upto_rec2)
  show ?thesis
  proof (cases res)
    case (Inl err)
    then show ?thesis
      using assms(1) AppendEvent_Inl [of C e s err s'] fresh_seq [OF assms(2)]
      by (auto simp: w AppendEvent_healthy)
  next
    case (Inr u)
    then show ?thesis
      using assms(1) AppendEvent_Inr [of C e s u s'] run by (auto simp: w)
  qed
qed

definition null_codec :: codec where
  "null_codec = \<lparr>marshal = (\<lambda>j. if j = JNull then Inr ''null'' else Inl ErrJson),
     unmarshal = (\<lambda>t. if t = ''null'' then Inr JNull else Inl ErrJson)\<rparr>"

definition ex_event :: "string \<Rightarrow> int \<Rightarrow> int \<Rightarrow> event" where
  "ex_event rid n ts = \<lparr>ev_seq = n, ev_type = EventRunnerJoined, ev_runner_id = rid, ev_payload = None, ev_hlc = HLC ts 0\<rparr>"

lemma ex_event_sel [simp]:
  "ev_seq (ex_event rid n ts) = n" "ev_type (ex_event rid n ts) = EventRunnerJoined"
  "ev_runner_id (ex_event rid n ts) = rid" "ev_payload (ex_event rid n ts) = None"
  "ev_hlc (ex_event rid n ts) = HLC ts 0"
  by (simp_all add: ex_event_def)

lemma null_codec_sel [simp]:
  "marshal null_codec JNull = Inr ''null''" "unmarshal null_codec ''null'' = Inr JNull"
  by (simp_all add: null_codec_def)

theorem AppendEvent_gapless_witness:
  "let s0 = empty_disk; s1 = snd (AppendEvent null_codec (ex_event ''r'' 0 7) s0)
   in runner_seqs ''r'' (st_events (snd (AppendEvent null_codec (ex_event ''r'' 0 8) s1))) = [1, 2]"
proof -
  let ?e = "\<lambda>t. ex_event ''r'' 0 t"
  obtain r1 s1 where a1: "AppendEvent null_codec (?e 7) empty_disk = (r1, s1)" by fastforce
  obtain r2 s2 where a2: "AppendEvent null_codec (?e 8) s1 = (r2, s2)" by fastforce
  have h: "healthy empty_disk" "st_events empty_disk = []"
    by (simp_all add: healthy_def empty_disk_def)
  have m: "\<exists>pl. marshal null_codec (any_map_json (ev_payload (?e t))) = Inr pl" for t
    by (simp add: any_map_json_def)
  have h1: "healthy s1" "r1 = Inr ()" "runner_seqs ''r'' (st_events s1) = [1..int 1]"
    using AppendEvent_gapless [OF a1, of 0] a1 h m
      AppendEvent_healthy [of empty_disk null_codec "?e 7" "''null''"]
    by (auto simp: runner_seqs_def max64_def any_map_json_def event_to_row_def)
  then have "r2 = Inr ()" "runner_seqs ''r'' (st_events s2) = [1..int 1 + 1]"
    using AppendEvent_gapless [OF a2, of 1] m by (auto simp: max64_def)
  then show ?thesis using a1 a2 by (simp add: upto_rec1)
qed

section \<open>Replication of events\<close>

lemma encodes_unique: "encodes C e r \<Longrightarrow> encodes C e r' \<Longrightarrow> r = r'"
  by (metis encodes_def sum.inject(2))

lemma list_all2_encodes:
  "list_all2 (encodes C) es rs \<Longrightarrow> set rs = {r. \<exists>e \<in> set es. encodes C e r}"
  by (induction rule: list_all2_induct) (auto dest: encodes_unique)

text \<open>
  C22. Event logs converge. Two nodes that, counting the events they held and those they were
  sent, know the same events hold the same log afterwards, in whatever order, batching or
  repetition they arrived, as long as a runner's number identifies one event; nothing a log
  held is lost or overwritten, and a failed \<^verbatim>\<open>ApplyEvents\<close> changes nothing.
\<close>
theorem event_logs_converge:
  assumes "store_wf s1" "store_wf s2"
    and "ApplyEvents C es1 s1 = (res1, s1')" "ApplyEvents C es2 s2 = (res2, s2')"
    and "{r. \<exists>e \<in> set es1. encodes C e r} \<union> set (st_events s1) =
         {r. \<exists>e \<in> set es2. encodes C e r} \<union> set (st_events s2)"
    and "inj_on event_pk ({r. \<exists>e \<in> set es1. encodes C e r} \<union> set (st_events s1))"
  shows "(res1 = Inr () \<and> res2 = Inr () \<longrightarrow> set (st_events s1') = set (st_events s2')) \<and>
    set (st_events s1) \<subseteq> set (st_events s1') \<and> (res1 \<noteq> Inr () \<longrightarrow> same_tables s1 s1')"
proof (intro conjI impI)
  have wf: "tbl_wf event_pk (st_events s1)" "tbl_wf event_pk (st_events s2)"
    using assms(1,2) by (simp_all add: store_wf_def)
  show "set (st_events s1') = set (st_events s2')" if ok: "res1 = Inr () \<and> res2 = Inr ()"
  proof -
    obtain rs1 rs2 where 1: "list_all2 (encodes C) es1 rs1" "st_events s1' = evlog.ins_all rs1 (st_events s1)"
      and 2: "list_all2 (encodes C) es2 rs2" "st_events s2' = evlog.ins_all rs2 (st_events s2)"
      using assms(3,4) ok by (auto dest!: ApplyEvents_Inr)
    have "tbl_select event_pk k (evlog.ins_all rs1 (st_events s1)) =
        tbl_select event_pk k (evlog.ins_all rs2 (st_events s2))" for k
      using assms(5,6) wf list_all2_encodes [OF 1(1)] list_all2_encodes [OF 2(1)]
      by (intro evlog.ins_all_agree [of "set rs1 \<union> set (st_events s1)"])
         (auto simp: tbl_select_iff)
    then show ?thesis unfolding 1 2 using wf by (intro tbl_set_eqI [of event_pk]) auto
  qed
  show "set (st_events s1) \<subseteq> set (st_events s1')"
  proof (cases res1)
    case (Inl err)
    then show ?thesis using ApplyEvents_Inl assms(3) by (auto simp: same_tables_def)
  next
    case (Inr u)
    then obtain rs where "st_events s1' = evlog.ins_all rs (st_events s1)"
      using assms(3) by (auto dest!: ApplyEvents_Inr)
    then show ?thesis by (simp add: set_ins_all)
  qed
  show "same_tables s1 s1'" if "res1 \<noteq> Inr ()"
    using that assms(3) ApplyEvents_Inl by (cases res1) auto
qed

lemma ex_encodes [simp]:
  "encodes null_codec (ex_event rid n t) r \<longleftrightarrow> r = event_to_row (ex_event rid n t) n ''null''"
  by (auto simp: encodes_def any_map_json_def event_to_row_def)

theorem event_logs_converge_witness:
  "set (st_events (snd (ApplyEvents null_codec [ex_event ''r'' 1 5, ex_event ''q'' 1 6] empty_disk))) =
   set (st_events (snd (ApplyEvents null_codec [ex_event ''q'' 1 6, ex_event ''r'' 1 5, ex_event ''q'' 1 6] empty_disk)))"
proof -
  let ?es1 = "[ex_event ''r'' 1 5, ex_event ''q'' 1 6]"
  let ?es2 = "[ex_event ''q'' 1 6, ex_event ''r'' 1 5, ex_event ''q'' 1 6]"
  have h: "healthy empty_disk" "store_wf empty_disk" "st_events empty_disk = []"
    by (simp_all add: healthy_def empty_disk_def store_wf_def)
  have e: "list_all2 (encodes null_codec) es (map (\<lambda>e. event_to_row e (ev_seq e) ''null'') es)"
    if "es = ?es1 \<or> es = ?es2" for es
    using that by auto
  obtain s1 s2 where s: "ApplyEvents null_codec ?es1 empty_disk = (Inr (), s1)"
      "ApplyEvents null_codec ?es2 empty_disk = (Inr (), s2)"
    using ApplyEvents_healthy [OF h(1) e] by blast
  have "inj_on event_pk {r. \<exists>e \<in> set ?es1. encodes null_codec e r}"
    by (auto simp: inj_on_def event_pk_def event_to_row_def)
  moreover have "{r. \<exists>e \<in> set ?es1. encodes null_codec e r} = {r. \<exists>e \<in> set ?es2. encodes null_codec e r}"
    by auto
  ultimately have "set (st_events s1) = set (st_events s2)"
    using event_logs_converge [OF h(2) h(2) s] unfolding h(3) list.set(1) Un_empty_right by blast
  then show ?thesis using s by simp
qed

text \<open>
  A row's payload is canonical when it is the encoding of the value it decodes to, as it is for
  every row \<^verbatim>\<open>AppendEvent\<close> wrote with a codec that reads back what it writes.
\<close>

definition canonical :: "codec \<Rightarrow> event_row \<Rightarrow> bool" where
  "canonical C r \<longleftrightarrow>
     (\<exists>m. decode_payload C (er_payload r) = Inr m \<and> marshal C (any_map_json m) = Inr (er_payload r))"

lemma decodes_encodes: "canonical C r \<Longrightarrow> decodes C r e \<Longrightarrow> encodes C e r' \<longleftrightarrow> r' = r"
proof -
  assume c: "canonical C r" and d: "decodes C r e"
  have inv: "event_to_row (row_to_event r p) (er_seq r) (er_payload r) = r" for p
    by (simp add: event_to_row_def row_to_event_def)
  obtain p where p: "e = row_to_event r p" "decode_payload C (er_payload r) = Inr p" "ev_payload e = p"
    using d by (auto simp: decodes_def)
  then have m: "marshal C (any_map_json p) = Inr (er_payload r)" "ev_seq e = er_seq r"
    using c by (auto simp: canonical_def row_to_event_def)
  show ?thesis
    unfolding encodes_def p(3) m using inv [of p] p(1) by (metis sum.inject(2))
qed

lemma canonical_transfer:
  "list_all2 (decodes C) xs es \<Longrightarrow> list_all2 (encodes C) es rs \<Longrightarrow> \<forall>r \<in> set xs. canonical C r \<Longrightarrow> rs = xs"
proof (induction xs arbitrary: es rs)
  case (Cons x xs)
  then obtain e es' r rs' where c: "es = e # es'" "rs = r # rs'" "decodes C x e" "encodes C e r"
      "list_all2 (decodes C) xs es'" "list_all2 (encodes C) es' rs'"
    by (auto simp: list_all2_Cons1)
  then have "r = x" using Cons.prems(3) decodes_encodes [of C x e r] by simp
  then show ?case using Cons.IH [of es' rs'] c Cons.prems(3) by simp
qed simp

lemma set_ins_all_iff:
  assumes "tbl_wf event_pk t" "inj_on event_pk (set rs)"
  shows "set (evlog.ins_all rs t) = set t \<union> {r \<in> set rs. event_pk r \<notin> event_pk ` set t}"
proof -
  have "r \<in> set (evlog.ins_all rs t) \<longleftrightarrow> tbl_select event_pk (event_pk r) (evlog.ins_all rs t) = Some r" for r
    using assms(1) by (simp add: tbl_select_iff ins_all_wf)
  moreover have "tbl_select event_pk (event_pk r) (evlog.ins_all rs t) = Some r \<longleftrightarrow>
      r \<in> set t \<or> r \<in> set rs \<and> event_pk r \<notin> event_pk ` set t" for r
    using tbl_select_iff [OF assms(1), of "event_pk r" r] tbl_select_None [of event_pk "event_pk r" t]
      evlog.find_key [OF assms(2), of "event_pk r" r]
    by (cases "tbl_select event_pk (event_pk r) t") (auto simp: evlog.get_ins_all)
  ultimately show ?thesis by blast
qed

lemma EventsSince_Inr:
  assumes "EventsSince C wm s = (Inr evs, s')"
  shows "same_tables s s' \<and> list_all2 (decodes C) (sort_key er_hlc (filter (\<lambda>r. wm < er_hlc r) (st_events s))) evs"
proof -
  have "(TS h > TS wm \<or> TS h = TS wm \<and> Seq h > Seq wm) = (wm < h)" for h
    by (auto simp: less_hlc_def)
  then obtain fs where
      "decode_events C (sort_key er_hlc (filter (\<lambda>r. wm < er_hlc r) (st_events s))) [] (s\<lparr>st_faults := fs\<rparr>)
        = (Inr evs, s')"
    using assms by (auto simp: EventsSince_def bindE_Inr dest!: query_Inr)
  then show ?thesis by (auto dest!: decode_events_Inr)
qed

text \<open>
  C24. Exact transfer of events. When a node reads another's events after a watermark and applies
  them, its log afterwards holds, byte for byte, every row of the source log later than the
  watermark whose number it did not have, all it had before, and nothing else; the source log
  is not changed.
\<close>
theorem events_transfer:
  assumes "store_wf b" "\<forall>r \<in> set (st_events a). canonical C r"
    and "EventsSince C wm a = (Inr evs, a')" "ApplyEvents C evs b = (Inr (), b')"
    and "tbl_wf event_pk (st_events a)"
  shows "set (st_events b') = set (st_events b) \<union>
      {r \<in> set (st_events a). wm < er_hlc r \<and> event_pk r \<notin> event_pk ` set (st_events b)}
    \<and> st_events a' = st_events a \<and> st_rows b' = st_rows b"
proof -
  let ?rs = "sort_key er_hlc (filter (\<lambda>r. wm < er_hlc r) (st_events a))"
  have dec: "same_tables a a'" "list_all2 (decodes C) ?rs evs"
    using EventsSince_Inr [OF assms(3)] by auto
  obtain rs where rs: "list_all2 (encodes C) evs rs" "st_events b' = evlog.ins_all rs (st_events b)"
      "st_rows b' = st_rows b"
    using ApplyEvents_Inr [OF assms(4)] by auto
  have "rs = ?rs"
    using canonical_transfer [OF dec(2) rs(1)] assms(2) by simp
  moreover have "inj_on event_pk (set ?rs)"
    using assms(5) by (auto simp: tbl_wf_def distinct_map intro: inj_on_subset)
  ultimately show ?thesis
    using set_ins_all_iff [of "st_events b" ?rs] assms(1) dec(1) rs by (auto simp: store_wf_def same_tables_def)
qed

lemma ex_canonical [simp]: "canonical null_codec (event_to_row (ex_event rid n t) m ''null'')"
  by (simp add: canonical_def decode_payload_def event_to_row_def json_any_map_def any_map_json_def)

lemma ex_decodes [simp]:
  "decodes null_codec (event_to_row (ex_event rid k t) n ''null'') e \<longleftrightarrow> e = ex_event rid n t"
  by (auto simp: decodes_def decode_payload_def event_to_row_def row_to_event_def json_any_map_def ex_event_def)

theorem events_transfer_witness:
  "let er = (\<lambda>n t. event_to_row (ex_event ''r'' n t) n ''null'');
       a = empty_disk\<lparr>st_events := [er 1 5, er 2 6]\<rparr>; b = empty_disk\<lparr>st_events := [er 1 5]\<rparr>
   in \<exists>evs a' b'. EventsSince null_codec (HLC 3 0) a = (Inr evs, a') \<and> ApplyEvents null_codec evs b = (Inr (), b') \<and>
        set (st_events b') = {er 1 5, er 2 6}"
proof -
  let ?er = "\<lambda>n t. event_to_row (ex_event ''r'' n t) n ''null''"
  let ?a = "empty_disk\<lparr>st_events := [?er 1 5, ?er 2 6]\<rparr>" and ?b = "empty_disk\<lparr>st_events := [?er 1 5]\<rparr>"
  let ?evs = "[ex_event ''r'' 1 5, ex_event ''r'' 2 6]"
  have h: "healthy ?a" "healthy ?b" by (simp_all add: healthy_def empty_disk_def)
  have k: "er_hlc (?er n t) = HLC t 0" "event_pk (?er n t) = (''r'', n)" for n t
    by (simp_all add: event_to_row_def event_pk_def)
  have wf: "store_wf ?b" "tbl_wf event_pk (st_events ?a)"
    by (simp_all add: store_wf_def empty_disk_def k)
  have es: "EventsSince null_codec (HLC 3 0) ?a = (Inr ?evs, ?a)"
    using h(1) by (simp add: EventsSince_def db_simps k decode_events_healthy [where es = "?evs"] less_hlc_def
        del: decode_events.simps)
  obtain b' where ap: "ApplyEvents null_codec ?evs ?b = (Inr (), b')"
    using ApplyEvents_healthy [OF h(2), of null_codec ?evs "[?er 1 5, ?er 2 6]"] by simp
  have "set (st_events b') = set (st_events ?b) \<union>
      {r \<in> set (st_events ?a). HLC 3 0 < er_hlc r \<and> event_pk r \<notin> event_pk ` set (st_events ?b)}"
    using events_transfer [OF wf(1) _ es ap wf(2)] by simp
  then have "set (st_events b') = {?er 1 5, ?er 2 6}"
    by (simp add: k less_hlc_def table_simps del: insert_iff) simp
  then show ?thesis using es ap by (simp add: Let_def)
qed

section \<open>Reading the newest events\<close>

text \<open>
  \<^verbatim>\<open>Events(limit)\<close> returns the newest events, oldest first: as many as the limit (100 when it
  is not positive) or as the log holds if fewer, in ascending order of stamps, each decoded
  from its own row, with every event left out at most as new as every event returned. It does
  not change the store.
\<close>
theorem Events_newest:
  assumes "Events C limit s = (Inr out, s')"
  shows "\<exists>rs. list_all2 (decodes C) rs out \<and>
      length out = min (if limit \<le> 0 then 100 else nat limit) (length (st_events s)) \<and>
      sorted (map ev_hlc out) \<and> mset rs \<subseteq># mset (st_events s) \<and>
      (\<forall>x \<in># mset (st_events s) - mset rs. \<forall>r \<in> set rs. er_hlc x \<le> er_hlc r) \<and> same_tables s s'"
proof -
  let ?n = "nat (if limit \<le> 0 then 100 else limit)"
  define L where "L = sort_key er_hlc (st_events s)"
  define k where "k = length L - ?n"
  have L: "mset L = mset (st_events s)" "length L = length (st_events s)" "sorted (map er_hlc L)"
    by (simp_all add: L_def)
  obtain fs es s1 where "decode_events C (take ?n (rev L)) [] (s\<lparr>st_faults := fs\<rparr>) = (Inr es, s1)"
      and o: "out = rev es" "s' = s1"
    using assms by (auto simp: Events_def Let_def bindE_Inr ret_def swap_loop_rev L_def dest!: query_Inr)
  then have same: "same_tables s s'" and "list_all2 (decodes C) (rev (drop k L)) es"
    by (simp_all add: take_rev k_def) (auto dest!: decode_events_Inr)
  then have dec: "list_all2 (decodes C) (drop k L) out"
    using o list_all2_rev [of "decodes C" "rev (drop k L)" es] by simp
  have len: "length out = length L - k"
    using list_all2_lengthD [OF dec] by simp
  have "sorted (map er_hlc (take k L) @ map er_hlc (drop k L))"
    using L(3) by (simp flip: map_append)
  then have sorted: "sorted (map ev_hlc out)" "\<forall>x \<in> set (take k L). \<forall>r \<in> set (drop k L). er_hlc x \<le> er_hlc r"
    using decodes_hlc [OF dec] by (auto simp: sorted_append)
  have "mset (take k L) + mset (drop k L) = mset (st_events s)"
    using L(1) by (metis append_take_drop_id mset_append)
  then have "mset (drop k L) \<subseteq># mset (st_events s)" "mset (st_events s) - mset (drop k L) = mset (take k L)"
    by (metis mset_subset_eq_add_right, metis add_diff_cancel_right')
  moreover have "length out = min (if limit \<le> 0 then 100 else nat limit) (length (st_events s))"
    using len L(2) by (auto simp: k_def)
  ultimately show ?thesis
    using dec sorted same by (intro exI [of _ "drop k L"]) simp
qed

theorem Events_newest_witness:
  "let er = (\<lambda>n t. event_to_row (ex_event ''r'' n t) n ''null'');
       s = empty_disk\<lparr>st_events := [er 1 5, er 2 9, er 3 7]\<rparr>
   in \<exists>out s'. Events null_codec 2 s = (Inr out, s') \<and> length out = 2 \<and> sorted (map ev_hlc out)"
proof -
  let ?er = "\<lambda>n t. event_to_row (ex_event ''r'' n t) n ''null''"
  let ?s = "empty_disk\<lparr>st_events := [?er 1 5, ?er 2 9, ?er 3 7]\<rparr>"
  have h: "healthy ?s" by (simp add: healthy_def empty_disk_def)
  have k: "er_hlc (?er n t) = HLC t 0" for n t by (simp add: event_to_row_def)
  obtain out s' where e: "Events null_codec 2 ?s = (Inr out, s')"
    using h by (simp add: Events_def Let_def db_simps k less_eq_hlc_def less_hlc_def
        decode_events_healthy [where es = "[ex_event ''r'' 2 9, ex_event ''r'' 3 7]"] del: decode_events.simps)
  then show ?thesis
    using Events_newest [OF e] by (auto simp: Let_def)
qed

end
