(* ===== verification/Checksum.thy ===== *)
theory Checksum
  imports Store_Events
begin

text \<open>
  The checksums of \<^verbatim>\<open>internal/engine/store/store.go\<close> (\<^verbatim>\<open>Checksum\<close>, \<^verbatim>\<open>ChecksumEvents\<close>): the XOR over
  the live rows of a kind, or over the events, of the FNV-1a hash of the key and the two
  numbers of the stamp, in 64-bit arithmetic that wraps.

  The lemmas show what the checksum is good for (it depends on the set of rows only, and one
  row more or less changes it) and what it does not see.
\<close>

unbundle bit_operations_syntax

type_synonym uint64 = "64 word"

section \<open>Hashing\<close>

definition fnv_offset :: uint64 where "fnv_offset = 14695981039346656037"
definition fnv_prime :: uint64 where "fnv_prime = 1099511628211"

fun key_hash :: "string \<Rightarrow> uint64 \<Rightarrow> uint64" where
  "key_hash [] kHash = kHash"
| "key_hash (c # key) kHash = key_hash key ((kHash XOR of_nat (of_char c)) * fnv_prime)"

definition stamp_hash :: "string \<Rightarrow> hlc \<Rightarrow> uint64" where
  "stamp_hash key h = key_hash key fnv_offset XOR word_of_int (TS h) XOR word_of_int (Seq h)"

primrec xor_loop :: "(string \<times> hlc) list \<Rightarrow> uint64 \<Rightarrow> uint64" where
  "xor_loop [] hash = hash"
| "xor_loop (r # rs) hash = xor_loop rs (hash XOR stamp_hash (fst r) (snd r))"

definition Checksum :: "kind \<Rightarrow> uint64 op" where
  "Checksum kind =
     bindE (query_rows (\<lambda>s. map (\<lambda>r. (r_key r, r_hlc r))
             (filter (\<lambda>r. r_kind r = kind \<and> \<not> r_tombstone r) (st_rows s))))
       (\<lambda>rows. ret (xor_loop rows 0))"

text \<open>\<^verbatim>\<open>fmt.Sprintf("%s/%d", runnerID, seq)\<close>\<close>

definition digit :: "nat \<Rightarrow> char" where
  "digit n = char_of (48 + n)"

fun dec_nat :: "nat \<Rightarrow> string" where
  "dec_nat n = (if n < 10 then [digit n] else dec_nat (n div 10) @ [digit (n mod 10)])"

declare dec_nat.simps [simp del]

definition dec_int :: "int \<Rightarrow> string" where
  "dec_int i = (if i < 0 then CHR ''-'' # dec_nat (nat (- i)) else dec_nat (nat i))"

definition event_key :: "string \<Rightarrow> int \<Rightarrow> string" where
  "event_key runnerID seq = runnerID @ ''/'' @ dec_int seq"

definition ChecksumEvents :: "uint64 op" where
  "ChecksumEvents =
     bindE (query_rows (\<lambda>s. map (\<lambda>r. (event_key (er_runner_id r) (er_seq r), er_hlc r)) (st_events s)))
       (\<lambda>rows. ret (xor_loop rows 0))"

section \<open>The checksum as a sum over a multiset\<close>

lemma xor_loop_acc: "xor_loop rs h = h XOR xor_loop rs 0"
proof (induction rs arbitrary: h)
  case (Cons r rs)
  show ?case
    using Cons [of "h XOR stamp_hash (fst r) (snd r)"] Cons [of "stamp_hash (fst r) (snd r)"]
    by (simp add: xor.assoc)
qed simp

lemma xor_loop_Cons: "xor_loop (r # rs) 0 = stamp_hash (fst r) (snd r) XOR xor_loop rs 0"
  by (simp add: xor_loop_acc [of rs "stamp_hash (fst r) (snd r)"])

lemma xor_loop_append: "xor_loop (rs @ qs) 0 = xor_loop rs 0 XOR xor_loop qs 0"
proof (induction rs)
  case (Cons r rs)
  then show ?case by (simp only: append_Cons xor_loop_Cons xor.assoc)
qed simp

lemma xor_loop_fold: "xor_loop rs h = fold (\<lambda>r h. h XOR stamp_hash (fst r) (snd r)) rs h"
  by (induction rs arbitrary: h) simp_all

lemma xor_loop_mset: "mset rs = mset qs \<Longrightarrow> xor_loop rs h = xor_loop qs h"
  unfolding xor_loop_fold
  by (rule fun_cong [OF fold_multiset_equiv]) (auto simp: fun_eq_iff ac_simps xor.left_commute)

lemma xor_cancel: "(a XOR b = a XOR c) = (b = (c :: 'a :: len word))"
  by (metis xor.assoc xor.left_neutral xor_self_eq)

lemma xor_cancel_right: "(b XOR a = c XOR a) = (b = (c :: 'a :: len word))"
  using xor_cancel [of a b c] by (simp add: xor.commute)

lemma word_of_int64_inj:
  assumes "in64 a" "in64 b" "word_of_int a = (word_of_int b :: uint64)"
  shows "a = b"
proof -
  have "signed_take_bit 63 a = signed_take_bit 63 b"
    using assms(3) by (simp add: word_of_int_eq_iff signed_take_bit_eq_iff_take_bit_eq)
  then show ?thesis
    using assms(1,2) by (simp add: in64_def min64_def max64_def signed_take_bit_int_eq_self)
qed

definition live_stamps :: "kind \<Rightarrow> row list \<Rightarrow> (string \<times> hlc) list" where
  "live_stamps kind t = map (\<lambda>r. (r_key r, r_hlc r)) (filter (\<lambda>r. r_kind r = kind \<and> \<not> r_tombstone r) t)"

definition event_stamps :: "event_row list \<Rightarrow> (string \<times> hlc) list" where
  "event_stamps es = map (\<lambda>r. (event_key (er_runner_id r) (er_seq r), er_hlc r)) es"

lemma Checksum_Inr:
  "Checksum kind s = (Inr h, s') \<Longrightarrow> h = xor_loop (live_stamps kind (st_rows s)) 0 \<and> same_tables s s'"
  by (auto simp: Checksum_def bindE_Inr ret_def live_stamps_def dest!: query_rows_Inr)

lemma Checksum_healthy [db_simps]:
  "healthy s \<Longrightarrow> Checksum kind s = (Inr (xor_loop (live_stamps kind (st_rows s)) 0), s)"
  by (simp add: Checksum_def db_simps live_stamps_def)

lemma ChecksumEvents_Inr:
  "ChecksumEvents s = (Inr h, s') \<Longrightarrow> h = xor_loop (event_stamps (st_events s)) 0 \<and> same_tables s s'"
  by (auto simp: ChecksumEvents_def bindE_Inr ret_def event_stamps_def dest!: query_rows_Inr)

lemma ChecksumEvents_healthy [db_simps]:
  "healthy s \<Longrightarrow> ChecksumEvents s = (Inr (xor_loop (event_stamps (st_events s)) 0), s)"
  by (simp add: ChecksumEvents_def db_simps event_stamps_def)

lemma live_stamps_cong:
  "tbl_wf row_pk t \<Longrightarrow> tbl_wf row_pk u \<Longrightarrow> set t = set u \<Longrightarrow> mset (live_stamps k t) = mset (live_stamps k u)"
  by (simp add: live_stamps_def mset_filter mset_tbl_eq [of row_pk t u])

lemma event_stamps_cong:
  "tbl_wf event_pk t \<Longrightarrow> tbl_wf event_pk u \<Longrightarrow> set t = set u \<Longrightarrow> mset (event_stamps t) = mset (event_stamps u)"
  by (simp add: event_stamps_def mset_tbl_eq [of event_pk t u])

section \<open>What the checksum sees\<close>

text \<open>
  The checksum of a replica depends on the set of its rows only: two stores that hold the
  same rows and events, in whatever order they were written, have the same checksum of every
  kind and of the events.
\<close>
theorem checksums_agree:
  assumes "store_wf s" "store_wf t" "set (st_rows s) = set (st_rows t)" "set (st_events s) = set (st_events t)"
  shows "(Checksum k s = (Inr h, s') \<and> Checksum k t = (Inr h', t') \<longrightarrow> h = h') \<and>
    (ChecksumEvents s = (Inr e, s'') \<and> ChecksumEvents t = (Inr e', t'') \<longrightarrow> e = e')"
proof -
  have "xor_loop (live_stamps k (st_rows s)) 0 = xor_loop (live_stamps k (st_rows t)) 0"
    "xor_loop (event_stamps (st_events s)) 0 = xor_loop (event_stamps (st_events t)) 0"
    using assms by (simp_all add: store_wf_def xor_loop_mset [OF live_stamps_cong] xor_loop_mset [OF event_stamps_cong])
  then show ?thesis by (auto dest!: Checksum_Inr ChecksumEvents_Inr)
qed

theorem checksums_agree_witness:
  "let rs = [ex_row ''a'' ''x'' 5, ex_row ''b'' ''x'' 6]
   in fst (Checksum KindRunner (empty_disk\<lparr>st_rows := rs\<rparr>)) = fst (Checksum KindRunner (empty_disk\<lparr>st_rows := rev rs\<rparr>))"
proof -
  let ?s = "empty_disk\<lparr>st_rows := [ex_row ''a'' ''x'' 5, ex_row ''b'' ''x'' 6]\<rparr>"
  let ?t = "empty_disk\<lparr>st_rows := [ex_row ''b'' ''x'' 6, ex_row ''a'' ''x'' 5]\<rparr>"
  have h: "healthy ?s" "healthy ?t" "store_wf ?s" "store_wf ?t"
    by (simp_all add: healthy_def empty_disk_def store_wf_def)
  obtain a b where "Checksum KindRunner ?s = (Inr a, ?s)" "Checksum KindRunner ?t = (Inr b, ?t)"
    using Checksum_healthy h by blast
  moreover from this have "a = b"
    using checksums_agree [OF h(3,4)] by (auto simp: insert_commute)
  ultimately show ?thesis by (simp add: Let_def)
qed

lemma digit_inj: "m < 10 \<Longrightarrow> n < 10 \<Longrightarrow> digit m = digit n \<longleftrightarrow> m = n"
  by (auto simp: digit_def char_of_eq_iff take_bit_eq_mod)

lemma digit_sep: "m < 10 \<Longrightarrow> digit m \<noteq> CHR ''/'' \<and> digit m \<noteq> CHR ''-''"
  by (auto simp: digit_def char_of_eq_iff take_bit_eq_mod)

lemma dec_nat_chars: "c \<in> set (dec_nat n) \<Longrightarrow> c \<noteq> CHR ''/'' \<and> c \<noteq> CHR ''-''"
proof (induction n rule: dec_nat.induct)
  case (1 n)
  then show ?case
    by (cases "n < 10") (auto simp: dec_nat.simps [of n] digit_sep)
qed

lemma dec_nat_inj: "dec_nat m = dec_nat n \<Longrightarrow> m = n"
proof (induction m arbitrary: n rule: dec_nat.induct)
  case (1 m)
  have ne: "dec_nat k \<noteq> []" for k by (subst dec_nat.simps) simp
  show ?case
  proof (cases "m < 10 \<or> n < 10")
    case True
    then show ?thesis
      using 1(2) ne [of "m div 10"] ne [of "n div 10"]
      by (auto simp: dec_nat.simps [of m] dec_nat.simps [of n] digit_inj split: if_splits)
  next
    case False
    then have "m div 10 = n div 10" "m mod 10 = n mod 10"
      using 1 by (auto simp: dec_nat.simps [of m] dec_nat.simps [of n] digit_inj)
    then show ?thesis by (metis div_mult_mod_eq)
  qed
qed

lemma dec_int_inj: "dec_int i = dec_int j \<Longrightarrow> i = j"
proof -
  have "CHR ''-'' # xs \<noteq> dec_nat n" for xs n
    using dec_nat_chars [of "CHR ''-''" n] by (metis list.set_intros(1))
  then show "dec_int i = dec_int j \<Longrightarrow> i = j"
    by (auto simp: dec_int_def split: if_splits dest!: dec_nat_inj) metis
qed

lemma append_sep_inj:
  "x \<notin> set b \<Longrightarrow> x \<notin> set d \<Longrightarrow> a @ x # b = c @ x # d \<longleftrightarrow> a = c \<and> b = d"
  by (auto simp: append_eq_append_conv2 Cons_eq_append_conv append_eq_Cons_conv)

lemma dec_int_no_slash: "CHR ''/'' \<notin> set (dec_int i)"
  using dec_nat_chars by (auto simp: dec_int_def)

text \<open>
  The key under which an event is hashed identifies the event: different pairs of runner id
  and number give different keys, whatever bytes the runner id contains.
\<close>
theorem event_key_injective:
  "event_key rid i = event_key rid' j \<longleftrightarrow> rid = rid' \<and> i = j"
  by (auto simp: event_key_def append_sep_inj [OF dec_int_no_slash dec_int_no_slash] dest: dec_int_inj)

text \<open>
  The difference of two checksums is the checksum of what one has and the other has not; in
  particular one live row more changes the checksum unless the row hashes to zero.
\<close>

lemma Checksum_one_more:
  assumes "Checksum k s = (Inr h, s')" "Checksum k t = (Inr h', t')"
    and "mset (st_rows t) = add_mset r (mset (st_rows s))" "r_kind r = k" "\<not> r_tombstone r"
  shows "h' = stamp_hash (r_key r) (r_hlc r) XOR h"
proof -
  have "mset (live_stamps k (st_rows t)) = mset (live_stamps k (r # st_rows s))"
    using assms(3) by (simp add: live_stamps_def)
  then have "xor_loop (live_stamps k (st_rows t)) 0 = xor_loop (live_stamps k (r # st_rows s)) 0"
    by (rule xor_loop_mset)
  also have "\<dots> = stamp_hash (r_key r) (r_hlc r) XOR xor_loop (live_stamps k (st_rows s)) 0"
    using assms(4,5) by (simp add: live_stamps_def xor_loop_Cons del: xor_loop.simps)
  finally show ?thesis
    using Checksum_Inr [OF assms(1)] Checksum_Inr [OF assms(2)] by simp
qed

text \<open>
  A single missing or stale row is detected. If one store lacks exactly one live row of the
  other, or holds an older version of it, the checksums of that kind differ, except when the
  hash of the row (of the two versions, their difference) vanishes; when only the time of the
  stamp changes between the versions, it never does.
\<close>
theorem Checksum_detects_one:
  assumes "Checksum k s = (Inr h, s')" "Checksum k t = (Inr h', t')"
    and "r_kind r = k" "\<not> r_tombstone r"
  shows "(mset (st_rows t) = add_mset r (mset (st_rows s)) \<longrightarrow>
        (h = h' \<longleftrightarrow> stamp_hash (r_key r) (r_hlc r) = 0))
    \<and> (mset (st_rows s) = add_mset r M \<and> mset (st_rows t) = add_mset (r\<lparr>r_hlc := HLC ts (Seq (r_hlc r))\<rparr>) M \<and>
        in64 ts \<and> in64 (TS (r_hlc r)) \<and> ts \<noteq> TS (r_hlc r) \<longrightarrow> h \<noteq> h')"
proof (intro conjI impI)
  assume "mset (st_rows t) = add_mset r (mset (st_rows s))"
  then have "h' = stamp_hash (r_key r) (r_hlc r) XOR h"
    using Checksum_one_more [OF assms(1,2)] assms(3,4) by simp
  then show "h = h' \<longleftrightarrow> stamp_hash (r_key r) (r_hlc r) = 0"
    using xor_cancel [of h 0 "stamp_hash (r_key r) (r_hlc r)"] by (auto simp: xor.commute)
next
  assume *: "mset (st_rows s) = add_mset r M \<and> mset (st_rows t) = add_mset (r\<lparr>r_hlc := HLC ts (Seq (r_hlc r))\<rparr>) M \<and>
    in64 ts \<and> in64 (TS (r_hlc r)) \<and> ts \<noteq> TS (r_hlc r)"
  obtain m where m: "mset m = M" using ex_mset by blast
  let ?r = "r\<lparr>r_hlc := HLC ts (Seq (r_hlc r))\<rparr>"
  have "mset (live_stamps k (st_rows s)) = mset (live_stamps k (r # m))"
    "mset (live_stamps k (st_rows t)) = mset (live_stamps k (?r # m))"
    using * m by (simp_all add: live_stamps_def)
  then have "h = xor_loop (live_stamps k (r # m)) 0" "h' = xor_loop (live_stamps k (?r # m)) 0"
    using Checksum_Inr [OF assms(1)] Checksum_Inr [OF assms(2)] xor_loop_mset by metis+
  then have h: "h = stamp_hash (r_key r) (r_hlc r) XOR xor_loop (live_stamps k m) 0"
    "h' = stamp_hash (r_key r) (HLC ts (Seq (r_hlc r))) XOR xor_loop (live_stamps k m) 0"
    using assms(3,4) by (simp_all add: live_stamps_def xor_loop_Cons del: xor_loop.simps)
  have "word_of_int ts \<noteq> (word_of_int (TS (r_hlc r)) :: uint64)"
    using * word_of_int64_inj by blast
  then show "h \<noteq> h'"
    unfolding h stamp_hash_def by (simp add: xor.commute [of _ "xor_loop _ _"] xor.assoc xor_cancel)
       (simp add: xor.commute [of _ "word_of_int (Seq (r_hlc r))"] xor_cancel)
qed

theorem Checksum_detects_one_witness:
  "let s = empty_disk\<lparr>st_rows := [ex_row ''a'' ''x'' 5]\<rparr>; t = empty_disk\<lparr>st_rows := [ex_row ''a'' ''x'' 6]\<rparr>
   in \<exists>h h'. Checksum KindRunner s = (Inr h, s) \<and> Checksum KindRunner t = (Inr h', t) \<and> h \<noteq> h'"
proof -
  let ?s = "empty_disk\<lparr>st_rows := [ex_row ''a'' ''x'' 5]\<rparr>" and ?t = "empty_disk\<lparr>st_rows := [ex_row ''a'' ''x'' 6]\<rparr>"
  have h: "healthy ?s" "healthy ?t" by (simp_all add: healthy_def empty_disk_def)
  obtain a b where c: "Checksum KindRunner ?s = (Inr a, ?s)" "Checksum KindRunner ?t = (Inr b, ?t)"
    using Checksum_healthy h by blast
  have "(ex_row ''a'' ''x'' 5)\<lparr>r_hlc := HLC 6 0\<rparr> = ex_row ''a'' ''x'' 6" by (simp add: ex_row_def)
  then have "a \<noteq> b"
    using Checksum_detects_one [OF c, of "ex_row ''a'' ''x'' 5" "{#}" 6] by (simp add: in64_def min64_def max64_def)
  then show ?thesis using c by (simp add: Let_def)
qed

section \<open>What the checksum does not see\<close>

text \<open>
  Equal checksums do not mean equal replicas. Exchanging the stamps of two live rows of a
  kind, and changing their owners and payloads at will, leaves the checksum as it was; so does
  exchanging the time and the counter of a stamp. The architecture document takes matching
  checksums to mean that everything is in sync.
\<close>
theorem Checksum_blind:
  assumes "Checksum k s = (Inr h, s')" "Checksum k t = (Inr h', t')"
    and "r_kind a = k" "r_kind b = k" "\<not> r_tombstone a" "\<not> r_tombstone b"
    and "mset (st_rows s) = {#a, b#} + M"
    and "mset (st_rows t) = {#a\<lparr>r_hlc := r_hlc b, r_owner := w, r_payload := p\<rparr>, b\<lparr>r_hlc := r_hlc a\<rparr>#} + M \<or>
         mset (st_rows t) = {#a\<lparr>r_hlc := HLC (Seq (r_hlc a)) (TS (r_hlc a))\<rparr>, b#} + M"
  shows "h = h'"
proof -
  obtain m where m: "mset m = M" using ex_mset by blast
  have xor3: "x XOR (y XOR z) = x' XOR (y' XOR z) \<longleftrightarrow> x XOR y = x' XOR y'" for x y z x' y' :: uint64
    by (simp only: xor.assoc [symmetric] xor_cancel_right)
  have sum: "fst (Checksum k u) = Inr g \<Longrightarrow> mset (st_rows u) = mset (c # d # m) \<Longrightarrow> r_kind c = k \<Longrightarrow> r_kind d = k \<Longrightarrow>
      \<not> r_tombstone c \<Longrightarrow> \<not> r_tombstone d \<Longrightarrow>
      g = stamp_hash (r_key c) (r_hlc c) XOR (stamp_hash (r_key d) (r_hlc d) XOR xor_loop (live_stamps k m) 0)" for u g c d
  proof -
    assume u: "fst (Checksum k u) = Inr g" "mset (st_rows u) = mset (c # d # m)" "r_kind c = k" "r_kind d = k"
      "\<not> r_tombstone c" "\<not> r_tombstone d"
    have "mset (live_stamps k (st_rows u)) = mset (live_stamps k (c # d # m))"
      using u(2) by (simp add: live_stamps_def)
    then have "g = xor_loop (live_stamps k (c # d # m)) 0"
      using u(1) Checksum_Inr [of k u g] xor_loop_mset by (metis surjective_pairing)
    then show ?thesis
      using u(3-) by (simp add: live_stamps_def xor_loop_Cons del: xor_loop.simps)
  qed
  have s: "h = stamp_hash (r_key a) (r_hlc a) XOR (stamp_hash (r_key b) (r_hlc b) XOR xor_loop (live_stamps k m) 0)"
    by (rule sum [of s]) (use assms m in simp_all)
  from assms(8) show ?thesis
  proof
    let ?a = "a\<lparr>r_hlc := r_hlc b, r_owner := w, r_payload := p\<rparr>" and ?b = "b\<lparr>r_hlc := r_hlc a\<rparr>"
    assume "mset (st_rows t) = {#?a, ?b#} + M"
    then have "h' = stamp_hash (r_key a) (r_hlc b) XOR (stamp_hash (r_key b) (r_hlc a) XOR xor_loop (live_stamps k m) 0)"
      using sum [of t h' ?a ?b] assms m by simp
    then show ?thesis unfolding s by (simp only: xor3) (simp add: stamp_hash_def ac_simps)
  next
    let ?a = "a\<lparr>r_hlc := HLC (Seq (r_hlc a)) (TS (r_hlc a))\<rparr>"
    assume "mset (st_rows t) = {#?a, b#} + M"
    then have "h' = stamp_hash (r_key a) (r_hlc ?a) XOR (stamp_hash (r_key b) (r_hlc b) XOR xor_loop (live_stamps k m) 0)"
      using sum [of t h' ?a b] assms m by simp
    then show ?thesis unfolding s by (simp only: xor3) (simp add: stamp_hash_def ac_simps)
  qed
qed

theorem Checksum_blind_witness:
  "let s = empty_disk\<lparr>st_rows := [ex_row ''a'' ''x'' 5, ex_row ''b'' ''x'' 6]\<rparr>;
       t = empty_disk\<lparr>st_rows := [ex_row ''a'' ''y'' 6, ex_row ''b'' ''x'' 5]\<rparr>
   in fst (Checksum KindRunner s) = fst (Checksum KindRunner t) \<and> set (st_rows s) \<noteq> set (st_rows t)"
proof -
  let ?s = "empty_disk\<lparr>st_rows := [ex_row ''a'' ''x'' 5, ex_row ''b'' ''x'' 6]\<rparr>"
  let ?t = "empty_disk\<lparr>st_rows := [ex_row ''a'' ''y'' 6, ex_row ''b'' ''x'' 5]\<rparr>"
  have h: "healthy ?s" "healthy ?t" by (simp_all add: healthy_def empty_disk_def)
  obtain c d where c: "Checksum KindRunner ?s = (Inr c, ?s)" "Checksum KindRunner ?t = (Inr d, ?t)"
    using Checksum_healthy h by blast
  have "c = d"
    using Checksum_blind [OF c, of "ex_row ''a'' ''x'' 5" "ex_row ''b'' ''x'' 6" "{#}" "''y''" "''y''"]
    by (simp add: ex_row_def)
  then show ?thesis using c by (simp add: Let_def doubleton_eq_iff)
qed

end
