(* ===== verification/Metrics.thy ===== *)
theory Metrics
  imports Checksum "HOL-Library.AList"
begin

text \<open>
  \<^verbatim>\<open>internal/metrics/metrics.go\<close>: counters and timers over wrapping unsigned 64-bit integers, the
  counters per HTTP status, and the package's variables as one record.
\<close>

type_synonym counter = uint64

definition counter_add :: "uint64 \<Rightarrow> counter \<Rightarrow> counter" where
  "counter_add v c = c + v"

definition counter_inc :: "counter \<Rightarrow> counter" where
  "counter_inc c = counter_add 1 c"

record timer =
  tm_count :: uint64
  tm_total :: uint64

text \<open>\<^verbatim>\<open>Observe\<close> converts the signed number of nanoseconds to an unsigned one.\<close>

definition timer_observe :: "int \<Rightarrow> timer \<Rightarrow> timer" where
  "timer_observe ns t = \<lparr>tm_count = tm_count t + 1, tm_total = tm_total t + word_of_int ns\<rparr>"

text \<open>The map from statuses to counters; the zero value is a nil map, which reads as empty.\<close>

type_synonym status_counters = "(int \<times> counter) list option"

definition status_inc :: "int \<Rightarrow> status_counters \<Rightarrow> status_counters" where
  "status_inc status s =
     (let values = (case s of None \<Rightarrow> [] | Some v \<Rightarrow> v) in
      Some (case map_of values status of
          None \<Rightarrow> AList.update status (counter_inc 0) values
        | Some c \<Rightarrow> AList.update status (counter_inc c) values))"

definition status_load :: "status_counters \<Rightarrow> int \<Rightarrow> counter" where
  "status_load s status =
     (case s of None \<Rightarrow> 0 | Some v \<Rightarrow> (case map_of v status of None \<Rightarrow> 0 | Some c \<Rightarrow> c))"

record metrics =
  HTTPRequests :: status_counters
  PlacementRequests :: counter
  PlacementErrors :: counter
  PlacementLatency :: timer
  SyncRounds :: counter
  SyncRoundErrors :: counter
  SyncRoundLatency :: timer
  SyncRowsApplied :: counter
  SyncEventsApplied :: counter
  SyncChecksumMismatches :: counter
  SyncEventChecksumMismatches :: counter

definition metrics_zero :: metrics where
  "metrics_zero = \<lparr>HTTPRequests = None, PlacementRequests = 0, PlacementErrors = 0,
     PlacementLatency = \<lparr>tm_count = 0, tm_total = 0\<rparr>, SyncRounds = 0, SyncRoundErrors = 0,
     SyncRoundLatency = \<lparr>tm_count = 0, tm_total = 0\<rparr>, SyncRowsApplied = 0, SyncEventsApplied = 0,
     SyncChecksumMismatches = 0, SyncEventChecksumMismatches = 0\<rparr>"

lemma status_load_inc: "status_load (status_inc st s) q = status_load s q + (if q = st then 1 else 0)"
  by (auto simp: status_load_def status_inc_def counter_inc_def counter_add_def Let_def update_conv'
      split: option.splits)

lemma status_load_incs:
  "status_load (fold status_inc sts s) q = status_load s q + of_nat (count_list sts q)"
  by (induction sts arbitrary: s) (auto simp: status_load_inc)

end
