(* ===== verification/Transport.thy ===== *)
theory Transport
  imports Metrics
begin

text \<open>
  \<^verbatim>\<open>internal/transport\<close>: the messages of the pull protocol (\<^verbatim>\<open>pb\<close>), the server's \<^verbatim>\<open>Pull\<close>, and the
  client with its cache of connections. gRPC itself is an argument, the record \<open>net\<close>.

  The state of a node is the record \<open>node\<close>: its store, its clock, its counters, and the
  connections of its client. Pointers to a message (\<^verbatim>\<open>*pb.HLC\<close>) are options.
\<close>

section \<open>Nodes\<close>

record node =
  nd_store :: store
  nd_clock :: clock
  nd_metrics :: metrics
  nd_conns :: "nat gomap"

type_synonym 'a node_op = "(node, 'a) st_op"

definition on_store :: "'a op \<Rightarrow> 'a node_op" where
  "on_store m n = (case m (nd_store n) of (res, s) \<Rightarrow> (res, n\<lparr>nd_store := s\<rparr>))"

definition on_metrics :: "(metrics \<Rightarrow> metrics) \<Rightarrow> unit node_op" where
  "on_metrics f n = (Inr (), n\<lparr>nd_metrics := f (nd_metrics n)\<rparr>)"

definition on_clock :: "(clock \<Rightarrow> clock) \<Rightarrow> unit node_op" where
  "on_clock f n = (Inr (), n\<lparr>nd_clock := f (nd_clock n)\<rparr>)"

definition clock_tick :: "int \<Rightarrow> hlc node_op" where
  "clock_tick now n = (let (h, c) = tick now (nd_clock n) in (Inr h, n\<lparr>nd_clock := c\<rparr>))"

section \<open>Messages\<close>

record pb_row =
  pr_kind :: string
  pr_key :: string
  pr_owner :: string
  pr_hlc :: "hlc option"
  pr_tombstone :: bool
  pr_payload :: string

record pb_event =
  pe_runner_id :: string
  pe_seq :: int
  pe_type :: string
  pe_payload :: string
  pe_hlc :: "hlc option"

record pull_request =
  rq_watermarks :: "hlc option gomap"
  rq_checksums :: "uint64 gomap option"
  rq_event_watermark :: "hlc option"
  rq_event_checksum :: uint64

record pull_response =
  rs_node_id :: string
  rs_rows :: "pb_row list"
  rs_checksums :: "uint64 gomap"
  rs_events :: "pb_event list"
  rs_event_checksum :: uint64

section \<open>The server\<close>

definition row_to_pb :: "row \<Rightarrow> pb_row" where
  "row_to_pb r = \<lparr>pr_kind = r_kind r, pr_key = r_key r, pr_owner = r_owner r, pr_hlc = Some (r_hlc r),
     pr_tombstone = r_tombstone r, pr_payload = r_payload r\<rparr>"

text \<open>The error of \<^verbatim>\<open>json.Marshal\<close> is dropped; the payload is then empty.\<close>

definition event_to_pb :: "codec \<Rightarrow> event \<Rightarrow> pb_event" where
  "event_to_pb C e = \<lparr>pe_runner_id = ev_runner_id e, pe_seq = ev_seq e, pe_type = ev_type e,
     pe_payload = (case marshal C (any_map_json (ev_payload e)) of Inl _ \<Rightarrow> [] | Inr pl \<Rightarrow> pl),
     pe_hlc = Some (ev_hlc e)\<rparr>"

definition req_watermark :: "pull_request \<Rightarrow> kind \<Rightarrow> hlc" where
  "req_watermark req kind = (case gm_get (rq_watermarks req) kind of Some (Some h) \<Rightarrow> h | _ \<Rightarrow> hlc_zero)"

definition req_checksum :: "pull_request \<Rightarrow> kind \<Rightarrow> uint64" where
  "req_checksum req kind =
     (case rq_checksums req of
        None \<Rightarrow> 0
      | Some m \<Rightarrow> (case gm_get m kind of None \<Rightarrow> 0 | Some c \<Rightarrow> c))"

definition pull_kind :: "pull_request \<Rightarrow> kind \<Rightarrow> pull_response \<Rightarrow> pull_response node_op" where
  "pull_kind req kind resp =
     (let wm = req_watermark req kind in
      bindE (on_store (Checksum kind)) (\<lambda>chk.
      let resp = resp\<lparr>rs_checksums := gm_put kind chk (rs_checksums resp)\<rparr>;
          reqChk = req_checksum req kind in
      bindE (on_store (ChangesSince kind wm)) (\<lambda>rows.
      bindE (if rows = [] \<and> reqChk \<noteq> 0 \<and> reqChk \<noteq> chk
             then bindE (on_metrics (\<lambda>m. m\<lparr>SyncChecksumMismatches := counter_inc (SyncChecksumMismatches m)\<rparr>))
                    (\<lambda>_. on_store (ChangesSince kind hlc_zero))
             else ret rows) (\<lambda>rows.
      ret (resp\<lparr>rs_rows := rs_rows resp @ map row_to_pb rows\<rparr>)))))"

primrec pull_kinds :: "pull_request \<Rightarrow> kind list \<Rightarrow> pull_response \<Rightarrow> pull_response node_op" where
  "pull_kinds req [] resp = ret resp"
| "pull_kinds req (k # ks) resp = bindE (pull_kind req k resp) (pull_kinds req ks)"

definition pull_events :: "codec \<Rightarrow> pull_request \<Rightarrow> pull_response \<Rightarrow> pull_response node_op" where
  "pull_events C req resp =
     (let evWm = (case rq_event_watermark req of None \<Rightarrow> hlc_zero | Some h \<Rightarrow> h) in
      bindE (on_store ChecksumEvents) (\<lambda>evChk.
      let resp = resp\<lparr>rs_event_checksum := evChk\<rparr> in
      bindE (on_store (EventsSince C evWm)) (\<lambda>evs.
      bindE (if evs = [] \<and> rq_event_checksum req \<noteq> 0 \<and> rq_event_checksum req \<noteq> evChk
             then bindE (on_metrics (\<lambda>m. m\<lparr>SyncEventChecksumMismatches := counter_inc (SyncEventChecksumMismatches m)\<rparr>))
                    (\<lambda>_. on_store (EventsSince C hlc_zero))
             else ret evs) (\<lambda>evs.
      ret (resp\<lparr>rs_events := rs_events resp @ map (event_to_pb C) evs\<rparr>)))))"

definition server_Pull :: "codec \<Rightarrow> string \<Rightarrow> pull_request \<Rightarrow> pull_response node_op" where
  "server_Pull C nodeID req =
     (let resp = \<lparr>rs_node_id = nodeID, rs_rows = [], rs_checksums = [], rs_events = [], rs_event_checksum = 0\<rparr> in
      bindE (pull_kinds req Kinds resp) (pull_events C req))"

section \<open>The client\<close>

datatype conn_state = Idle | Connecting | Ready | TransientFailure | Shutdown

record net =
  net_state :: "nat \<Rightarrow> conn_state"
  net_dial :: "string \<Rightarrow> error + nat"
  net_close :: "nat \<Rightarrow> error option"
  net_call :: "nat \<Rightarrow> pull_request \<Rightarrow> error + pull_response"

definition gm_del :: "string \<Rightarrow> 'v gomap \<Rightarrow> 'v gomap" where
  "gm_del k m = filter (\<lambda>e. fst e \<noteq> k) m"

definition NewClient_timeout :: "int \<Rightarrow> int" where
  "NewClient_timeout timeout = (if timeout \<le> 0 then 5 * 1000000000 else timeout)"

definition client_conn :: "net \<Rightarrow> string \<Rightarrow> nat node_op" where
  "client_conn N addr n =
     (let dial = (\<lambda>n. case net_dial N addr of
                    Inl e \<Rightarrow> (Inl e, n)
                  | Inr cc \<Rightarrow> (Inr cc, n\<lparr>nd_conns := gm_put addr cc (nd_conns n)\<rparr>)) in
      case gm_get (nd_conns n) addr of
        Some cc \<Rightarrow>
          if net_state N cc \<noteq> Shutdown \<and> net_state N cc \<noteq> TransientFailure then (Inr cc, n)
          else dial (n\<lparr>nd_conns := gm_del addr (nd_conns n)\<rparr>)
      | None \<Rightarrow> dial n)"

definition client_Pull ::
  "net \<Rightarrow> string \<Rightarrow> hlc gomap \<Rightarrow> uint64 gomap \<Rightarrow> hlc \<Rightarrow> uint64 \<Rightarrow> pull_response node_op" where
  "client_Pull N addr watermarks checksums eventWm eventChk =
     bindE (client_conn N addr) (\<lambda>cc n.
       let req = \<lparr>rq_watermarks = map (\<lambda>(k, h). (k, Some h)) watermarks, rq_checksums = Some checksums,
                  rq_event_watermark = Some eventWm, rq_event_checksum = eventChk\<rparr>
       in (net_call N cc req, n))"

text \<open>\<^verbatim>\<open>Close\<close> closes and forgets every connection and returns the first error it met.\<close>

fun close_all :: "net \<Rightarrow> (string \<times> nat) list \<Rightarrow> error option \<Rightarrow> error option" where
  "close_all N [] first = first"
| "close_all N (c # cs) first =
     close_all N cs (case net_close N (snd c) of
        None \<Rightarrow> first
      | Some e \<Rightarrow> (if first = None then Some e else first))"

definition client_Close :: "net \<Rightarrow> node \<Rightarrow> error option \<times> node" where
  "client_Close N n = (close_all N (nd_conns n) None, n\<lparr>nd_conns := []\<rparr>)"

section \<open>What the server answers\<close>

lemma on_store_Inr:
  "on_store m n = (Inr x, n') \<longleftrightarrow> (\<exists>s. m (nd_store n) = (Inr x, s) \<and> n' = n\<lparr>nd_store := s\<rparr>)"
  by (auto simp: on_store_def split: prod.splits)

lemma on_store_healthy [db_simps]:
  "m (nd_store n) = (Inr x, s) \<Longrightarrow> on_store m n = (Inr x, n\<lparr>nd_store := s\<rparr>)"
  by (simp add: on_store_def)

lemma on_metrics_simp [db_simps]: "on_metrics f n = (Inr (), n\<lparr>nd_metrics := f (nd_metrics n)\<rparr>)"
  by (simp add: on_metrics_def)

definition changes :: "kind \<Rightarrow> hlc \<Rightarrow> row list \<Rightarrow> row list" where
  "changes kind wm t = sort_key r_hlc (filter (\<lambda>r. r_kind r = kind \<and> wm < r_hlc r) t)"

lemma set_changes [simp]: "set (changes k wm t) = {r \<in> set t. r_kind r = k \<and> wm < r_hlc r}"
  by (auto simp: changes_def)

lemma ChangesSince_Inr:
  assumes "ChangesSince k wm s = (Inr out, s')"
  shows "out = changes k wm (st_rows s) \<and> same_tables s s'"
proof -
  have after: "(\<lambda>r. r_kind r = k \<and> (TS (r_hlc r) > TS wm \<or> TS (r_hlc r) = TS wm \<and> Seq (r_hlc r) > Seq wm)) =
      (\<lambda>r. r_kind r = k \<and> wm < r_hlc r)"
    by (auto simp: less_hlc_def fun_eq_iff)
  show ?thesis
    using assms unfolding ChangesSince_def after changes_def by (auto dest!: query_rows_Inr)
qed

lemma ChangesSince_changes [db_simps]:
  "healthy s \<Longrightarrow> ChangesSince k wm s = (Inr (changes k wm (st_rows s)), s)"
  by (simp add: ChangesSince_healthy changes_def)

definition answer_rows :: "pull_request \<Rightarrow> row list \<Rightarrow> kind \<Rightarrow> row list" where
  "answer_rows req t k =
     (if changes k (req_watermark req k) t = [] \<and> req_checksum req k \<noteq> 0 \<and>
         req_checksum req k \<noteq> xor_loop (live_stamps k t) 0
      then changes k hlc_zero t else changes k (req_watermark req k) t)"

definition event_changes :: "hlc \<Rightarrow> event_row list \<Rightarrow> event_row list" where
  "event_changes wm t = sort_key er_hlc (filter (\<lambda>r. wm < er_hlc r) t)"

definition req_event_wm :: "pull_request \<Rightarrow> hlc" where
  "req_event_wm req = (case rq_event_watermark req of None \<Rightarrow> hlc_zero | Some h \<Rightarrow> h)"

definition answer_events :: "pull_request \<Rightarrow> event_row list \<Rightarrow> event_row list" where
  "answer_events req t =
     (if event_changes (req_event_wm req) t = [] \<and> rq_event_checksum req \<noteq> 0 \<and>
         rq_event_checksum req \<noteq> xor_loop (event_stamps t) 0
      then event_changes hlc_zero t else event_changes (req_event_wm req) t)"

definition same_node :: "node \<Rightarrow> node \<Rightarrow> bool" where
  "same_node n n' \<longleftrightarrow> same_tables (nd_store n) (nd_store n') \<and> nd_clock n = nd_clock n' \<and> nd_conns n = nd_conns n'"

lemma same_node_refl [simp]: "same_node n n"
  by (simp add: same_node_def)

lemma same_node_trans [trans]: "same_node a b \<Longrightarrow> same_node b c \<Longrightarrow> same_node a c"
  by (auto simp: same_node_def intro: same_tables_trans)

lemma same_node_on_store [simp]: "same_node n (m\<lparr>nd_store := s\<rparr>) \<longleftrightarrow>
    same_tables (nd_store n) s \<and> nd_clock n = nd_clock m \<and> nd_conns n = nd_conns m"
  by (simp add: same_node_def)

lemma same_rows: "same_tables s s' \<Longrightarrow> st_rows s' = st_rows s \<and> st_events s' = st_events s"
  by (simp add: same_tables_def)

lemma pull_kind_Inr:
  assumes "pull_kind req k resp n = (Inr resp', n')"
  shows "rs_rows resp' = rs_rows resp @ map row_to_pb (answer_rows req (st_rows (nd_store n)) k) \<and>
    rs_events resp' = rs_events resp \<and> same_node n n'"
proof -
  let ?wm = "req_watermark req k"
  obtain chk n1 rows n2 rows' where c: "on_store (Checksum k) n = (Inr chk, n1)"
    and d: "on_store (ChangesSince k ?wm) n1 = (Inr rows, n2)"
    and e: "(if rows = [] \<and> req_checksum req k \<noteq> 0 \<and> req_checksum req k \<noteq> chk
             then bindE (on_metrics (\<lambda>m. m\<lparr>SyncChecksumMismatches := counter_inc (SyncChecksumMismatches m)\<rparr>))
                    (\<lambda>_. on_store (ChangesSince k hlc_zero))
             else ret rows) n2 = (Inr rows', n')"
    and r: "resp' = resp\<lparr>rs_checksums := gm_put k chk (rs_checksums resp), rs_rows := rs_rows resp @ map row_to_pb rows'\<rparr>"
    using assms by (clarsimp simp: pull_kind_def Let_def bindE_Inr) (simp add: ret_def)
  have c': "chk = xor_loop (live_stamps k (st_rows (nd_store n))) 0" "same_node n n1"
    using c by (auto simp: on_store_Inr dest!: Checksum_Inr)
  have d': "rows = changes k ?wm (st_rows (nd_store n1))" "same_node n1 n2"
    using d by (auto simp: on_store_Inr dest!: ChangesSince_Inr)
  have "rows' = (if rows = [] \<and> req_checksum req k \<noteq> 0 \<and> req_checksum req k \<noteq> chk
      then changes k hlc_zero (st_rows (nd_store n2)) else rows) \<and> same_node n2 n'"
    using e by (auto simp: on_store_Inr on_metrics_def bindE_Inr ret_def split: if_splits dest!: ChangesSince_Inr)
  then have "rows' = answer_rows req (st_rows (nd_store n)) k" "same_node n n'"
    using c' d' by (simp_all add: answer_rows_def same_node_def same_tables_def)
  then show ?thesis using r by simp
qed

lemma pull_kinds_Inr:
  "pull_kinds req ks resp n = (Inr resp', n') \<Longrightarrow>
     rs_rows resp' = rs_rows resp @ map row_to_pb (concat (map (answer_rows req (st_rows (nd_store n))) ks)) \<and>
     rs_events resp' = rs_events resp \<and> same_node n n'"
proof (induction ks arbitrary: resp n)
  case (Cons k ks)
  then obtain r1 n1 where 1: "pull_kind req k resp n = (Inr r1, n1)" and 2: "pull_kinds req ks r1 n1 = (Inr resp', n')"
    by (auto simp: bindE_Inr)
  have "st_rows (nd_store n1) = st_rows (nd_store n)"
    using pull_kind_Inr [OF 1] by (simp add: same_node_def same_tables_def)
  then show ?case
    using pull_kind_Inr [OF 1] Cons.IH [OF 2] same_node_trans [of n n1 n'] by simp
qed (simp add: ret_def)

lemma pull_events_Inr:
  assumes "pull_events C req resp n = (Inr resp', n')"
  shows "rs_rows resp' = rs_rows resp \<and> same_node n n' \<and>
    (\<exists>evs. rs_events resp' = rs_events resp @ map (event_to_pb C) evs \<and>
       list_all2 (decodes C) (answer_events req (st_events (nd_store n))) evs)"
proof -
  let ?wm = "req_event_wm req"
  obtain chk n1 evs n2 evs' where c: "on_store ChecksumEvents n = (Inr chk, n1)"
    and d: "on_store (EventsSince C ?wm) n1 = (Inr evs, n2)"
    and e: "(if evs = [] \<and> rq_event_checksum req \<noteq> 0 \<and> rq_event_checksum req \<noteq> chk
             then bindE (on_metrics (\<lambda>m. m\<lparr>SyncEventChecksumMismatches := counter_inc (SyncEventChecksumMismatches m)\<rparr>))
                    (\<lambda>_. on_store (EventsSince C hlc_zero))
             else ret evs) n2 = (Inr evs', n')"
    and r: "resp' = resp\<lparr>rs_event_checksum := chk, rs_events := rs_events resp @ map (event_to_pb C) evs'\<rparr>"
    using assms by (clarsimp simp: pull_events_def req_event_wm_def Let_def bindE_Inr) (simp add: ret_def)
  have c': "chk = xor_loop (event_stamps (st_events (nd_store n))) 0" "same_node n n1"
    using c by (auto simp: on_store_Inr dest!: ChecksumEvents_Inr)
  have d': "list_all2 (decodes C) (event_changes ?wm (st_events (nd_store n1))) evs" "same_node n1 n2"
    using d by (auto simp: on_store_Inr event_changes_def dest!: EventsSince_Inr)
  then have nil: "evs = [] \<longleftrightarrow> event_changes ?wm (st_events (nd_store n1)) = []"
    by auto
  have e': "same_node n2 n' \<and> (if evs = [] \<and> rq_event_checksum req \<noteq> 0 \<and> rq_event_checksum req \<noteq> chk
      then list_all2 (decodes C) (event_changes hlc_zero (st_events (nd_store n2))) evs' else evs' = evs)"
    using e by (auto simp: on_store_Inr on_metrics_def bindE_Inr ret_def event_changes_def
        split: if_splits dest!: EventsSince_Inr)
  have "st_events (nd_store n1) = st_events (nd_store n)" "st_events (nd_store n2) = st_events (nd_store n)"
    using c'(2) d'(2) by (simp_all add: same_node_def same_tables_def)
  then have "list_all2 (decodes C) (answer_events req (st_events (nd_store n))) evs'"
    using c'(1) d'(1) nil e' by (cases "evs = []") (auto simp: answer_events_def split: if_splits)
  moreover have "same_node n n'"
    using c'(2) d'(2) e' by (simp add: same_node_def same_tables_def)
  ultimately show ?thesis using r by auto
qed

lemma server_Pull_Inr:
  assumes "server_Pull C nodeID req n = (Inr resp, n')"
  shows "rs_rows resp = map row_to_pb (concat (map (answer_rows req (st_rows (nd_store n))) Kinds)) \<and> same_node n n' \<and>
    (\<exists>evs. rs_events resp = map (event_to_pb C) evs \<and>
       list_all2 (decodes C) (answer_events req (st_events (nd_store n))) evs)"
proof -
  let ?r0 = "\<lparr>rs_node_id = nodeID, rs_rows = [], rs_checksums = [], rs_events = [], rs_event_checksum = 0\<rparr>"
  obtain r1 n1 where 1: "pull_kinds req Kinds ?r0 n = (Inr r1, n1)" and 2: "pull_events C req r1 n1 = (Inr resp, n')"
    using assms by (auto simp: server_Pull_def Let_def bindE_Inr)
  have "st_events (nd_store n1) = st_events (nd_store n)"
    using pull_kinds_Inr [OF 1] by (simp add: same_node_def same_tables_def)
  then show ?thesis
    using pull_kinds_Inr [OF 1] pull_events_Inr [OF 2] same_node_trans [of n n1 n'] by simp
qed

lemma pull_kind_healthy:
  "healthy (nd_store n) \<Longrightarrow> \<exists>resp' n'. pull_kind req k resp n = (Inr resp', n') \<and> nd_store n' = nd_store n"
  by (simp add: pull_kind_def Let_def db_simps)

lemma pull_kinds_healthy:
  "healthy (nd_store n) \<Longrightarrow> \<exists>resp' n'. pull_kinds req ks resp n = (Inr resp', n') \<and> nd_store n' = nd_store n"
proof (induction ks arbitrary: resp n)
  case (Cons k ks)
  obtain r1 n1 where 1: "pull_kind req k resp n = (Inr r1, n1)" "nd_store n1 = nd_store n"
    using pull_kind_healthy [OF Cons.prems] by blast
  then show ?case
    using Cons.IH [of n1 r1] Cons.prems by (simp add: bindE_healthy)
qed (simp add: ret_def)

lemma EventsSince_healthy [db_simps]:
  assumes "healthy s" "list_all2 (decodes C) (event_changes wm (st_events s)) evs"
  shows "EventsSince C wm s = (Inr evs, s)"
proof -
  have after: "(\<lambda>r. TS (er_hlc r) > TS wm \<or> TS (er_hlc r) = TS wm \<and> Seq (er_hlc r) > Seq wm) =
      (\<lambda>r. wm < er_hlc r)"
    by (auto simp: less_hlc_def fun_eq_iff)
  show ?thesis
    unfolding EventsSince_def after using assms by (simp add: db_simps event_changes_def)
qed

lemma decodable_changes:
  assumes "\<forall>r \<in> set t. \<exists>e. decodes C r e"
  shows "\<exists>evs. list_all2 (decodes C) (event_changes wm t) evs"
proof -
  have "\<forall>r \<in> set (event_changes wm t). \<exists>e. decodes C r e"
    using assms by (simp add: event_changes_def)
  then have "list_all2 (decodes C) (event_changes wm t) (map (\<lambda>r. SOME e. decodes C r e) (event_changes wm t))"
    by (auto simp: list_all2_map2 list_all2_same intro: someI_ex)
  then show ?thesis by blast
qed

lemma pull_events_healthy:
  assumes "healthy (nd_store n)" "\<forall>r \<in> set (st_events (nd_store n)). \<exists>e. decodes C r e"
  shows "\<exists>resp' n'. pull_events C req resp n = (Inr resp', n')"
proof -
  obtain evs evs0 where
      "list_all2 (decodes C) (event_changes (req_event_wm req) (st_events (nd_store n))) evs"
      "list_all2 (decodes C) (event_changes hlc_zero (st_events (nd_store n))) evs0"
    using decodable_changes [OF assms(2)] by blast
  then show ?thesis
    using assms(1) by (simp add: pull_events_def req_event_wm_def [symmetric] Let_def db_simps)
qed

text \<open>The server answers whenever its database does not fail and the payloads in its log are JSON.\<close>

lemma server_Pull_healthy:
  assumes "healthy (nd_store n)" "\<forall>r \<in> set (st_events (nd_store n)). \<exists>e. decodes C r e"
  shows "\<exists>resp n'. server_Pull C nodeID req n = (Inr resp, n')"
proof -
  let ?r0 = "\<lparr>rs_node_id = nodeID, rs_rows = [], rs_checksums = [], rs_events = [], rs_event_checksum = 0\<rparr>"
  obtain r1 n1 where 1: "pull_kinds req Kinds ?r0 n = (Inr r1, n1)" "nd_store n1 = nd_store n"
    using pull_kinds_healthy [OF assms(1)] by blast
  then show ?thesis
    using pull_events_healthy [of n1 C req r1] assms by (simp add: server_Pull_def Let_def bindE_healthy)
qed

section \<open>Properties of the protocol\<close>

lemma row_to_pb_inj [simp]: "row_to_pb a = row_to_pb b \<longleftrightarrow> a = b"
  by (cases a; cases b) (auto simp: row_to_pb_def)

text \<open>
  C27. What \<^verbatim>\<open>Pull\<close> sends. A row of the store is in the answer exactly when its kind is replicated
  and it is later than the requester's watermark of that kind; or when nothing of the kind is
  later, the requester sent a checksum other than zero that differs from the store's own, and
  the row's stamp is positive. Rows are sent as they are stored, tombstones included, and
  answering changes no table, clock or connection. On a database that does not fail, with a
  log whose payloads are JSON, there is an answer.
\<close>
theorem server_Pull_exact:
  assumes "server_Pull C nodeID req n = (res, n')"
  shows "(\<forall>resp. res = Inr resp \<longrightarrow> same_node n n' \<and>
      (\<forall>p. p \<in> set (rs_rows resp) \<longleftrightarrow>
        (\<exists>r \<in> set (st_rows (nd_store n)). p = row_to_pb r \<and> r_kind r \<in> set Kinds \<and>
           (After (r_hlc r) (req_watermark req (r_kind r)) \<or>
            After (r_hlc r) hlc_zero \<and>
            (\<forall>q \<in> set (st_rows (nd_store n)). r_kind q = r_kind r \<longrightarrow> \<not> After (r_hlc q) (req_watermark req (r_kind r))) \<and>
            req_checksum req (r_kind r) \<notin> {0, xor_loop (live_stamps (r_kind r) (st_rows (nd_store n))) 0})))) \<and>
    (healthy (nd_store n) \<and> (\<forall>r \<in> set (st_events (nd_store n)). \<exists>e. decodes C r e) \<longrightarrow> (\<exists>resp. res = Inr resp))"
proof (intro conjI allI impI)
  fix resp assume "res = Inr resp"
  then have ok: "server_Pull C nodeID req n = (Inr resp, n')" using assms by simp
  show "same_node n n'" using server_Pull_Inr [OF ok] by simp
  fix p
  let ?t = "st_rows (nd_store n)"
  have nil: "changes k wm ?t = [] \<longleftrightarrow> (\<forall>q \<in> set ?t. r_kind q = k \<longrightarrow> \<not> After (r_hlc q) wm)" for k wm
    using set_empty [of "changes k wm ?t"] by auto
  have "r \<in> set (answer_rows req ?t k) \<longleftrightarrow> r \<in> set ?t \<and> r_kind r = k \<and>
      (After (r_hlc r) (req_watermark req k) \<or> After (r_hlc r) hlc_zero \<and>
        (\<forall>q \<in> set ?t. r_kind q = k \<longrightarrow> \<not> After (r_hlc q) (req_watermark req k)) \<and>
        req_checksum req k \<notin> {0, xor_loop (live_stamps k ?t) 0})" for r k
    unfolding answer_rows_def nil by (auto simp: nil)
  moreover have "p \<in> set (rs_rows resp) \<longleftrightarrow> (\<exists>k \<in> set Kinds. \<exists>r \<in> set (answer_rows req ?t k). p = row_to_pb r)"
    using server_Pull_Inr [OF ok] by auto
  ultimately show "p \<in> set (rs_rows resp) \<longleftrightarrow>
      (\<exists>r \<in> set ?t. p = row_to_pb r \<and> r_kind r \<in> set Kinds \<and>
         (After (r_hlc r) (req_watermark req (r_kind r)) \<or> After (r_hlc r) hlc_zero \<and>
          (\<forall>q \<in> set ?t. r_kind q = r_kind r \<longrightarrow> \<not> After (r_hlc q) (req_watermark req (r_kind r))) \<and>
          req_checksum req (r_kind r) \<notin> {0, xor_loop (live_stamps (r_kind r) ?t) 0}))"
    by auto
next
  assume "healthy (nd_store n) \<and> (\<forall>r \<in> set (st_events (nd_store n)). \<exists>e. decodes C r e)"
  then show "\<exists>resp. res = Inr resp"
    using server_Pull_healthy [of n C nodeID req] assms by auto
qed

definition ex_node :: "row list \<Rightarrow> node" where
  "ex_node rs = \<lparr>nd_store = empty_disk\<lparr>st_rows := rs\<rparr>, nd_clock = NewClock, nd_metrics = metrics_zero, nd_conns = []\<rparr>"

definition ex_req :: "hlc \<Rightarrow> uint64 \<Rightarrow> pull_request" where
  "ex_req wm chk = \<lparr>rq_watermarks = [(KindRunner, Some wm)], rq_checksums = Some [(KindRunner, chk)],
     rq_event_watermark = None, rq_event_checksum = 0\<rparr>"

lemma ex_node_healthy [simp]: "healthy (nd_store (ex_node rs))" "st_rows (nd_store (ex_node rs)) = rs"
  "st_events (nd_store (ex_node rs)) = []"
  by (simp_all add: ex_node_def healthy_def empty_disk_def)

theorem server_Pull_exact_witness:
  "\<exists>resp n'. server_Pull null_codec ''n'' (ex_req (HLC 5 0) 0) (ex_node [ex_row ''a'' ''x'' 5, ex_row ''b'' ''x'' 6]) = (Inr resp, n') \<and>
     row_to_pb (ex_row ''b'' ''x'' 6) \<in> set (rs_rows resp) \<and> row_to_pb (ex_row ''a'' ''x'' 5) \<notin> set (rs_rows resp)"
proof -
  let ?n = "ex_node [ex_row ''a'' ''x'' 5, ex_row ''b'' ''x'' 6]" and ?req = "ex_req (HLC 5 0) 0"
  obtain res n' where p: "server_Pull null_codec ''n'' ?req ?n = (res, n')" by fastforce
  then obtain resp where r: "res = Inr resp"
    using server_Pull_exact [OF p] by auto
  have w: "req_watermark ?req KindRunner = HLC 5 0"
    by (simp add: req_watermark_def ex_req_def gm_get_def)
  have "row_to_pb (ex_row ''b'' ''x'' 6) \<in> set (rs_rows resp)" "row_to_pb (ex_row ''a'' ''x'' 5) \<notin> set (rs_rows resp)"
    using conjunct1 [OF server_Pull_exact [OF p]] r by (auto simp: w Kinds_def)
  then show ?thesis using p r by blast
qed

text \<open>
  The checksums are not consulted while there is news. If the store holds any row of the kind
  later than the requester's watermark, no row of the kind at or below the watermark is sent,
  whatever the checksums are. A row the server itself learned late, stamped before the
  watermark, is held back for as long as each round finds something newer. The architecture
  document has the server ignore the watermark whenever the checksums differ.
\<close>
theorem Pull_holds_back:
  assumes "server_Pull C nodeID req n = (Inr resp, n')"
    and "q \<in> set (st_rows (nd_store n))" "After (r_hlc q) (req_watermark req (r_kind q))"
    and "p \<in> set (rs_rows resp)" "pr_kind p = r_kind q"
  shows "\<exists>h. pr_hlc p = Some h \<and> After h (req_watermark req (r_kind q))"
proof -
  let ?t = "st_rows (nd_store n)"
  obtain k r where r: "r \<in> set (answer_rows req ?t k)" "p = row_to_pb r"
    using assms(4) server_Pull_Inr [OF assms(1)] by auto
  then have k: "r_kind q = k"
    using assms(5) by (auto simp: answer_rows_def row_to_pb_def split: if_splits)
  then have "changes k (req_watermark req k) ?t \<noteq> []"
    using assms(2,3) set_changes [of k "req_watermark req k" ?t] by (auto simp del: set_changes)
  then show ?thesis
    using r k by (simp add: answer_rows_def row_to_pb_def)
qed

theorem Pull_holds_back_witness:
  "\<exists>resp n'. server_Pull null_codec ''n'' (ex_req (HLC 5 0) 77) (ex_node [ex_row ''a'' ''x'' 4, ex_row ''b'' ''x'' 6]) = (Inr resp, n') \<and>
     row_to_pb (ex_row ''a'' ''x'' 4) \<notin> set (rs_rows resp) \<and>
     req_checksum (ex_req (HLC 5 0) 77) KindRunner \<noteq> xor_loop (live_stamps KindRunner [ex_row ''a'' ''x'' 4, ex_row ''b'' ''x'' 6]) 0"
proof -
  let ?t = "[ex_row ''a'' ''x'' 4, ex_row ''b'' ''x'' 6]" and ?req = "ex_req (HLC 5 0) 77"
  obtain resp n' where p: "server_Pull null_codec ''n'' ?req (ex_node ?t) = (Inr resp, n')"
    using server_Pull_healthy [of "ex_node ?t" null_codec "''n''" ?req] by auto
  have w: "req_watermark ?req KindRunner = HLC 5 0"
    by (simp add: req_watermark_def ex_req_def gm_get_def)
  have "row_to_pb (ex_row ''a'' ''x'' 4) \<notin> set (rs_rows resp)"
    using Pull_holds_back [OF p, of "ex_row ''b'' ''x'' 6" "row_to_pb (ex_row ''a'' ''x'' 4)"]
    by (auto simp: w row_to_pb_def)
  moreover have "req_checksum ?req KindRunner \<noteq> xor_loop (live_stamps KindRunner ?t) 0"
    by (simp add: req_checksum_def ex_req_def gm_get_def live_stamps_def stamp_hash_def fnv_offset_def fnv_prime_def)
  ultimately show ?thesis using p by blast
qed

lemma gm_get_del: "gm_get (gm_del k m) j = (if j = k then None else gm_get m j)"
  by (induction m) (auto simp: gm_get_def gm_del_def)

lemma gm_wf_del: "gm_wf m \<Longrightarrow> gm_wf (gm_del k m)"
  by (induction m) (auto simp: gm_del_def)

text \<open>
  The client's connection cache. \<^verbatim>\<open>conn\<close> returns a connection that is in the cache under the
  address afterwards; it is the cached one when that one is neither shut down nor failing, and
  otherwise one just dialled, the unusable one having been dropped even if the dial fails. No
  other address is touched, and the store, the clock and the counters are not.
\<close>
theorem client_conn_usable:
  "case client_conn N addr n of
     (Inr cc, n') \<Rightarrow> gm_get (nd_conns n') addr = Some cc \<and> n' = n\<lparr>nd_conns := nd_conns n'\<rparr> \<and>
       (\<forall>a. a = addr \<or> gm_get (nd_conns n') a = gm_get (nd_conns n) a) \<and>
       (net_dial N addr = Inr cc \<or>
        gm_get (nd_conns n) addr = Some cc \<and> net_state N cc \<notin> {Shutdown, TransientFailure} \<and> n' = n)
   | (Inl e, n') \<Rightarrow> net_dial N addr = Inl e \<and> gm_get (nd_conns n') addr = None \<and> n' = n\<lparr>nd_conns := nd_conns n'\<rparr> \<and>
       (\<forall>a. a = addr \<or> gm_get (nd_conns n') a = gm_get (nd_conns n) a)"
  by (auto simp: client_conn_def Let_def gm_get_del split: option.splits sum.splits if_splits)

end
