(* ===== verification/Sync.thy ===== *)
theory Sync
  imports Transport
begin

text \<open>
  \<^verbatim>\<open>internal/engine/sync/sync.go\<close>: a round with one peer (\<^verbatim>\<open>RoundOnce\<close>), the rounds with all peers
  (\<^verbatim>\<open>roundAll\<close>), tombstone collection, and the engine's loop.

  The codec and the network are arguments. \<^verbatim>\<open>RoundOnce\<close> runs in one goroutine per peer;
  \<open>roundAll\<close> takes the peers in the order in which their rounds run, one after the other. The
  theories \<open>Rounds\<close> and \<open>Interleave\<close> have the goroutines with their actions interleaved.
\<close>

section \<open>One round\<close>

definition New_interval :: "int \<Rightarrow> int" where
  "New_interval interval = (if interval \<le> 0 then 2 * 1000000000 else interval)"

text \<open>The getters of a missing stamp (\<^verbatim>\<open>r.Hlc.GetTs()\<close>) give zero.\<close>

definition pb_to_row :: "pb_row \<Rightarrow> row" where
  "pb_to_row p = \<lparr>r_kind = pr_kind p, r_key = pr_key p, r_owner = pr_owner p,
     r_hlc = (case pr_hlc p of None \<Rightarrow> hlc_zero | Some h \<Rightarrow> HLC (TS h) (Seq h)),
     r_tombstone = pr_tombstone p, r_payload = pr_payload p\<rparr>"

primrec rows_loop :: "pb_row list \<Rightarrow> row list \<Rightarrow> hlc \<Rightarrow> row list \<times> hlc" where
  "rows_loop [] rows maxH = (rows, maxH)"
| "rows_loop (p # ps) rows maxH =
     (let row = pb_to_row p
      in rows_loop ps (rows @ [row]) (if After (r_hlc row) maxH then r_hlc row else maxH))"

definition round_rows :: "string \<Rightarrow> pull_response \<Rightarrow> unit node_op" where
  "round_rows peer resp =
     (if rs_rows resp \<noteq> [] then
        (let (rows, maxH) = rows_loop (rs_rows resp) [] hlc_zero in
         bindE (on_store (ApplyRemote peer rows)) (\<lambda>_.
         bindE (on_metrics (\<lambda>m. m\<lparr>SyncRowsApplied := counter_add (of_nat (length rows)) (SyncRowsApplied m)\<rparr>)) (\<lambda>_.
         on_clock (clock_update maxH))))
      else ret ())"

text \<open>
  Here the payload's errors are dropped, keeping what was decoded, and the stamp is read without
  the getters: a missing one is a nil dereference.
\<close>

definition pb_payload :: "codec \<Rightarrow> string \<Rightarrow> json gomap option" where
  "pb_payload C pl =
     (if pl \<noteq> [] then (case unmarshal C pl of Inl _ \<Rightarrow> None | Inr j \<Rightarrow> fst (json_any_map j None))
      else None)"

primrec events_loop :: "codec \<Rightarrow> pb_event list \<Rightarrow> event list \<Rightarrow> hlc \<Rightarrow> hlc \<Rightarrow> error + event list \<times> hlc \<times> hlc" where
  "events_loop C [] incoming evWm maxEv = Inr (incoming, evWm, maxEv)"
| "events_loop C (p # ps) incoming evWm maxEv =
     (case pe_hlc p of
        None \<Rightarrow> Inl (Panic ''nil pointer dereference'')
      | Some h0 \<Rightarrow>
          let h = HLC (TS h0) (Seq h0);
              e = \<lparr>ev_seq = pe_seq p, ev_type = pe_type p, ev_runner_id = pe_runner_id p,
                   ev_payload = pb_payload C (pe_payload p), ev_hlc = h\<rparr>
          in events_loop C ps (incoming @ [e]) (if After h evWm then h else evWm)
               (if After h maxEv then h else maxEv))"

definition round_events :: "codec \<Rightarrow> string \<Rightarrow> hlc \<Rightarrow> pull_response \<Rightarrow> unit node_op" where
  "round_events C peer evWm resp =
     (if rs_events resp \<noteq> [] then
        (case events_loop C (rs_events resp) [] evWm hlc_zero of
           Inl e \<Rightarrow> throw e
         | Inr (incoming, evWm, maxEv) \<Rightarrow>
             bindE (on_store (ApplyEvents C incoming)) (\<lambda>_.
             bindE (on_metrics (\<lambda>m. m\<lparr>SyncEventsApplied := counter_add (of_nat (length incoming)) (SyncEventsApplied m)\<rparr>)) (\<lambda>_.
             bindE (on_store (SetWatermark peer KindEvent evWm)) (\<lambda>_.
             on_clock (clock_update maxEv)))))
      else ret ())"

primrec round_kinds :: "string \<Rightarrow> kind list \<Rightarrow> hlc gomap \<Rightarrow> uint64 gomap \<Rightarrow> (hlc gomap \<times> uint64 gomap) node_op" where
  "round_kinds peer [] watermarks checksums = ret (watermarks, checksums)"
| "round_kinds peer (k # ks) watermarks checksums =
     bindE (on_store (Watermark peer k)) (\<lambda>wm.
     bindE (on_store (Checksum k)) (\<lambda>chk.
     round_kinds peer ks (gm_put k wm watermarks) (gm_put k chk checksums)))"

definition RoundOnce :: "codec \<Rightarrow> net \<Rightarrow> string \<Rightarrow> unit node_op" where
  "RoundOnce C N peer =
     bindE (round_kinds peer Kinds [] []) (\<lambda>(watermarks, checksums).
     bindE (on_store (Watermark peer KindEvent)) (\<lambda>evWm.
     bindE (on_store ChecksumEvents) (\<lambda>evChk.
     bindE (client_Pull N peer watermarks checksums evWm evChk) (\<lambda>resp.
     bindE (round_rows peer resp) (\<lambda>_.
     round_events C peer evWm resp)))))"

section \<open>All peers, collection, and the loop\<close>

definition is_panic :: "error \<Rightarrow> bool" where
  "is_panic e = (case e of Panic _ \<Rightarrow> True | _ \<Rightarrow> False)"

text \<open>
  The rounds and the first of their errors. A panic in the goroutine of a round is not an error
  of the round: it ends the process.
\<close>

fun rounds :: "codec \<Rightarrow> net \<Rightarrow> string list \<Rightarrow> error option \<Rightarrow> error option node_op" where
  "rounds C N [] first = ret first"
| "rounds C N (p # ps) first =
     (if p = [] then rounds C N ps first
      else tryE (RoundOnce C N p)
        (\<lambda>e. if is_panic e then throw e else rounds C N ps (if first = None then Some e else first))
        (\<lambda>_. rounds C N ps first))"

definition observe_round :: "int \<Rightarrow> unit node_op" where
  "observe_round ns = on_metrics (\<lambda>m. m\<lparr>SyncRoundLatency := timer_observe ns (SyncRoundLatency m)\<rparr>)"

definition roundAll :: "codec \<Rightarrow> net \<Rightarrow> int \<Rightarrow> string list \<Rightarrow> unit node_op" where
  "roundAll C N ns peers =
     bindE (on_metrics (\<lambda>m. m\<lparr>SyncRounds := counter_inc (SyncRounds m)\<rparr>)) (\<lambda>_.
     if peers = [] then observe_round ns
     else bindE (rounds C N peers None) (\<lambda>firstErr.
       case firstErr of
         None \<Rightarrow> observe_round ns
       | Some e \<Rightarrow>
           bindE (on_metrics (\<lambda>m. m\<lparr>SyncRoundErrors := counter_inc (SyncRoundErrors m)\<rparr>)) (\<lambda>_.
           bindE (observe_round ns) (\<lambda>_. throw e))))"

definition gc_grace :: int where
  "gc_grace = 1 * 60 * 60 * 1000"

definition gcTombstones :: "int \<Rightarrow> unit node_op" where
  "gcTombstones now =
     bindE (clock_tick now) (\<lambda>h.
       let nowTS = TS h; minTS = (if nowTS > gc_grace then nowTS - gc_grace else 0)
       in tryE (on_store (GCTombstones (HLC minTS 0))) (\<lambda>_. ret ()) (\<lambda>_. ret ()))"

text \<open>
  One turn of the loop in \<^verbatim>\<open>Run\<close>: the error of the rounds is logged, then tombstones are
  collected. A turn is given the network, the peers, the round's duration and the time.
\<close>

record turn =
  tu_net :: net
  tu_peers :: "string list"
  tu_ns :: int
  tu_now :: int

definition engine_turn :: "codec \<Rightarrow> turn \<Rightarrow> unit node_op" where
  "engine_turn C t =
     tryE (roundAll C (tu_net t) (tu_ns t) (tu_peers t))
       (\<lambda>e. if is_panic e then throw e else gcTombstones (tu_now t))
       (\<lambda>_. gcTombstones (tu_now t))"

primrec run_loop :: "codec \<Rightarrow> turn list \<Rightarrow> unit node_op" where
  "run_loop C [] = ret ()"
| "run_loop C (t # ts) = bindE (engine_turn C t) (\<lambda>_. run_loop C ts)"

definition engine_Run :: "codec \<Rightarrow> turn \<Rightarrow> turn list \<Rightarrow> unit node_op" where
  "engine_Run C t0 ts =
     tryE (roundAll C (tu_net t0) (tu_ns t0) (tu_peers t0))
       (\<lambda>e. if is_panic e then throw e else run_loop C ts)
       (\<lambda>_. run_loop C ts)"

section \<open>The parts of a round\<close>

lemma Watermark_Inr: "Watermark p k s = (Inr h, s') \<Longrightarrow> h = wm_of s p k \<and> same_tables s s'"
  by (auto simp: Watermark_def tryE_Inr throw_def ret_def wm_of_def split: if_splits
      dest!: query_row_ErrNoRows query_row_Inr)

lemma Checksum_same: "Checksum k s = (res, s') \<Longrightarrow> same_tables s s'"
  by (auto simp: Checksum_def bindE_def ret_def split: prod.splits sum.splits dest!: query_rows_same)

lemma ChecksumEvents_same: "ChecksumEvents s = (res, s') \<Longrightarrow> same_tables s s'"
  by (auto simp: ChecksumEvents_def bindE_def ret_def split: prod.splits sum.splits dest!: query_rows_same)

lemma on_store_same: "on_store m n = (res, n') \<Longrightarrow> (\<And>r s'. m (nd_store n) = (r, s') \<Longrightarrow> same_tables (nd_store n) s') \<Longrightarrow> same_node n n'"
  by (auto simp: on_store_def split: prod.splits)

lemma pb_to_row_inverse [simp]: "pb_to_row (row_to_pb r) = r"
  by (simp add: pb_to_row_def row_to_pb_def)

lemma after_max: "(if After h m then h else m) = max m h"
  by (auto simp: max_def)

lemma rows_loop_eq:
  "rows_loop ps rows m = (rows @ map pb_to_row ps, fold (\<lambda>p h. max h (r_hlc (pb_to_row p))) ps m)"
  by (induction ps arbitrary: rows m) (simp_all add: Let_def after_max del: After_iff)

definition round_request :: "store \<Rightarrow> string \<Rightarrow> pull_request" where
  "round_request s peer =
     \<lparr>rq_watermarks = map (\<lambda>(k, h). (k, Some h)) (fold (\<lambda>k. gm_put k (wm_of s peer k)) Kinds []),
      rq_checksums = Some (fold (\<lambda>k. gm_put k (xor_loop (live_stamps k (st_rows s)) 0)) Kinds []),
      rq_event_watermark = Some (wm_of s peer KindEvent),
      rq_event_checksum = xor_loop (event_stamps (st_events s)) 0\<rparr>"

lemma wm_of_same: "same_tables s s' \<Longrightarrow> wm_of s' = wm_of s"
  by (simp add: wm_of_def same_tables_def fun_eq_iff)

lemma round_kinds_Inr:
  "round_kinds peer ks w c n = (Inr (w', c'), n') \<Longrightarrow>
     w' = fold (\<lambda>k. gm_put k (wm_of (nd_store n) peer k)) ks w \<and>
     c' = fold (\<lambda>k. gm_put k (xor_loop (live_stamps k (st_rows (nd_store n))) 0)) ks c \<and> same_node n n'"
proof (induction ks arbitrary: w c n)
  case (Cons k ks)
  then obtain wm n1 chk n2 where 1: "on_store (Watermark peer k) n = (Inr wm, n1)"
    and 2: "on_store (Checksum k) n1 = (Inr chk, n2)"
    and 3: "round_kinds peer ks (gm_put k wm w) (gm_put k chk c) n2 = (Inr (w', c'), n')"
    by (auto simp: bindE_Inr)
  have w: "wm = wm_of (nd_store n) peer k" "same_node n n1"
    using 1 by (auto simp: on_store_Inr dest!: Watermark_Inr)
  have c: "chk = xor_loop (live_stamps k (st_rows (nd_store n1))) 0" "same_node n1 n2"
    using 2 by (auto simp: on_store_Inr dest!: Checksum_Inr)
  have n2: "same_node n n2" using w(2) c(2) by (rule same_node_trans)
  then have eq: "wm_of (nd_store n2) = wm_of (nd_store n)" "st_rows (nd_store n2) = st_rows (nd_store n)"
      "st_rows (nd_store n1) = st_rows (nd_store n)"
    using w(2) by (simp_all add: same_node_def same_tables_def wm_of_def fun_eq_iff)
  show ?case
    using Cons.IH [OF 3] w(1) c(1) same_node_trans [OF n2, of n'] by (simp add: eq)
qed (simp add: ret_def)

lemma round_kinds_same: "round_kinds peer ks w c n = (res, n') \<Longrightarrow> same_node n n'"
proof (induction ks arbitrary: w c n)
  case (Cons k ks)
  obtain r1 n1 where 1: "on_store (Watermark peer k) n = (r1, n1)" by fastforce
  have s1: "same_node n n1" using 1 by (rule on_store_same) (rule Watermark_same)
  obtain r2 n2 where 2: "on_store (Checksum k) n1 = (r2, n2)" by fastforce
  have s2: "same_node n1 n2" using 2 by (rule on_store_same) (rule Checksum_same)
  show ?case
    using Cons.prems Cons.IH [of _ _ n2] 1 2 s1 s2 same_node_trans [OF s1 s2] same_node_trans [OF same_node_trans [OF s1 s2], of n']
    by (auto simp: bindE_def split: sum.splits)
qed (simp add: ret_def)

lemma client_conn_same: "client_conn N addr n = (res, n') \<Longrightarrow> n' = n\<lparr>nd_conns := nd_conns n'\<rparr>"
  by (auto simp: client_conn_def Let_def split: option.splits sum.splits if_splits)

definition resp_rows :: "pull_response \<Rightarrow> row list" where
  "resp_rows resp = map pb_to_row (rs_rows resp)"

lemma round_rows_Inr:
  assumes "round_rows peer resp n = (Inr u, n')"
  shows "st_rows (nd_store n') = merge_rows (resp_rows resp) (st_rows (nd_store n)) \<and>
    st_watermarks (nd_store n') = raise_watermarks peer (batch_max (resp_rows resp)) (st_watermarks (nd_store n)) \<and>
    st_events (nd_store n') = st_events (nd_store n) \<and> st_node_id (nd_store n') = st_node_id (nd_store n) \<and>
    reading (nd_clock n) \<le> reading (nd_clock n') \<and> (\<forall>r \<in> set (resp_rows resp). r_hlc r \<le> reading (nd_clock n'))"
proof (cases "rs_rows resp = []")
  case True
  then show ?thesis
    using assms by (simp add: round_rows_def ret_def resp_rows_def batch_max_def)
next
  case False
  let ?m = "fold (\<lambda>p h. max h (r_hlc (pb_to_row p))) (rs_rows resp) hlc_zero"
  obtain n1 where a: "on_store (ApplyRemote peer (resp_rows resp)) n = (Inr (), n1)"
    and n': "nd_store n' = nd_store n1" "nd_clock n' = clock_update ?m (nd_clock n1)"
    using assms False
    by (auto simp: round_rows_def rows_loop_eq resp_rows_def bindE_Inr on_metrics_def on_clock_def)
  have c: "nd_clock n1 = nd_clock n" using a by (auto simp: on_store_Inr)
  have "r_hlc r \<le> ?m" if "r \<in> set (resp_rows resp)" for r
    using that fold_max_upper [of _ "rs_rows resp" "\<lambda>p. r_hlc (pb_to_row p)"] by (auto simp: resp_rows_def)
  then have "\<forall>r \<in> set (resp_rows resp). r_hlc r \<le> reading (nd_clock n')"
    by (auto simp: n' le_max_iff_disj)
  then show ?thesis
    using a n' c by (auto simp: on_store_Inr dest!: ApplyRemote_Inr)
qed

lemma round_rows_Inl:
  assumes "round_rows peer resp n = (Inl e, n')"
  shows "same_node n n'"
  using assms
  by (auto simp: round_rows_def rows_loop_eq bindE_Inl on_metrics_def on_clock_def ret_def on_store_def
      split: if_splits prod.splits dest!: ApplyRemote_Inl)

lemma SetWatermark_frame:
  assumes "SetWatermark p k h s = (res, s')"
  shows "st_rows s' = st_rows s \<and> st_events s' = st_events s \<and> st_node_id s' = st_node_id s \<and>
    (\<forall>q. q \<noteq> (p, k) \<longrightarrow> st_watermarks s' q = st_watermarks s q)"
  using assms
  by (auto simp: SetWatermark_def bindE_def ret_def same_tables_def split: prod.splits sum.splits if_splits
      elim!: exec_cases dest!: Watermark_same)

lemma SetWatermark_Inr:
  assumes "SetWatermark p k h s = (Inr u, s')"
  shows "wm_of s' p k = max (wm_of s p k) h"
proof -
  obtain cur s1 where 1: "Watermark p k s = (Inr cur, s1)"
    and 2: "(if \<not> After h cur then ret () else exec (\<lambda>s. s\<lparr>st_watermarks := (st_watermarks s)((p, k) \<mapsto> h)\<rparr>)) s1 = (Inr u, s')"
    using assms by (auto simp: SetWatermark_def bindE_Inr)
  have "cur = wm_of s p k" "wm_of s1 p k = wm_of s p k"
    using Watermark_Inr [OF 1] wm_of_same by auto
  then show ?thesis
    using 2 by (auto simp: ret_def max_def wm_of_def split: if_splits dest!: exec_Inr)
qed

text \<open>What the second half of a round can do, whatever fails.\<close>

definition log_grows :: "string \<Rightarrow> node \<Rightarrow> node \<Rightarrow> bool" where
  "log_grows peer n n' \<longleftrightarrow>
     st_rows (nd_store n') = st_rows (nd_store n) \<and> st_node_id (nd_store n') = st_node_id (nd_store n) \<and>
     (\<exists>rs. st_events (nd_store n') = evlog.ins_all rs (st_events (nd_store n))) \<and>
     (\<forall>q. q \<noteq> (peer, KindEvent) \<longrightarrow> st_watermarks (nd_store n') q = st_watermarks (nd_store n) q) \<and>
     reading (nd_clock n) \<le> reading (nd_clock n')"

lemma log_grows_same: "same_node n n' \<Longrightarrow> log_grows peer n n'"
  by (auto simp: log_grows_def same_node_def same_tables_def evlog.ins_all_def intro: exI [of _ "[]"])

lemma round_events_frame:
  assumes "round_events C peer evWm resp n = (res, n')"
  shows "log_grows peer n n'"
proof (cases "rs_events resp = []")
  case True
  then show ?thesis using assms by (auto simp: round_events_def ret_def intro: log_grows_same)
next
  case ne: False
  show ?thesis
  proof (cases "events_loop C (rs_events resp) [] evWm hlc_zero")
    case (Inl e)
    then show ?thesis using assms ne by (auto simp: round_events_def throw_def intro: log_grows_same)
  next
    case (Inr x)
    obtain inc wm mx where x: "x = (inc, wm, mx)" by (cases x)
    obtain r1 s1 where 1: "ApplyEvents C inc (nd_store n) = (r1, s1)" by fastforce
    obtain r2 s2 where 2: "SetWatermark peer KindEvent wm s1 = (r2, s2)" by fastforce
    note set2 = SetWatermark_frame [OF 2]
    show ?thesis
    proof (cases r1)
      case (Inl e)
      then have "same_node n n'"
        using assms ne Inr x 1 ApplyEvents_Inl [of C inc "nd_store n" e s1]
        by (auto simp: round_events_def bindE_def on_store_def)
      then show ?thesis by (rule log_grows_same)
    next
      case ok: (Inr u)
      obtain rs where "st_events s1 = evlog.ins_all rs (st_events (nd_store n))" "st_rows s1 = st_rows (nd_store n)"
          "st_watermarks s1 = st_watermarks (nd_store n)" "st_node_id s1 = st_node_id (nd_store n)"
        using ApplyEvents_Inr [OF 1 [unfolded ok]] by auto
      moreover have "nd_store n' = s2" "reading (nd_clock n) \<le> reading (nd_clock n')"
        using assms ne Inr x 1 2 ok
        by (auto simp: round_events_def bindE_def on_store_def on_metrics_def on_clock_def split: sum.splits)
      ultimately show ?thesis using set2 by (auto simp: log_grows_def)
    qed
  qed
qed

lemma client_Pull_Inr:
  assumes "client_Pull N addr w c ewm echk n = (res, n')"
  shows "n' = n\<lparr>nd_conns := nd_conns n'\<rparr> \<and> (\<forall>resp. res = Inr resp \<longrightarrow> (\<exists>cc n1. client_conn N addr n = (Inr cc, n1) \<and>
    net_call N cc \<lparr>rq_watermarks = map (\<lambda>(k, h). (k, Some h)) w, rq_checksums = Some c,
      rq_event_watermark = Some ewm, rq_event_checksum = echk\<rparr> = Inr resp))"
proof -
  obtain r1 n1 where 1: "client_conn N addr n = (r1, n1)" by fastforce
  show ?thesis
    using assms 1 client_conn_same [OF 1] by (cases r1) (auto simp: client_Pull_def bindE_def Let_def)
qed

definition same_data :: "node \<Rightarrow> node \<Rightarrow> bool" where
  "same_data n n' \<longleftrightarrow> same_tables (nd_store n) (nd_store n') \<and> nd_clock n' = nd_clock n"

lemma same_node_data: "same_node n n' \<Longrightarrow> same_data n n'"
  by (simp add: same_node_def same_data_def)

lemma same_data_trans [trans]: "same_data a b \<Longrightarrow> same_data b c \<Longrightarrow> same_data a c"
  by (auto simp: same_data_def intro: same_tables_trans)

text \<open>
  A round either fails before it changes anything, or gets an answer to the request its state
  determines and goes through the two halves.
\<close>

lemma RoundOnce_shape:
  assumes "RoundOnce C N peer n = (res, n')"
  obtains (failed) e where "res = Inl e" "same_data n n'"
  | (answered) cc m m' resp n0 n1 where "client_conn N peer m = (Inr cc, m')"
      "net_call N cc (round_request (nd_store n) peer) = Inr resp" "same_data n n0"
      "round_rows peer resp n0 = (Inr (), n1)"
      "round_events C peer (wm_of (nd_store n) peer KindEvent) resp n1 = (res, n')"
proof -
  obtain r1 n1 where 1: "round_kinds peer Kinds [] [] n = (r1, n1)" by fastforce
  obtain r2 n2 where 2: "on_store (Watermark peer KindEvent) n1 = (r2, n2)" by fastforce
  obtain r3 n3 where 3: "on_store ChecksumEvents n2 = (r3, n3)" by fastforce
  have s1: "same_node n n1" using 1 by (rule round_kinds_same)
  have s2: "same_node n1 n2" using 2 by (rule on_store_same) (rule Watermark_same)
  have s3: "same_node n2 n3" using 3 by (rule on_store_same) (rule ChecksumEvents_same)
  have d: "same_data n n1" "same_data n n2" "same_data n n3"
    using s1 s2 s3 by (meson same_data_trans same_node_data)+
  consider e where "r1 = Inl e \<or> r2 = Inl e \<or> r3 = Inl e"
    | w c ewm echk where "r1 = Inr (w, c)" "r2 = Inr ewm" "r3 = Inr echk"
    by (cases r1; cases r2; cases r3) auto
  then show thesis
  proof cases
    case (1 e)
    then show thesis
      using assms \<open>round_kinds peer Kinds [] [] n = (r1, n1)\<close> 2 3 d failed
      by (cases r1; cases r2; cases r3) (auto simp: RoundOnce_def bindE_def)
  next
    case r: (2 w c ewm echk)
    obtain r4 n4 where 4: "client_Pull N peer w c ewm echk n3 = (r4, n4)" by fastforce
    have d4: "same_data n n4"
      using d(3) conjunct1 [OF client_Pull_Inr [OF 4]] by (metis node.select_convs(1,2) node.surjective node.update_convs(4) same_data_def)
    have e: "st_events (nd_store n2) = st_events (nd_store n)" "wm_of (nd_store n1) = wm_of (nd_store n)"
      using d by (auto simp: same_data_def same_tables_def wm_of_def fun_eq_iff)
    have req: "\<lparr>rq_watermarks = map (\<lambda>(k, h). (k, Some h)) w, rq_checksums = Some c,
        rq_event_watermark = Some ewm, rq_event_checksum = echk\<rparr> = round_request (nd_store n) peer"
      and ewm: "ewm = wm_of (nd_store n) peer KindEvent"
      using round_kinds_Inr [OF 1 [unfolded r]] 2 3 r e
      by (auto simp: round_request_def on_store_Inr dest!: Watermark_Inr ChecksumEvents_Inr)
    show thesis
    proof (cases r4)
      case (Inl e)
      then show thesis using assms 1 2 3 4 r d4 failed by (auto simp: RoundOnce_def bindE_def)
    next
      case (Inr resp)
      obtain cc m' where cc: "client_conn N peer n3 = (Inr cc, m')"
          "net_call N cc (round_request (nd_store n) peer) = Inr resp"
        using client_Pull_Inr [OF 4] Inr by (auto simp: req)
      obtain r5 n5 where 5: "round_rows peer resp n4 = (r5, n5)" by fastforce
      show thesis
      proof (cases r5)
        case (Inl e)
        then have "same_data n n5" "res = Inl e" "n' = n5"
          using assms 1 2 3 4 5 r \<open>r4 = Inr resp\<close> same_data_trans [OF d4 same_node_data] round_rows_Inl
          by (auto simp: RoundOnce_def bindE_def)
        then show thesis using failed by simp
      next
        case ok: (Inr u)
        then show thesis
          using assms 1 2 3 4 5 r \<open>r4 = Inr resp\<close> answered [OF cc d4, of n5] ewm
          by (auto simp: RoundOnce_def bindE_def)
      qed
    qed
  qed
qed

section \<open>What a round achieves\<close>

text \<open>The network answers for the node \<open>p\<close> under the address \<open>peer\<close>.\<close>

definition connected :: "codec \<Rightarrow> net \<Rightarrow> string \<Rightarrow> string \<Rightarrow> node \<Rightarrow> bool" where
  "connected C N peer pid p \<longleftrightarrow> (\<forall>m cc m' req. client_conn N peer m = (Inr cc, m') \<longrightarrow>
     net_call N cc req = fst (server_Pull C pid req p))"

lemma round_request_watermark:
  "k \<in> set Kinds \<Longrightarrow> req_watermark (round_request s peer) k = wm_of s peer k"
  by (auto simp: req_watermark_def round_request_def Kinds_def gm_get_def KindRunner_def KindMeta_def)

lemma round_request_checksum:
  "k \<in> set Kinds \<Longrightarrow> req_checksum (round_request s peer) k = xor_loop (live_stamps k (st_rows s)) 0"
  by (auto simp: req_checksum_def round_request_def Kinds_def gm_get_def KindRunner_def KindMeta_def)

definition answer :: "pull_request \<Rightarrow> row list \<Rightarrow> row list" where
  "answer req t = concat (map (answer_rows req t) Kinds)"

lemma answer_subset: "set (answer req t) \<subseteq> {r \<in> set t. r_kind r \<in> set Kinds}"
  by (auto simp: answer_def answer_rows_def split: if_splits)

lemma answer_covers:
  "r \<in> set t \<Longrightarrow> r_kind r \<in> set Kinds \<Longrightarrow> req_watermark req (r_kind r) < r_hlc r \<Longrightarrow> r \<in> set (answer req t)"
  using set_changes [of "r_kind r" "req_watermark req (r_kind r)" t]
  by (auto simp: answer_def answer_rows_def simp del: set_changes intro!: bexI [of _ "r_kind r"])

lemma set_event_changes [simp]: "set (event_changes wm t) = {r \<in> set t. wm < er_hlc r}"
  by (simp add: event_changes_def)

lemma answer_events_subset: "set (answer_events req t) \<subseteq> set t"
  by (auto simp: answer_events_def)

lemma answer_events_covers: "e \<in> set t \<Longrightarrow> req_event_wm req < er_hlc e \<Longrightarrow> e \<in> set (answer_events req t)"
  using set_event_changes [of "req_event_wm req" t]
  by (auto simp: answer_events_def simp del: set_event_changes)

lemma connected_answer:
  assumes "connected C N peer pid p" "client_conn N peer m = (Inr cc, m')" "net_call N cc req = Inr resp"
  shows "resp_rows resp = answer req (st_rows (nd_store p)) \<and>
    (\<exists>evs. rs_events resp = map (event_to_pb C) evs \<and>
       list_all2 (decodes C) (answer_events req (st_events (nd_store p))) evs)"
proof -
  obtain p' where "server_Pull C pid req p = (Inr resp, p')"
    using assms by (metis connected_def surjective_pairing)
  from server_Pull_Inr [OF this] show ?thesis
    by (simp add: resp_rows_def answer_def map_concat comp_def)
qed

lemma raised_covers:
  assumes "st_watermarks s' = raise_watermarks peer (batch_max rs) (st_watermarks s)" "r \<in> set rs"
  shows "r_hlc r \<le> wm_of s' peer (r_kind r)"
  using batch_max_covers [OF assms(2)] assms(1)
  by (auto simp: wm_of_def raise_watermarks_def le_max_iff_disj split: option.splits)

lemma raised_attained:
  assumes "st_watermarks s' = raise_watermarks peer (batch_max rs) (st_watermarks s)"
  shows "wm_of s' peer k \<in> {wm_of s peer k, hlc_zero} \<union> r_hlc ` {r \<in> set rs. r_kind r = k}"
  using batch_max_attained [of rs k] assms
  by (auto simp: wm_of_def raise_watermarks_def max_def split: option.splits)

lemma raised_other:
  assumes "st_watermarks s' = raise_watermarks peer (batch_max rs) (st_watermarks s)" "\<forall>r \<in> set rs. r_kind r \<noteq> k"
  shows "wm_of s' peer k = wm_of s peer k"
proof -
  have "gm_get (batch_max rs) k = None"
    using assms(2) by (auto simp: batch_max_def batch_max_get)
  then show ?thesis using assms(1) by (simp add: wm_of_def raise_watermarks_def)
qed

lemma RoundOnce_connected:
  assumes "RoundOnce C N peer n = (res, n')" "connected C N peer pid p"
  obtains (failed) e where "res = Inl e" "same_data n n'"
  | (answered) n1 evs where
      "st_rows (nd_store n1) = merge_rows (answer (round_request (nd_store n) peer) (st_rows (nd_store p))) (st_rows (nd_store n))"
      "st_watermarks (nd_store n1) = raise_watermarks peer
         (batch_max (answer (round_request (nd_store n) peer) (st_rows (nd_store p)))) (st_watermarks (nd_store n))"
      "st_events (nd_store n1) = st_events (nd_store n)"
      "reading (nd_clock n) \<le> reading (nd_clock n1)"
      "\<forall>r \<in> set (answer (round_request (nd_store n) peer) (st_rows (nd_store p))). r_hlc r \<le> reading (nd_clock n1)"
      "log_grows peer n1 n'"
      "list_all2 (decodes C) (answer_events (round_request (nd_store n) peer) (st_events (nd_store p))) evs"
      "\<exists>resp. rs_events resp = map (event_to_pb C) evs \<and>
         round_events C peer (wm_of (nd_store n) peer KindEvent) resp n1 = (res, n')"
  using assms(1)
proof (cases rule: RoundOnce_shape)
  case (failed e)
  then show thesis using that(1) by blast
next
  case (answered cc m m' resp n0 n1)
  obtain evs where evs: "rs_events resp = map (event_to_pb C) evs"
      "list_all2 (decodes C) (answer_events (round_request (nd_store n) peer) (st_events (nd_store p))) evs"
    and rows: "resp_rows resp = answer (round_request (nd_store n) peer) (st_rows (nd_store p))"
    using connected_answer [OF assms(2) answered(1,2)] by blast
  show thesis
    using that(2) [of n1 evs] round_rows_Inr [OF answered(4)] answered(3,5) evs round_events_frame [OF answered(5)]
    by (auto simp: rows same_data_def same_tables_def)
qed

lemma not_newer_trans: "\<not> newer r c \<Longrightarrow> \<not> newer c d \<Longrightarrow> \<not> newer r d"
  using rows_lww.beats_weak by blast

lemma set_merge_rows: "set (merge_rows rs t) \<subseteq> set rs \<union> set t"
proof (induction rs arbitrary: t)
  case (Cons r rs)
  have "set (merge_row r t) \<subseteq> insert r (set t)"
    using set_upsert_subset [of row_pk r t] by (auto simp: merge_row_def split: option.splits)
  then show ?case using Cons [of "merge_row r t"] by auto
qed simp

definition has_version :: "row \<Rightarrow> row list \<Rightarrow> bool" where
  "has_version r t \<longleftrightarrow> (\<exists>c. tbl_select row_pk (row_pk r) t = Some c \<and> \<not> newer r c)"

lemma has_version_merge: "tbl_wf row_pk t \<Longrightarrow> has_version r t \<or> r \<in> set rs \<Longrightarrow> has_version r (merge_rows rs t)"
  unfolding has_version_def
  using rows_lww.merge_all_covers [of t r rs] rows_lww.merge_all_keeps [of t "row_pk r" _ rs] not_newer_trans
  by metis

lemma has_version_self: "tbl_wf row_pk t \<Longrightarrow> r \<in> set t \<Longrightarrow> has_version r t"
  by (auto simp: has_version_def tbl_select_iff newer_iff)

lemma canonical_reload:
  assumes "canonical C r" "decodes C r e"
  shows "pe_payload (event_to_pb C e) = er_payload r" "pb_payload C (er_payload r) = ev_payload e"
  using assms
  by (auto simp: canonical_def decodes_def event_to_pb_def pb_payload_def decode_payload_def
      split: if_splits sum.splits prod.splits option.splits)

lemma events_loop_eq:
  "list_all2 (decodes C) rs evs \<Longrightarrow> \<forall>r \<in> set rs. canonical C r \<Longrightarrow>
     events_loop C (map (event_to_pb C) evs) inc wm mx =
       Inr (inc @ evs, fold (\<lambda>e h. max h (ev_hlc e)) evs wm, fold (\<lambda>e h. max h (ev_hlc e)) evs mx)"
proof (induction rs arbitrary: evs inc wm mx)
  case (Cons r rs)
  then obtain e es where e: "evs = e # es" "decodes C r e" "list_all2 (decodes C) rs es"
    by (auto simp: list_all2_Cons1)
  have p: "pb_payload C (pe_payload (event_to_pb C e)) = ev_payload e"
    using canonical_reload [of C r e] Cons.prems(2) e(2) by simp
  have "\<lparr>ev_seq = pe_seq (event_to_pb C e), ev_type = pe_type (event_to_pb C e), ev_runner_id = pe_runner_id (event_to_pb C e),
      ev_payload = pb_payload C (pe_payload (event_to_pb C e)), ev_hlc = HLC (TS (ev_hlc e)) (Seq (ev_hlc e))\<rparr> = e"
    unfolding p by (simp add: event_to_pb_def)
  moreover have "pe_hlc (event_to_pb C e) = Some (ev_hlc e)"
    by (simp add: event_to_pb_def)
  ultimately show ?case
    using Cons.IH [OF e(3)] Cons.prems(2) by (simp add: e(1) Let_def after_max del: After_iff)
qed simp

lemma canonical_encodes: "list_all2 (decodes C) rs evs \<Longrightarrow> \<forall>r \<in> set rs. canonical C r \<Longrightarrow> list_all2 (encodes C) evs rs"
proof (induction rs arbitrary: evs)
  case (Cons r rs)
  then show ?case using decodes_encodes [of C r _ r] by (auto simp: list_all2_Cons1)
qed simp

lemma round_events_Inr:
  assumes "round_events C peer wm resp n = (Inr u, n')"
    and "rs_events resp = map (event_to_pb C) evs" "list_all2 (decodes C) rs evs" "\<forall>r \<in> set rs. canonical C r"
  shows "st_events (nd_store n') = evlog.ins_all rs (st_events (nd_store n)) \<and>
    (\<forall>r \<in> set rs. er_hlc r \<le> reading (nd_clock n')) \<and>
    (wm = wm_of (nd_store n) peer KindEvent \<longrightarrow> (\<forall>r \<in> set rs. er_hlc r \<le> wm_of (nd_store n') peer KindEvent))"
proof (cases "evs = []")
  case True
  then show ?thesis using assms by (auto simp: round_events_def ret_def evlog.ins_all_def)
next
  case False
  let ?mx = "fold (\<lambda>e h. max h (ev_hlc e)) evs"
  obtain s1 s2 where 1: "ApplyEvents C evs (nd_store n) = (Inr (), s1)"
    and 2: "SetWatermark peer KindEvent (?mx wm) s1 = (Inr (), s2)"
    and n': "nd_store n' = s2" "nd_clock n' = clock_update (?mx hlc_zero) (nd_clock n)"
    using assms False
    by (auto simp: round_events_def events_loop_eq bindE_Inr on_store_Inr on_metrics_def on_clock_def)
  obtain rs' fs where "list_all2 (encodes C) evs rs'" and s1: "s1 = (nd_store n)\<lparr>st_events := evlog.ins_all rs' (st_events (nd_store n)), st_faults := fs\<rparr>"
    using ApplyEvents_Inr [OF 1] by blast
  then have rs': "rs' = rs" using canonical_transfer [OF assms(3)] assms(4) by blast
  have "er_hlc r \<le> ?mx h" if "r \<in> set rs" for r h
  proof -
    have "er_hlc r \<in> set (map ev_hlc evs)" using decodes_hlc [OF assms(3)] that by simp
    then show ?thesis using fold_max_upper [of _ evs ev_hlc h] by auto
  qed
  then show ?thesis
    using SetWatermark_frame [OF 2] SetWatermark_Inr [OF 2] by (auto simp: n' s1 rs' le_max_iff_disj)
qed

text \<open>
  C9. A successful round brings the node up to its watermark with the peer. Every replicated row
  of the peer that is later than the watermark the node had for it is then held by the node, in
  that version or a newer one; the node's watermark and its clock are at or past its stamp; no
  row the node held has been replaced by one it is newer than; and the node holds no row that
  neither it nor the peer held. The same goes for the events: those later than the event
  watermark are in the node's log, byte for byte, unless their number was taken, and the log
  only grows.
\<close>
theorem RoundOnce_catches_up:
  assumes "RoundOnce C N peer n = (Inr (), n')" "connected C N peer pid p"
    and "store_wf (nd_store n)" "store_wf (nd_store p)" "\<forall>r \<in> set (st_events (nd_store p)). canonical C r"
  shows "(\<forall>r \<in> set (st_rows (nd_store p)).
        r_kind r \<in> set Kinds \<and> After (r_hlc r) (wm_of (nd_store n) peer (r_kind r)) \<longrightarrow>
        has_version r (st_rows (nd_store n')) \<and>
        r_hlc r \<le> wm_of (nd_store n') peer (r_kind r) \<and> r_hlc r \<le> reading (nd_clock n')) \<and>
    (\<forall>r \<in> set (st_rows (nd_store n)). has_version r (st_rows (nd_store n'))) \<and>
    set (st_rows (nd_store n')) \<subseteq> set (st_rows (nd_store n)) \<union> set (st_rows (nd_store p)) \<and>
    (\<forall>e \<in> set (st_events (nd_store p)). After (er_hlc e) (wm_of (nd_store n) peer KindEvent) \<longrightarrow>
        er_hlc e \<le> wm_of (nd_store n') peer KindEvent \<and>
        (e \<in> set (st_events (nd_store n')) \<or> event_pk e \<in> event_pk ` set (st_events (nd_store n)))) \<and>
    set (st_events (nd_store n)) \<subseteq> set (st_events (nd_store n')) \<and>
    set (st_events (nd_store n')) \<subseteq> set (st_events (nd_store n)) \<union> set (st_events (nd_store p))"
  using assms(1,2)
proof (cases rule: RoundOnce_connected)
  case (answered n1 evs)
  let ?t = "st_rows (nd_store p)" and ?req = "round_request (nd_store n) peer"
  let ?ev = "answer_events ?req (st_events (nd_store p))"
  obtain resp where resp: "rs_events resp = map (event_to_pb C) evs"
      "round_events C peer (wm_of (nd_store n) peer KindEvent) resp n1 = (Inr (), n')"
    using answered(8) by blast
  have rows: "st_rows (nd_store n') = merge_rows (answer ?req ?t) (st_rows (nd_store n))"
    and clk: "reading (nd_clock n1) \<le> reading (nd_clock n')"
    using answered(1,6) by (simp_all add: log_grows_def)
  have wm: "wm_of (nd_store n') peer k = wm_of (nd_store n1) peer k" if "k \<in> set Kinds" for k
    using answered(6) that by (auto simp: log_grows_def wm_of_def Kinds_def)
  have wf: "tbl_wf row_pk (st_rows (nd_store n))" "tbl_wf event_pk (st_events (nd_store n))" "tbl_wf event_pk (st_events (nd_store p))"
    using assms(3,4) by (simp_all add: store_wf_def)
  have ev: "set ?ev \<subseteq> set (st_events (nd_store p))"
    by (rule answer_events_subset)
  have late: "{e \<in> set (st_events (nd_store p)). After (er_hlc e) (wm_of (nd_store n) peer KindEvent)} \<subseteq> set ?ev"
    by (auto intro: answer_events_covers simp: req_event_wm_def round_request_def)
  have canon: "\<forall>r \<in> set ?ev. canonical C r" using ev assms(5) by blast
  have wm1: "wm_of (nd_store n) peer KindEvent = wm_of (nd_store n1) peer KindEvent"
    using raised_other [OF answered(2), of KindEvent] answer_subset [of ?req ?t] by (force simp: Kinds_def)
  note log = round_events_Inr [OF resp(2,1) answered(7) canon]
  have "inj_on event_pk (set ?ev)"
    using wf(3) ev by (auto simp: tbl_wf_def distinct_map intro: inj_on_subset)
  then have events: "set (st_events (nd_store n')) = set (st_events (nd_store n)) \<union>
      {e \<in> set ?ev. event_pk e \<notin> event_pk ` set (st_events (nd_store n))}"
    using log set_ins_all_iff [OF wf(2)] answered(3) by simp
  have new: "r \<in> set (answer ?req ?t)" if "r \<in> set ?t" "r_kind r \<in> set Kinds"
      "After (r_hlc r) (wm_of (nd_store n) peer (r_kind r))" for r
    using that by (intro answer_covers) (simp_all add: round_request_watermark)
  have "has_version r (st_rows (nd_store n')) \<and> r_hlc r \<le> wm_of (nd_store n') peer (r_kind r) \<and>
      r_hlc r \<le> reading (nd_clock n')" if "r \<in> set (answer ?req ?t)" "r_kind r \<in> set Kinds" for r
    using that answered(5) clk raised_covers [OF answered(2)] wf(1)
    by (auto simp: rows wm has_version_merge intro: order_trans)
  moreover have "set (st_rows (nd_store n')) \<subseteq> set (st_rows (nd_store n)) \<union> set ?t"
    using set_merge_rows [of "answer ?req ?t" "st_rows (nd_store n)"] answer_subset [of ?req ?t] rows by auto
  moreover have "\<forall>r \<in> set (st_rows (nd_store n)). has_version r (st_rows (nd_store n'))"
    using wf(1) by (simp add: rows has_version_merge has_version_self)
  ultimately show ?thesis
    using new events ev late log wm1 by (intro conjI ballI impI) (auto simp: subset_iff)
qed simp

section \<open>A round with a reachable peer succeeds\<close>

lemma client_conn_ok: "net_dial N peer = Inr c \<Longrightarrow> \<exists>cc cs. client_conn N peer n = (Inr cc, n\<lparr>nd_conns := cs\<rparr>)"
  by (auto simp: client_conn_def Let_def split: option.splits intro: exI [of _ "nd_conns n"])

lemma round_kinds_healthy:
  "healthy (nd_store n) \<Longrightarrow> \<exists>w c. round_kinds peer ks ws cs n = (Inr (w, c), n)"
  by (induction ks arbitrary: ws cs) (simp_all add: db_simps)

lemma round_rows_healthy:
  assumes "healthy (nd_store n)"
  shows "\<exists>n'. round_rows peer resp n = (Inr (), n') \<and> healthy (nd_store n')"
  using assms by (simp add: round_rows_def rows_loop_eq db_simps on_clock_def)

lemma round_events_healthy:
  assumes "healthy (nd_store n)" "rs_events resp = map (event_to_pb C) evs" "list_all2 (decodes C) rs evs"
    and "\<forall>r \<in> set rs. canonical C r"
  shows "\<exists>n'. round_events C peer wm resp n = (Inr (), n') \<and> healthy (nd_store n')"
  using assms events_loop_eq [OF assms(3,4)] canonical_encodes [OF assms(3,4)]
  by (simp add: round_events_def db_simps on_clock_def)

lemma RoundOnce_healthy:
  assumes "healthy (nd_store n)" "healthy (nd_store p)" "connected C N peer pid p" "net_dial N peer = Inr c"
    and "\<forall>r \<in> set (st_events (nd_store p)). canonical C r"
  shows "\<exists>n'. RoundOnce C N peer n = (Inr (), n') \<and> healthy (nd_store n')"
proof -
  have "\<forall>r \<in> set (st_events (nd_store p)). \<exists>e. decodes C r e"
    using assms(5) by (metis canonical_def decodes_def row_to_event_def event.select_convs(4))
  then obtain resp where resp: "fst (server_Pull C pid req p) = Inr (resp req)" for req
    using server_Pull_healthy [OF assms(2)] by (metis fst_conv)
  obtain w ch where k: "round_kinds peer Kinds [] [] n = (Inr (w, ch), n)"
    using round_kinds_healthy [OF assms(1)] by blast
  obtain cc cs where cc: "client_conn N peer n = (Inr cc, n\<lparr>nd_conns := cs\<rparr>)"
    using client_conn_ok [OF assms(4)] by blast
  define req where "req = \<lparr>rq_watermarks = map (\<lambda>(k, h). (k, Some h)) w, rq_checksums = Some ch,
      rq_event_watermark = Some (wm_of (nd_store n) peer KindEvent),
      rq_event_checksum = xor_loop (event_stamps (st_events (nd_store n))) 0\<rparr>"
  have call: "net_call N cc req = Inr (resp req)"
    using assms(3) cc resp unfolding connected_def by metis
  obtain n1 where n1: "round_rows peer (resp req) (n\<lparr>nd_conns := cs\<rparr>) = (Inr (), n1)" "healthy (nd_store n1)"
    using round_rows_healthy [of "n\<lparr>nd_conns := cs\<rparr>"] assms(1) by auto
  obtain evs where evs: "rs_events (resp req) = map (event_to_pb C) evs"
      "list_all2 (decodes C) (answer_events req (st_events (nd_store p))) evs"
    using connected_answer [OF assms(3) cc call] by blast
  obtain n2 where "round_events C peer (wm_of (nd_store n) peer KindEvent) (resp req) n1 = (Inr (), n2)" "healthy (nd_store n2)"
    using round_events_healthy [OF n1(2) evs] assms(5) answer_events_subset by blast
  then show ?thesis
    using assms(1) k cc call n1 by (simp add: RoundOnce_def db_simps client_Pull_def Let_def req_def)
qed

definition ex_net :: "node \<Rightarrow> net" where
  "ex_net p = \<lparr>net_state = (\<lambda>_. Ready), net_dial = (\<lambda>_. Inr 0), net_close = (\<lambda>_. None),
     net_call = (\<lambda>_ req. fst (server_Pull null_codec ''p'' req p))\<rparr>"

lemma ex_connected [simp]: "connected null_codec (ex_net p) peer ''p'' p" "net_dial (ex_net p) peer = Inr 0"
  by (simp_all add: connected_def ex_net_def)

lemma ex_node_sel [simp]: "nd_clock (ex_node rs) = NewClock" "wm_of (nd_store (ex_node rs)) q k = hlc_zero"
  "st_watermarks (nd_store (ex_node rs)) = Map.empty"
  by (simp_all add: ex_node_def wm_of_def empty_disk_def)

theorem RoundOnce_catches_up_witness:
  "\<exists>n'. RoundOnce null_codec (ex_net (ex_node [ex_row ''a'' ''x'' 5])) ''p'' (ex_node [ex_row ''a'' ''y'' 4]) = (Inr (), n') \<and>
     has_version (ex_row ''a'' ''x'' 5) (st_rows (nd_store n')) \<and> HLC 5 0 \<le> wm_of (nd_store n') ''p'' KindRunner"
proof -
  let ?p = "ex_node [ex_row ''a'' ''x'' 5]" and ?n = "ex_node [ex_row ''a'' ''y'' 4]"
  obtain n' where r: "RoundOnce null_codec (ex_net ?p) ''p'' ?n = (Inr (), n')"
    using RoundOnce_healthy [of ?n ?p null_codec "ex_net ?p" "''p''" "''p''" 0] by auto
  have wf: "store_wf (nd_store ?n)" "store_wf (nd_store ?p)" by (simp_all add: store_wf_def)
  show ?thesis
    using RoundOnce_catches_up [OF r ex_connected(1) wf] r by (simp add: Kinds_def hlc_zero_def)
qed

section \<open>The watermark never runs ahead\<close>

text \<open>The node holds, in some version at least as new, every row of \<open>t\<close> up to its watermark for the peer.\<close>

definition caught_up :: "node \<Rightarrow> string \<Rightarrow> row list \<Rightarrow> bool" where
  "caught_up n peer t \<longleftrightarrow> (\<forall>r \<in> set t. r_kind r \<in> set Kinds \<and> r_hlc r \<le> wm_of (nd_store n) peer (r_kind r) \<longrightarrow>
     has_version r (st_rows (nd_store n)))"



section \<open>Two nodes agree after a round in each direction\<close>

definition replicable :: "codec \<Rightarrow> store \<Rightarrow> bool" where
  "replicable C s \<longleftrightarrow> store_wf s \<and> healthy s \<and>
     (\<forall>r \<in> set (st_rows s). r_kind r \<in> set Kinds \<and> After (r_hlc r) hlc_zero) \<and>
     (\<forall>e \<in> set (st_events s). canonical C e \<and> After (er_hlc e) hlc_zero)"

definition unacquainted :: "store \<Rightarrow> string \<Rightarrow> bool" where
  "unacquainted s peer \<longleftrightarrow> (\<forall>k. wm_of s peer k = hlc_zero)"

lemma first_contact:
  assumes "RoundOnce C N peer n = (Inr (), n')" "connected C N peer pid p"
    and "replicable C (nd_store n)" "replicable C (nd_store p)" "unacquainted (nd_store n) peer"
  shows "set (answer (round_request (nd_store n) peer) (st_rows (nd_store p))) = set (st_rows (nd_store p)) \<and>
    st_rows (nd_store n') = merge_rows (answer (round_request (nd_store n) peer) (st_rows (nd_store p))) (st_rows (nd_store n)) \<and>
    set (answer_events (round_request (nd_store n) peer) (st_events (nd_store p))) = set (st_events (nd_store p)) \<and>
    st_events (nd_store n') = evlog.ins_all (answer_events (round_request (nd_store n) peer) (st_events (nd_store p))) (st_events (nd_store n))"
  using assms(1,2)
proof (cases rule: RoundOnce_connected)
  case (answered n1 evs)
  let ?req = "round_request (nd_store n) peer"
  have "r \<in> set (answer ?req (st_rows (nd_store p)))" if "r \<in> set (st_rows (nd_store p))" for r
    using that assms(4,5) by (intro answer_covers) (auto simp: replicable_def unacquainted_def round_request_watermark)
  moreover have "e \<in> set (answer_events ?req (st_events (nd_store p)))" if "e \<in> set (st_events (nd_store p))" for e
    using that assms(4,5) by (intro answer_events_covers)
      (auto simp: replicable_def unacquainted_def req_event_wm_def round_request_def)
  moreover have canon: "\<forall>r \<in> set (answer_events ?req (st_events (nd_store p))). canonical C r"
    using assms(4) answer_events_subset [of ?req "st_events (nd_store p)"] by (auto simp: replicable_def)
  obtain resp where resp: "rs_events resp = map (event_to_pb C) evs"
      "round_events C peer (wm_of (nd_store n) peer KindEvent) resp n1 = (Inr (), n')"
    using answered(8) by blast
  have "st_events (nd_store n') = evlog.ins_all (answer_events ?req (st_events (nd_store p))) (st_events (nd_store n))"
    using round_events_Inr [OF resp(2,1) answered(7) canon] answered(3) by simp
  moreover have "st_rows (nd_store n') = merge_rows (answer ?req (st_rows (nd_store p))) (st_rows (nd_store n))"
    using answered(1,6) by (simp add: log_grows_def)
  ultimately show ?thesis
    using answer_subset [of ?req "st_rows (nd_store p)"] answer_events_subset [of ?req "st_events (nd_store p)"] by blast
qed simp

lemma ins_all_union:
  assumes "tbl_wf event_pk t" "inj_on event_pk (set rs \<union> set t)"
  shows "set (evlog.ins_all rs t) = set rs \<union> set t"
proof -
  have "r \<in> set t" if "r \<in> set rs" "event_pk r \<in> event_pk ` set t" for r
    using that assms(2) by (auto dest: inj_onD)
  moreover have "inj_on event_pk (set rs)"
    using assms(2) by (rule inj_on_subset) simp
  ultimately show ?thesis
    using set_ins_all_iff [OF assms(1)] by blast
qed

lemma merge_back:
  assumes "tbl_wf row_pk t" "tbl_wf row_pk u" "set rs = set u" "set qs = set (merge_rows rs t)"
    and "stamp_unique (set t \<union> set u)"
  shows "set (merge_rows qs u) = set (merge_rows rs t)"
proof -
  let ?m = "merge_rows rs t"
  have wf: "tbl_wf row_pk ?m" using assms(1) by auto
  have "set ?m \<subseteq> set t \<union> set u"
    using set_merge_rows [of rs t] assms(3) by auto
  then have "stamp_unique (set rs \<union> set ?m)"
    using assms(3,5) by (elim stamp_unique_mono) auto
  then have "set (merge_rows rs ?m) = set (merge_rows qs u)"
    using assms wf by (intro merge_rows_converge) auto
  moreover have "set (merge_rows rs ?m) = set ?m"
    using wf assms(1) by (intro tbl_set_eqI [of row_pk]) (auto simp: rows_lww.merge_all_idem)
  ultimately show ?thesis by simp
qed

text \<open>
  Two nodes that have not met hold the same after one round in each direction. Both rounds
  succeed when the databases do not fail, the peers can be reached and the payloads are JSON as
  the store writes it; afterwards both nodes hold the same rows and the same events, provided
  stamp and owner tell the versions of a row apart and a runner's number identifies one event.
\<close>
theorem rounds_converge:
  assumes "replicable C (nd_store a)" "replicable C (nd_store b)"
    and "unacquainted (nd_store a) pb" "unacquainted (nd_store b) pa"
    and "stamp_unique (set (st_rows (nd_store a)) \<union> set (st_rows (nd_store b)))"
    and "inj_on event_pk (set (st_events (nd_store a)) \<union> set (st_events (nd_store b)))"
    and "connected C N pb idb b" "net_dial N pb = Inr c"
    and "RoundOnce C N pb a = (ra, a')"
    and "connected C M pa ida a'" "net_dial M pa = Inr d"
    and "RoundOnce C M pa b = (rb, b')"
  shows "ra = Inr () \<and> rb = Inr () \<and>
    set (st_rows (nd_store a')) = set (st_rows (nd_store b')) \<and>
    set (st_events (nd_store a')) = set (st_events (nd_store b'))"
proof -
  let ?A = "nd_store a" and ?B = "nd_store b"
  have ra: "ra = Inr ()" and ha: "healthy (nd_store a')"
    using RoundOnce_healthy [of a b C N pb idb c] assms(1,2,7,8,9) by (auto simp: replicable_def)
  let ?rq = "round_request ?A pb"
  note f = first_contact [OF assms(9) [unfolded ra] assms(7,1,2,3)]
  have wf: "tbl_wf row_pk (st_rows ?A)" "tbl_wf row_pk (st_rows ?B)"
    "tbl_wf event_pk (st_events ?A)" "tbl_wf event_pk (st_events ?B)"
    using assms(1,2) by (simp_all add: replicable_def store_wf_def)
  have sub: "set (st_rows (nd_store a')) \<subseteq> set (st_rows ?A) \<union> set (st_rows ?B)"
    "set (st_events (nd_store a')) \<subseteq> set (st_events ?A) \<union> set (st_events ?B)"
    using f set_merge_rows [of "answer ?rq (st_rows ?B)"] set_ins_all(2) [of "answer_events ?rq (st_events ?B)"] by auto
  have wfa: "store_wf (nd_store a')"
    using f wf by (auto simp: store_wf_def)
  have repa: "replicable C (nd_store a')"
    using sub wfa ha assms(1,2) by (auto simp: replicable_def)
  have rb: "rb = Inr ()"
    using RoundOnce_healthy [of b a' C M pa ida d] assms(2,10,11,12) repa by (auto simp: replicable_def)
  note g = first_contact [OF assms(12) [unfolded rb] assms(10,2) repa assms(4)]
  have "set (st_rows (nd_store b')) = set (st_rows (nd_store a'))"
    using merge_back [of "st_rows ?A" "st_rows ?B"] f g wf assms(5) by simp
  moreover have "set (st_events (nd_store a')) = set (st_events ?A) \<union> set (st_events ?B)"
    using ins_all_union [OF wf(3), of "answer_events ?rq (st_events ?B)"] f assms(6) by (simp add: Un_commute)
  moreover from this have "set (st_events (nd_store b')) = set (st_events ?A) \<union> set (st_events ?B)"
    using ins_all_union [OF wf(4), of "answer_events (round_request ?B pa) (st_events (nd_store a'))"] g assms(6)
    by (simp add: Un_ac)
  ultimately show ?thesis using ra rb by simp
qed

theorem rounds_converge_witness:
  "let a = ex_node [ex_row ''r'' ''x'' 5, ex_row ''s'' ''x'' 7]; b = ex_node [ex_row ''r'' ''y'' 6, ex_row ''t'' ''y'' 2];
       a' = snd (RoundOnce null_codec (ex_net b) ''b'' a); b' = snd (RoundOnce null_codec (ex_net a') ''a'' b)
   in set (st_rows (nd_store a')) = set (st_rows (nd_store b'))"
proof -
  let ?a = "ex_node [ex_row ''r'' ''x'' 5, ex_row ''s'' ''x'' 7]" and ?b = "ex_node [ex_row ''r'' ''y'' 6, ex_row ''t'' ''y'' 2]"
  have r: "replicable null_codec (nd_store ?a)" "replicable null_codec (nd_store ?b)"
    by (simp_all add: replicable_def store_wf_def Kinds_def hlc_zero_def)
  have u: "unacquainted (nd_store ?a) ''b''" "unacquainted (nd_store ?b) ''a''"
    by (simp_all add: unacquainted_def)
  have "stamp_unique (set (st_rows (nd_store ?a)) \<union> set (st_rows (nd_store ?b)))"
    by (auto simp: stamp_unique_def)
  then show ?thesis
    using rounds_converge [OF r u _ _ ex_connected surjective_pairing ex_connected surjective_pairing]
    by (simp add: Let_def)
qed

section \<open>All peers\<close>

lemma rounds_all:
  "rounds C N ps first n = (res, n') \<Longrightarrow> (\<forall>e. res = Inl e \<longrightarrow> \<not> is_panic e) \<Longrightarrow>
     n' = fold (\<lambda>p m. snd (RoundOnce C N p m)) (filter (\<lambda>p. p \<noteq> []) ps) n \<and> (\<exists>x. res = Inr x) \<and>
     (first \<noteq> None \<longrightarrow> res = Inr first)"
proof (induction ps arbitrary: first n)
  case (Cons p ps)
  obtain r m where r: "RoundOnce C N p n = (r, m)" by fastforce
  show ?case
  proof (cases "p = []")
    case True
    then show ?thesis using Cons by simp
  next
    case p: False
    show ?thesis
    proof (cases r)
      case (Inl e)
      then have "\<not> is_panic e" using Cons.prems r p by (auto simp: tryE_def throw_def split: if_splits)
      then have "rounds C N ps (if first = None then Some e else first) m = (res, n')"
        using Cons.prems(1) r p Inl by (simp add: tryE_def)
      from Cons.IH [OF this Cons.prems(2)] show ?thesis
        using r p by (cases first) auto
    next
      case (Inr u)
      then have "rounds C N ps first m = (res, n')"
        using Cons.prems(1) r p by (simp add: tryE_def)
      from Cons.IH [OF this Cons.prems(2)] show ?thesis using r p by simp
    qed
  qed
qed (auto simp: ret_def)

text \<open>
  A peer that fails does not keep the others from their rounds. Unless a round panics,
  \<^verbatim>\<open>roundAll\<close> runs the round of every peer with an address, in the order they get their turn,
  whatever errors occur on the way; it counts the round, and if it returns an error it counts
  that too.
\<close>
theorem roundAll_every_peer:
  assumes "roundAll C N ns peers n = (res, n')" "\<forall>e. res = Inl e \<longrightarrow> \<not> is_panic e"
  shows "let n0 = n\<lparr>nd_metrics := (nd_metrics n)\<lparr>SyncRounds := SyncRounds (nd_metrics n) + 1\<rparr>\<rparr>;
             n1 = fold (\<lambda>p m. snd (RoundOnce C N p m)) (filter (\<lambda>p. p \<noteq> []) peers) n0
         in nd_store n' = nd_store n1 \<and> nd_clock n' = nd_clock n1 \<and> nd_conns n' = nd_conns n1 \<and>
            SyncRoundErrors (nd_metrics n') = SyncRoundErrors (nd_metrics n1) + (if res = Inr () then 0 else 1)"
proof -
  let ?n0 = "n\<lparr>nd_metrics := (nd_metrics n)\<lparr>SyncRounds := SyncRounds (nd_metrics n) + 1\<rparr>\<rparr>"
  show ?thesis
  proof (cases "peers = []")
    case True
    then show ?thesis
      using assms(1) by (auto simp: roundAll_def bindE_def on_metrics_def observe_round_def counter_inc_def counter_add_def)
  next
    case False
    obtain r m where r: "rounds C N peers None ?n0 = (r, m)" by fastforce
    have step: "roundAll C N ns peers n = (case r of Inl e \<Rightarrow> (Inl e, m) | Inr fe \<Rightarrow>
        (case fe of None \<Rightarrow> observe_round ns m
         | Some e \<Rightarrow> bindE (on_metrics (\<lambda>m. m\<lparr>SyncRoundErrors := counter_inc (SyncRoundErrors m)\<rparr>)) (\<lambda>_.
             bindE (observe_round ns) (\<lambda>_. throw e)) m))"
      using False r by (simp add: roundAll_def bindE_def on_metrics_def counter_inc_def counter_add_def split: sum.splits option.splits)
    have "\<forall>e. r = Inl e \<longrightarrow> \<not> is_panic e"
      using assms step by auto
    from rounds_all [OF r this] show ?thesis
      using assms(1) unfolding step
      by (auto simp: Let_def observe_round_def on_metrics_def bindE_def throw_def counter_inc_def counter_add_def
          split: option.splits)
  qed
qed

lemma RoundOnce_unreachable:
  assumes "healthy (nd_store n)" "net_dial N peer = Inl e" "gm_get (nd_conns n) peer = None"
  shows "RoundOnce C N peer n = (Inl e, n)"
proof -
  obtain w c where "round_kinds peer Kinds [] [] n = (Inr (w, c), n)"
    using round_kinds_healthy [OF assms(1)] by blast
  then show ?thesis
    using assms by (simp add: RoundOnce_def db_simps client_Pull_def client_conn_def Let_def bindE_def on_store_def)
qed

theorem roundAll_every_peer_witness:
  "let N = (ex_net (ex_node []))\<lparr>net_dial := (\<lambda>a. Inl (ErrRpc a))\<rparr>;
       r = roundAll null_codec N 5 [''a'', '''', ''b''] (ex_node [])
   in fst r = Inl (ErrRpc ''a'') \<and> SyncRoundErrors (nd_metrics (snd r)) = 1"
proof -
  let ?N = "(ex_net (ex_node []))\<lparr>net_dial := (\<lambda>a. Inl (ErrRpc a))\<rparr>"
  have R: "RoundOnce null_codec ?N p ((ex_node [])\<lparr>nd_metrics := m\<rparr>) = (Inl (ErrRpc p), (ex_node [])\<lparr>nd_metrics := m\<rparr>)" for p m
    by (rule RoundOnce_unreachable) (simp_all add: ex_node_def gm_get_def healthy_def empty_disk_def)
  have m: "nd_metrics (ex_node []) = metrics_zero" by (simp add: ex_node_def)
  have f: "fst (roundAll null_codec ?N 5 [''a'', '''', ''b''] (ex_node [])) = Inl (ErrRpc ''a'')"
    by (simp add: roundAll_def bindE_def on_metrics_def tryE_def R is_panic_def ret_def throw_def observe_round_def)
  show ?thesis
    using roundAll_every_peer [OF surjective_pairing, of null_codec ?N 5 "[''a'', '''', ''b'']" "ex_node []"] f
    by (simp add: Let_def is_panic_def R m metrics_zero_def)
qed

section \<open>Tombstone collection\<close>

text \<open>
  C31. Collection spares what is recent. A turn of \<^verbatim>\<open>gcTombstones\<close> never fails; it removes at most
  tombstones stamped more than an hour before the node's clock, and none at all when the clock
  reads an hour or less and no stamp is negative; live rows, recent tombstones, events and
  watermarks stay. On a database that does not fail it removes every tombstone that old.
\<close>
theorem gcTombstones_grace:
  assumes "gcTombstones now n = (res, n')"
  shows "res = Inr () \<and> st_events (nd_store n') = st_events (nd_store n) \<and>
    st_watermarks (nd_store n') = st_watermarks (nd_store n) \<and> reading (nd_clock n') = fst (tick now (nd_clock n)) \<and>
    set (st_rows (nd_store n')) \<subseteq> set (st_rows (nd_store n)) \<and>
    (\<forall>r \<in> set (st_rows (nd_store n)).
      (r_tombstone r \<longrightarrow> TS (r_hlc r) \<ge> TS (reading (nd_clock n')) - 3600000 \<and> TS (r_hlc r) \<ge> 0 \<and> Seq (r_hlc r) \<ge> 0) \<longrightarrow>
      r \<in> set (st_rows (nd_store n'))) \<and>
    (healthy (nd_store n) \<longrightarrow> (\<forall>r \<in> set (st_rows (nd_store n')). r_tombstone r \<longrightarrow>
      TS (r_hlc r) \<ge> TS (reading (nd_clock n')) - 3600000))"
proof -
  obtain h c where t: "tick now (nd_clock n) = (h, c)" by fastforce
  have rd: "reading c = h" using tick_reading [of now "nd_clock n"] t by simp
  let ?m = "HLC (if TS h > gc_grace then TS h - gc_grace else 0) 0"
  obtain r s where g: "GCTombstones ?m (nd_store n) = (r, s)" by fastforce
  have res: "res = Inr ()" "nd_store n' = s" "nd_clock n' = c"
    using assms g t by (auto simp: gcTombstones_def clock_tick_def bindE_def Let_def tryE_def on_store_def ret_def split: sum.splits)
  show ?thesis
  proof (cases r)
    case (Inl e)
    moreover have "\<not> healthy (nd_store n)"
      using g Inl by (auto simp: GCTombstones_healthy)
    ultimately show ?thesis
      using res g rd t GCTombstones_Inl [of ?m "nd_store n" e s] by (simp add: same_tables_def)
  next
    case (Inr k)
    then have "st_rows s = filter (\<lambda>r. \<not> gc_drops ?m r) (st_rows (nd_store n))" "st_events s = st_events (nd_store n)"
        "st_watermarks s = st_watermarks (nd_store n)"
      using g GCTombstones_Inr [of ?m "nd_store n" k s] by auto
    then show ?thesis
      using res rd t by (auto simp: gc_drops_def gc_grace_def split: if_splits)
  qed
qed

theorem gcTombstones_grace_witness:
  "let old = (ex_row ''a'' ''x'' 1000)\<lparr>r_tombstone := True\<rparr>; young = (ex_row ''b'' ''x'' 4000000)\<lparr>r_tombstone := True\<rparr>
   in young \<in> set (st_rows (nd_store (snd (gcTombstones 5000000 (ex_node [old, young]))))) \<and>
      old \<notin> set (st_rows (nd_store (snd (gcTombstones 5000000 (ex_node [old, young])))))"
proof -
  let ?old = "(ex_row ''a'' ''x'' 1000)\<lparr>r_tombstone := True\<rparr>" and ?young = "(ex_row ''b'' ''x'' 4000000)\<lparr>r_tombstone := True\<rparr>"
  let ?n = "ex_node [?old, ?young]"
  have "fst (tick 5000000 (nd_clock ?n)) = HLC 5000000 0"
    by (simp add: tick_def NewClock_def)
  then show ?thesis
    unfolding Let_def
    using gcTombstones_grace [OF surjective_pairing, of 5000000 ?n] by auto
qed

section \<open>A missing stamp\<close>

lemma events_loop_nil: "\<exists>p \<in> set ps. pe_hlc p = None \<Longrightarrow> events_loop C ps inc wm mx = Inl (Panic ''nil pointer dereference'')"
  by (induction ps arbitrary: inc wm mx) (auto simp: Let_def split: option.splits)

text \<open>
  C38. An event without a stamp in a peer's answer takes the process down. The rows of the answer
  have been merged by then; none of its events is applied. A row without a stamp is read as
  stamped zero instead.
\<close>
theorem nil_event_stamp_panics:
  assumes "net_dial N peer = Inr c" "\<forall>cc. net_call N cc (round_request (nd_store n) peer) = Inr resp"
    and "healthy (nd_store n)" "\<exists>p \<in> set (rs_events resp). pe_hlc p = None"
  shows "fst (RoundOnce C N peer n) = Inl (Panic ''nil pointer dereference'') \<and>
    st_rows (nd_store (snd (RoundOnce C N peer n))) = merge_rows (map pb_to_row (rs_rows resp)) (st_rows (nd_store n)) \<and>
    st_events (nd_store (snd (RoundOnce C N peer n))) = st_events (nd_store n)"
proof -
  obtain w ch where k: "round_kinds peer Kinds [] [] n = (Inr (w, ch), n)"
    using round_kinds_healthy [OF assms(3)] by blast
  obtain cc cs where cc: "client_conn N peer n = (Inr cc, n\<lparr>nd_conns := cs\<rparr>)"
    using client_conn_ok [OF assms(1)] by blast
  have req: "\<lparr>rq_watermarks = map (\<lambda>(k, h). (k, Some h)) w, rq_checksums = Some ch,
      rq_event_watermark = Some (wm_of (nd_store n) peer KindEvent),
      rq_event_checksum = xor_loop (event_stamps (st_events (nd_store n))) 0\<rparr> = round_request (nd_store n) peer"
    using round_kinds_Inr [OF k] by (simp add: round_request_def)
  obtain n1 where n1: "round_rows peer resp (n\<lparr>nd_conns := cs\<rparr>) = (Inr (), n1)"
    using round_rows_healthy [of "n\<lparr>nd_conns := cs\<rparr>"] assms(3) by auto
  have ne: "rs_events resp \<noteq> []" using assms(4) by auto
  have "RoundOnce C N peer n = (Inl (Panic ''nil pointer dereference''), n1)"
    using assms k cc n1 ne
    by (simp add: RoundOnce_def db_simps client_Pull_def Let_def req round_events_def events_loop_nil throw_def bindE_def on_store_def)
  then show ?thesis
    using round_rows_Inr [OF n1] by (simp add: resp_rows_def)
qed

theorem nil_event_stamp_panics_witness:
  "let ev = \<lparr>pe_runner_id = ''r'', pe_seq = 1, pe_type = ''RunnerJoined'', pe_payload = '''', pe_hlc = None\<rparr>;
       resp = \<lparr>rs_node_id = ''p'', rs_rows = [], rs_checksums = [], rs_events = [ev], rs_event_checksum = 0\<rparr>;
       N = (ex_net (ex_node []))\<lparr>net_call := (\<lambda>_ _. Inr resp)\<rparr>
   in fst (RoundOnce null_codec N ''p'' (ex_node [])) = Inl (Panic ''nil pointer dereference'')"
proof -
  let ?ev = "\<lparr>pe_runner_id = ''r'', pe_seq = 1, pe_type = ''RunnerJoined'', pe_payload = '''', pe_hlc = None\<rparr>"
  let ?resp = "\<lparr>rs_node_id = ''p'', rs_rows = [], rs_checksums = [], rs_events = [?ev], rs_event_checksum = 0\<rparr>"
  let ?N = "(ex_net (ex_node []))\<lparr>net_call := (\<lambda>_ _. Inr ?resp)\<rparr>"
  have "net_dial ?N ''p'' = Inr 0" by (simp add: ex_net_def)
  then show ?thesis
    using nil_event_stamp_panics [of ?N "''p''" 0 "ex_node []" ?resp null_codec] by (simp add: Let_def)
qed

end
