(* ===== verification/Runner.thy ===== *)
theory Runner
  imports Store
begin

text \<open>
  \<^verbatim>\<open>internal/model/model.go\<close>: the runner and its JSON form (\<^verbatim>\<open>Encode\<close>, \<^verbatim>\<open>Decode\<close>), at the level of JSON
  values; text is the codec's. The decoder goes through the members of an object in order,
  finds the field by its tag without regard to case, leaves it alone for null and goes on
  after a member of the wrong type, which makes the result an error.
\<close>

section \<open>Runners\<close>

definition RunnerActive :: string where "RunnerActive = ''active''"
definition RunnerDraining :: string where "RunnerDraining = ''draining''"
definition RunnerOffline :: string where "RunnerOffline = ''offline''"

record runner =
  RunnerID :: string
  Hostname :: string
  IP :: string
  Region :: string
  Version :: string
  Status :: string
  LastHeartbeat :: int
  CPUUtil :: f64
  MemUtil :: f64
  FreeDiskMB :: int
  WorkerCapacity :: int
  AvailableWorkers :: int
  Labels :: "string gomap option"

definition Key :: "runner \<Rightarrow> string" where
  "Key r = RunnerID r"

definition runner_zero :: runner where
  "runner_zero = \<lparr>RunnerID = [], Hostname = [], IP = [], Region = [], Version = [], Status = [],
     LastHeartbeat = 0, CPUUtil = Fin 0, MemUtil = Fin 0, FreeDiskMB = 0, WorkerCapacity = 0,
     AvailableWorkers = 0, Labels = None\<rparr>"

section \<open>Encoding\<close>

definition runner_json :: "runner \<Rightarrow> error + json" where
  "runner_json r =
     (case f64_json (CPUUtil r) of
        Inl e \<Rightarrow> Inl e
      | Inr cpu \<Rightarrow>
          (case f64_json (MemUtil r) of
             Inl e \<Rightarrow> Inl e
           | Inr mem \<Rightarrow> Inr (JObj (
               [(''runner_id'', JStr (RunnerID r)), (''hostname'', JStr (Hostname r)), (''ip'', JStr (IP r)),
                (''region'', JStr (Region r)), (''version'', JStr (Version r)), (''status'', JStr (Status r)),
                (''last_heartbeat'', JInt (LastHeartbeat r)), (''cpu_util'', cpu), (''mem_util'', mem),
                (''free_disk_mb'', JInt (FreeDiskMB r)), (''worker_capacity'', JInt (WorkerCapacity r)),
                (''available_workers'', JInt (AvailableWorkers r))] @
               (case Labels r of
                  None \<Rightarrow> []
                | Some m \<Rightarrow> (if m = [] then [] else [(''labels'', str_map_json (Some m))]))))))"

section \<open>Decoding\<close>

text \<open>Names are compared up to case; the long s and the Kelvin sign are cases of s and k.\<close>

fun fold_name :: "string \<Rightarrow> string" where
  "fold_name [] = []"
| "fold_name (c # cs) =
     (if (of_char c :: nat) = 197 \<and> map of_char (take 1 cs) = [191 :: nat] then CHR ''s'' # fold_name (drop 1 cs)
      else if (of_char c :: nat) = 226 \<and> map of_char (take 2 cs) = [132 :: nat, 170] then CHR ''k'' # fold_name (drop 2 cs)
      else ascii_lower c # fold_name cs)"

definition get_str :: "json \<Rightarrow> string \<Rightarrow> string \<times> bool" where
  "get_str j old = (case j of JStr s \<Rightarrow> (s, True) | JNull \<Rightarrow> (old, True) | _ \<Rightarrow> (old, False))"

definition get_int :: "json \<Rightarrow> int \<Rightarrow> int \<times> bool" where
  "get_int j old = (case j of JInt i \<Rightarrow> if in64 i then (i, True) else (old, False) | JNull \<Rightarrow> (old, True) | _ \<Rightarrow> (old, False))"

definition get_f64 :: "json \<Rightarrow> f64 \<Rightarrow> f64 \<times> bool" where
  "get_f64 j old =
     (case j of JNull \<Rightarrow> (old, True) | _ \<Rightarrow> (case json_f64 j of Some x \<Rightarrow> (x, True) | None \<Rightarrow> (old, False)))"

definition set_field :: "string \<Rightarrow> json \<Rightarrow> runner \<Rightarrow> runner \<times> bool" where
  "set_field name j r =
     (let n = fold_name name in
      if n = ''runner_id'' then (let (v, ok) = get_str j (RunnerID r) in (r\<lparr>RunnerID := v\<rparr>, ok))
      else if n = ''hostname'' then (let (v, ok) = get_str j (Hostname r) in (r\<lparr>Hostname := v\<rparr>, ok))
      else if n = ''ip'' then (let (v, ok) = get_str j (IP r) in (r\<lparr>IP := v\<rparr>, ok))
      else if n = ''region'' then (let (v, ok) = get_str j (Region r) in (r\<lparr>Region := v\<rparr>, ok))
      else if n = ''version'' then (let (v, ok) = get_str j (Version r) in (r\<lparr>Version := v\<rparr>, ok))
      else if n = ''status'' then (let (v, ok) = get_str j (Status r) in (r\<lparr>Status := v\<rparr>, ok))
      else if n = ''last_heartbeat'' then (let (v, ok) = get_int j (LastHeartbeat r) in (r\<lparr>LastHeartbeat := v\<rparr>, ok))
      else if n = ''cpu_util'' then (let (v, ok) = get_f64 j (CPUUtil r) in (r\<lparr>CPUUtil := v\<rparr>, ok))
      else if n = ''mem_util'' then (let (v, ok) = get_f64 j (MemUtil r) in (r\<lparr>MemUtil := v\<rparr>, ok))
      else if n = ''free_disk_mb'' then (let (v, ok) = get_int j (FreeDiskMB r) in (r\<lparr>FreeDiskMB := v\<rparr>, ok))
      else if n = ''worker_capacity'' then (let (v, ok) = get_int j (WorkerCapacity r) in (r\<lparr>WorkerCapacity := v\<rparr>, ok))
      else if n = ''available_workers'' then (let (v, ok) = get_int j (AvailableWorkers r) in (r\<lparr>AvailableWorkers := v\<rparr>, ok))
      else if n = ''labels'' then (let (v, err) = json_str_map j (Labels r) in (r\<lparr>Labels := v\<rparr>, err = None))
      else (r, True))"

fun set_fields :: "(string \<times> json) list \<Rightarrow> runner \<Rightarrow> runner \<times> bool" where
  "set_fields [] r = (r, True)"
| "set_fields (kv # kvs) r =
     (let (r', ok) = set_field (fst kv) (snd kv) r; (r'', ok') = set_fields kvs r' in (r'', ok \<and> ok'))"

definition json_runner :: "json \<Rightarrow> error + runner" where
  "json_runner j =
     (case j of
        JNull \<Rightarrow> Inr runner_zero
      | JObj kvs \<Rightarrow> (let (r, ok) = set_fields kvs runner_zero in if ok then Inr r else Inl ErrJson)
      | _ \<Rightarrow> Inl ErrJson)"

definition Encode :: "codec \<Rightarrow> runner \<Rightarrow> error + string" where
  "Encode C r = (case runner_json r of Inl e \<Rightarrow> Inl e | Inr j \<Rightarrow> marshal C j)"

definition Decode :: "codec \<Rightarrow> string \<Rightarrow> error + runner" where
  "Decode C b = (case unmarshal C b of Inl e \<Rightarrow> Inl e | Inr j \<Rightarrow> json_runner j)"

section \<open>Round trip\<close>

definition f64_ok :: "f64 \<Rightarrow> bool" where
  "f64_ok x = (case x of Fin y \<Rightarrow> is_f64 y | _ \<Rightarrow> False)"

definition runner_ok :: "runner \<Rightarrow> bool" where
  "runner_ok r \<longleftrightarrow> in64 (LastHeartbeat r) \<and> in64 (FreeDiskMB r) \<and> in64 (WorkerCapacity r) \<and> in64 (AvailableWorkers r) \<and>
     f64_ok (CPUUtil r) \<and> f64_ok (MemUtil r) \<and> (case Labels r of None \<Rightarrow> True | Some m \<Rightarrow> gm_wf m)"

definition norm_labels :: "runner \<Rightarrow> runner" where
  "norm_labels r = r\<lparr>Labels := (if Labels r = Some [] then None else Labels r)\<rparr>"

lemma f64_ok_json: "f64_ok x \<Longrightarrow> \<exists>j. f64_json x = Inr j \<and> j \<noteq> JNull \<and> json_f64 j = Some x"
  by (auto simp: f64_ok_def is_f64_def num_f64_def split: f64.splits)

lemma get_str_JStr [simp]: "get_str (JStr s) old = (s, True)"
  by (simp add: get_str_def)

lemma get_int_JInt [simp]: "in64 i \<Longrightarrow> get_int (JInt i) old = (i, True)"
  by (simp add: get_int_def)

lemma get_f64_ok [simp]: "j \<noteq> JNull \<Longrightarrow> json_f64 j = Some x \<Longrightarrow> get_f64 j old = (x, True)"
  by (cases j) (simp_all add: get_f64_def)

lemma fold_tags [simp]:
  "fold_name ''runner_id'' = ''runner_id''" "fold_name ''hostname'' = ''hostname''" "fold_name ''ip'' = ''ip''"
  "fold_name ''region'' = ''region''" "fold_name ''version'' = ''version''" "fold_name ''status'' = ''status''"
  "fold_name ''last_heartbeat'' = ''last_heartbeat''" "fold_name ''cpu_util'' = ''cpu_util''"
  "fold_name ''mem_util'' = ''mem_util''" "fold_name ''free_disk_mb'' = ''free_disk_mb''"
  "fold_name ''worker_capacity'' = ''worker_capacity''" "fold_name ''available_workers'' = ''available_workers''"
  "fold_name ''labels'' = ''labels''"
  by (simp_all add: ascii_lower_def less_eq_char_def)

declare fold_name.simps [simp del]

lemma set_fields_append:
  "set_fields (xs @ ys) r = (let (r', ok) = set_fields xs r; (r'', ok') = set_fields ys r' in (r'', ok \<and> ok'))"
  by (induction xs arbitrary: r) (auto simp: Let_def split: prod.splits)

lemma set_fields_labels:
  "gm_wf m \<Longrightarrow> Labels r = None \<Longrightarrow> set_fields [(''labels'', str_map_json (Some m))] r = (r\<lparr>Labels := Some m\<rparr>, True)"
  by (simp add: set_field_def Let_def json_str_map_inverse)

lemma json_runner_inverse:
  assumes "runner_ok r"
  shows "\<exists>j. runner_json r = Inr j \<and> json_runner j = Inr (norm_labels r)"
proof -
  obtain cpu mem where c: "f64_json (CPUUtil r) = Inr cpu" "cpu \<noteq> JNull" "json_f64 cpu = Some (CPUUtil r)"
    and m: "f64_json (MemUtil r) = Inr mem" "mem \<noteq> JNull" "json_f64 mem = Some (MemUtil r)"
    using assms f64_ok_json unfolding runner_ok_def by metis
  let ?kvs = "[(''runner_id'', JStr (RunnerID r)), (''hostname'', JStr (Hostname r)), (''ip'', JStr (IP r)),
      (''region'', JStr (Region r)), (''version'', JStr (Version r)), (''status'', JStr (Status r)),
      (''last_heartbeat'', JInt (LastHeartbeat r)), (''cpu_util'', cpu), (''mem_util'', mem),
      (''free_disk_mb'', JInt (FreeDiskMB r)), (''worker_capacity'', JInt (WorkerCapacity r)),
      (''available_workers'', JInt (AvailableWorkers r))]"
  have base: "set_fields ?kvs runner_zero = (r\<lparr>Labels := None\<rparr>, True)"
    using assms c m by (simp add: runner_ok_def set_field_def runner_zero_def)
  show ?thesis
  proof (cases "Labels r = None \<or> Labels r = Some []")
    case True
    then have "runner_json r = Inr (JObj ?kvs)" "norm_labels r = r\<lparr>Labels := None\<rparr>"
      using c m by (auto simp: runner_json_def norm_labels_def)
    then show ?thesis using base by (simp add: json_runner_def del: set_fields.simps)
  next
    case False
    then obtain l where l: "Labels r = Some l" "l \<noteq> []" by auto
    then have "runner_json r = Inr (JObj (?kvs @ [(''labels'', str_map_json (Some l))]))" "norm_labels r = r"
      using c m by (simp_all add: runner_json_def norm_labels_def)
    moreover have "set_fields (?kvs @ [(''labels'', str_map_json (Some l))]) runner_zero = (r, True)"
      using assms l by (simp only: set_fields_append base set_fields_labels) (simp add: set_fields_labels runner_ok_def del: set_fields.simps)
    ultimately show ?thesis by (simp add: json_runner_def del: set_fields.simps)
  qed
qed

text \<open>
  C26. A runner survives encoding. A runner whose loads are finite \<^verbatim>\<open>float64\<close> values and whose
  numbers fit their types can be encoded to a JSON value, and if the codec reads that value back
  from the text it wrote, decoding gives the same runner, an empty label map becoming nil.
\<close>
theorem runner_roundtrip:
  assumes "runner_ok r" "\<forall>j p. runner_json r = Inr j \<and> marshal C j = Inr p \<longrightarrow> unmarshal C p = Inr j"
  shows "(\<exists>j. runner_json r = Inr j) \<and> (\<forall>p. Encode C r = Inr p \<longrightarrow> Decode C p = Inr (norm_labels r))"
  using json_runner_inverse [OF assms(1)] assms(2) by (auto simp: Encode_def Decode_def split: sum.splits)

definition ex_runner :: runner where
  "ex_runner = runner_zero\<lparr>RunnerID := ''r'', Status := RunnerActive, CPUUtil := Fin (1 / 2), AvailableWorkers := 4,
     WorkerCapacity := 4, FreeDiskMB := 5000\<rparr>"

definition one_codec :: "json \<Rightarrow> codec" where
  "one_codec j = \<lparr>marshal = (\<lambda>i. if i = j then Inr ''x'' else Inl ErrJson), unmarshal = (\<lambda>t. if t = ''x'' then Inr j else Inl ErrJson)\<rparr>"

lemma is_f64_simple: "is_f64 0" "is_f64 (1 / 2)"
  using is_f64_dyadic [of 0 0] is_f64_dyadic [of 1 "- 1"] by (simp_all add: power_int_minus field_simps)

lemma ex_runner_ok: "runner_ok ex_runner"
  by (simp add: runner_ok_def ex_runner_def runner_zero_def f64_ok_def is_f64_simple in64_def min64_def max64_def)

theorem runner_roundtrip_witness:
  "\<exists>C p. Encode C ex_runner = Inr p \<and> Decode C p = Inr ex_runner"
proof -
  obtain j where j: "runner_json ex_runner = Inr j"
    using json_runner_inverse [OF ex_runner_ok] by blast
  have "Encode (one_codec j) ex_runner = Inr ''x''"
    by (simp add: Encode_def j one_codec_def)
  moreover have "norm_labels ex_runner = ex_runner"
    by (simp add: norm_labels_def ex_runner_def runner_zero_def)
  ultimately show ?thesis
    using runner_roundtrip [OF ex_runner_ok, of "one_codec j"] j by (auto simp: one_codec_def)
qed

end
