(* ===== verification/Text_Lib.thy ===== *)
theory Text_Lib
  imports Checksum
begin

text \<open>
  What the program uses of Go's packages \<^verbatim>\<open>strings\<close>, \<^verbatim>\<open>strconv\<close> and \<^verbatim>\<open>encoding/base64\<close>, on byte strings:
  \<^verbatim>\<open>TrimSpace\<close>, \<^verbatim>\<open>TrimPrefix\<close>, \<^verbatim>\<open>Split\<close>, \<^verbatim>\<open>SplitN(..., 2)\<close>, \<^verbatim>\<open>Atoi\<close>, and standard base64.
\<close>

section \<open>Trimming\<close>

text \<open>The UTF-8 encodings of the code points that \<^verbatim>\<open>unicode.IsSpace\<close> accepts.\<close>

definition space_runes :: "string list" where
  "space_runes =
     [[CHR 0x09], [CHR 0x0A], [CHR 0x0B], [CHR 0x0C], [CHR 0x0D], [CHR 0x20], [CHR 0xC2, CHR 0x85], [CHR 0xC2, CHR 0xA0],
      [CHR 0xE1, CHR 0x9A, CHR 0x80]] @
     map (\<lambda>b. [CHR 0xE2, CHR 0x80, b])
       [CHR 0x80, CHR 0x81, CHR 0x82, CHR 0x83, CHR 0x84, CHR 0x85, CHR 0x86, CHR 0x87, CHR 0x88, CHR 0x89, CHR 0x8A,
        CHR 0xA8, CHR 0xA9, CHR 0xAF] @
     [[CHR 0xE2, CHR 0x81, CHR 0x9F], [CHR 0xE3, CHR 0x80, CHR 0x80]]"

definition starts_with :: "string \<Rightarrow> string \<Rightarrow> bool" where
  "starts_with s p \<longleftrightarrow> take (length p) s = p"

function trim_with :: "string list \<Rightarrow> string \<Rightarrow> string" where
  "trim_with ps s =
     (case find (\<lambda>p. p \<noteq> [] \<and> starts_with s p) ps of
        None \<Rightarrow> s
      | Some p \<Rightarrow> trim_with ps (drop (length p) s))"
  by pat_completeness auto
termination
proof (relation "measure (\<lambda>(ps, s). length s)", simp)
  fix ps s p
  assume "find (\<lambda>p. p \<noteq> [] \<and> starts_with s p) ps = Some p"
  then have p: "p \<noteq> []" "take (length p) s = p" by (auto simp: find_Some_iff starts_with_def)
  then have "s \<noteq> []" by auto
  then show "((ps, drop (length p) s), ps, s) \<in> measure (\<lambda>(ps, s). length s)" using p by simp
qed

declare trim_with.simps [simp del]

definition TrimSpace :: "string \<Rightarrow> string" where
  "TrimSpace s = rev (trim_with (map rev space_runes) (rev (trim_with space_runes s)))"

definition TrimPrefix :: "string \<Rightarrow> string \<Rightarrow> string" where
  "TrimPrefix s prefix = (if starts_with s prefix then drop (length prefix) s else s)"

section \<open>Splitting\<close>

fun Split :: "char \<Rightarrow> string \<Rightarrow> string list" where
  "Split c [] = [[]]"
| "Split c (x # xs) =
     (if x = c then [] # Split c xs
      else (case Split c xs of [] \<Rightarrow> [[x]] | p # ps \<Rightarrow> (x # p) # ps))"

definition SplitN2 :: "char \<Rightarrow> string \<Rightarrow> string list" where
  "SplitN2 c s =
     (if c \<in> set s then [takeWhile (\<lambda>x. x \<noteq> c) s, drop 1 (dropWhile (\<lambda>x. x \<noteq> c) s)] else [s])"

section \<open>Numbers\<close>

definition digit_val :: "char \<Rightarrow> nat option" where
  "digit_val c = (let n = of_char c in if 48 \<le> n \<and> n \<le> 57 then Some (n - 48) else None)"

fun digits_val :: "string \<Rightarrow> nat \<Rightarrow> nat option" where
  "digits_val [] acc = Some acc"
| "digits_val (c # cs) acc = (case digit_val c of None \<Rightarrow> None | Some d \<Rightarrow> digits_val cs (10 * acc + d))"

definition Atoi :: "string \<Rightarrow> int option" where
  "Atoi s =
     (let (neg, ds) = (case s of [] \<Rightarrow> (False, s) | c # cs \<Rightarrow>
                        if c = CHR ''-'' then (True, cs) else if c = CHR ''+'' then (False, cs) else (False, s))
      in if ds = [] then None
         else (case digits_val ds 0 of
             None \<Rightarrow> None
           | Some n \<Rightarrow> (let i = (if neg then - int n else int n) in if in64 i then Some i else None)))"

section \<open>Base64\<close>

definition b64_chars :: string where
  "b64_chars = ''ABCDEFGHIJKLMNOPQRSTUVWXYZabcdefghijklmnopqrstuvwxyz0123456789+/''"

fun index_of :: "char \<Rightarrow> string \<Rightarrow> nat option" where
  "index_of c [] = None"
| "index_of c (x # xs) = (if x = c then Some 0 else map_option Suc (index_of c xs))"

definition b64_val :: "char \<Rightarrow> nat option" where
  "b64_val c = index_of c b64_chars"

definition b64_char :: "nat \<Rightarrow> char" where
  "b64_char n = b64_chars ! n"

text \<open>The bytes of a group of four, three or two digits; the spare low bits are not looked at.\<close>

definition three_bytes :: "nat \<Rightarrow> string" where
  "three_bytes n = [char_of (n div 65536), char_of (n div 256 mod 256), char_of (n mod 256)]"

fun b64_groups :: "string \<Rightarrow> string option" where
  "b64_groups [] = Some []"
| "b64_groups [a, b, c, d] =
     (case (b64_val a, b64_val b) of
        (Some x, Some y) \<Rightarrow>
          (case b64_val c of
             None \<Rightarrow> if c = CHR ''='' \<and> d = CHR ''='' then Some (take 1 (three_bytes (x * 262144 + y * 4096))) else None
           | Some z \<Rightarrow>
               (case b64_val d of
                  None \<Rightarrow> if d = CHR ''='' then Some (take 2 (three_bytes (x * 262144 + y * 4096 + z * 64))) else None
                | Some w \<Rightarrow> Some (three_bytes (x * 262144 + y * 4096 + z * 64 + w))))
      | _ \<Rightarrow> None)"
| "b64_groups (a # b # c # d # rest) =
     (case (b64_val a, b64_val b, b64_val c, b64_val d) of
        (Some x, Some y, Some z, Some w) \<Rightarrow>
          map_option (\<lambda>bs. three_bytes (x * 262144 + y * 4096 + z * 64 + w) @ bs) (b64_groups rest)
      | _ \<Rightarrow> None)"
| "b64_groups _ = None"

definition b64_decode :: "string \<Rightarrow> string option" where
  "b64_decode s = b64_groups (filter (\<lambda>c. c \<noteq> CHR 0x0A \<and> c \<noteq> CHR 0x0D) s)"

fun b64_encode :: "string \<Rightarrow> string" where
  "b64_encode [] = []"
| "b64_encode [a] =
     (let n = of_char a * 65536 in [b64_char (n div 262144), b64_char (n div 4096 mod 64), CHR ''='', CHR ''=''])"
| "b64_encode [a, b] =
     (let n = of_char a * 65536 + of_char b * 256
      in [b64_char (n div 262144), b64_char (n div 4096 mod 64), b64_char (n div 64 mod 64), CHR ''=''])"
| "b64_encode (a # b # c # rest) =
     (let n = of_char a * 65536 + of_char b * 256 + of_char c
      in [b64_char (n div 262144), b64_char (n div 4096 mod 64), b64_char (n div 64 mod 64), b64_char (n mod 64)]
         @ b64_encode rest)"

section \<open>Laws of trimming\<close>

lemma trim_with_done: "p \<in> set ps \<Longrightarrow> p \<noteq> [] \<Longrightarrow> \<not> starts_with (trim_with ps s) p"
proof (induction ps s rule: trim_with.induct)
  case (1 ps s)
  show ?case
  proof (cases "find (\<lambda>p. p \<noteq> [] \<and> starts_with s p) ps")
    case None
    then have "trim_with ps s = s" by (subst trim_with.simps) simp
    then show ?thesis using None 1(2,3) by (auto simp: find_None_iff)
  next
    case (Some q)
    then have "trim_with ps s = trim_with ps (drop (length q) s)" by (subst trim_with.simps) simp
    then show ?thesis using 1(1) [OF Some 1(2,3)] by simp
  qed
qed

lemma trim_with_id:
  assumes "\<And>p. p \<in> set ps \<Longrightarrow> p \<noteq> [] \<Longrightarrow> \<not> starts_with s p"
  shows "trim_with ps s = s"
proof -
  have "find (\<lambda>p. p \<noteq> [] \<and> starts_with s p) ps = None" using assms by (auto simp: find_None_iff)
  then show ?thesis by (subst trim_with.simps) simp
qed

lemma trim_with_suffix: "\<exists>u. s = u @ trim_with ps s"
proof (induction ps s rule: trim_with.induct)
  case (1 ps s)
  show ?case
  proof (cases "find (\<lambda>p. p \<noteq> [] \<and> starts_with s p) ps")
    case None
    then have "trim_with ps s = s" by (subst trim_with.simps) simp
    then show ?thesis by simp
  next
    case (Some q)
    from 1 [OF this] obtain u where "drop (length q) s = u @ trim_with ps (drop (length q) s)" ..
    then have "s = (take (length q) s @ u) @ trim_with ps (drop (length q) s)"
      by (metis append.assoc append_take_drop_id)
    moreover have "trim_with ps s = trim_with ps (drop (length q) s)" using Some by (subst trim_with.simps) simp
    ultimately show ?thesis by metis
  qed
qed

lemma starts_with_append: "starts_with s p \<Longrightarrow> starts_with (s @ t) p"
  by (auto simp: starts_with_def min_def) (metis append_take_drop_id length_append length_take min.absorb_iff2 nle_le)

lemma TrimSpace_idem: "TrimSpace (TrimSpace s) = TrimSpace s"
proof -
  let ?l = "trim_with space_runes s"
  let ?r = "trim_with (map rev space_runes) (rev ?l)"
  obtain u where u: "rev ?l = u @ ?r" using trim_with_suffix by metis
  then have l: "?l = rev ?r @ rev u" by (metis rev_append rev_rev_ident)
  have "\<not> starts_with (rev ?r) p" if "p \<in> set space_runes" "p \<noteq> []" for p
    using trim_with_done [OF that, of s] starts_with_append [of "rev ?r" p "rev u"] l by metis
  then have "trim_with space_runes (rev ?r) = rev ?r" by (intro trim_with_id)
  moreover have "trim_with (map rev space_runes) ?r = ?r"
    by (intro trim_with_id trim_with_done)
  ultimately show ?thesis by (simp add: TrimSpace_def)
qed

definition graphic :: "char \<Rightarrow> bool" where
  "graphic c \<longleftrightarrow> 33 \<le> (of_char c :: nat) \<and> (of_char c :: nat) < 128"

lemma space_runes_not_graphic: "p \<in> set space_runes \<Longrightarrow> p \<noteq> [] \<and> \<not> graphic (hd p) \<and> \<not> graphic (last p)"
  by (auto simp: space_runes_def graphic_def)

lemma TrimSpace_graphic:
  assumes "\<And>c. c \<in> set s \<Longrightarrow> graphic c"
  shows "TrimSpace s = s"
proof -
  have hd: "starts_with t p \<Longrightarrow> p \<noteq> [] \<Longrightarrow> hd p \<in> set t" for t p :: string
    unfolding starts_with_def by (metis hd_in_set in_set_takeD)
  have "trim_with space_runes s = s"
    using assms hd space_runes_not_graphic by (intro trim_with_id) blast
  moreover have "trim_with (map rev space_runes) (rev s) = rev s"
  proof (rule trim_with_id)
    fix p assume "p \<in> set (map rev space_runes)" "p \<noteq> []"
    then have "\<not> graphic (hd p)"
      using space_runes_not_graphic by (auto simp: hd_rev)
    then show "\<not> starts_with (rev s) p" using assms hd [of "rev s" p] \<open>p \<noteq> []\<close> by auto
  qed
  ultimately show ?thesis by (simp add: TrimSpace_def)
qed

lemma TrimSpace_empty [simp]: "TrimSpace [] = []"
  using TrimSpace_graphic [of "[]"] by simp

section \<open>Laws of base64\<close>

lemma length_b64_chars: "length b64_chars = 64"
  by (simp add: b64_chars_def)

lemma index_of_nth: "distinct xs \<Longrightarrow> n < length xs \<Longrightarrow> index_of (xs ! n) xs = Some n"
proof (induction xs arbitrary: n)
  case (Cons x xs)
  then show ?case by (cases n) auto
qed simp

lemma distinct_b64_chars: "distinct b64_chars"
  by (simp add: b64_chars_def)

lemma b64_val_char [simp]: "n < 64 \<Longrightarrow> b64_val (b64_char n) = Some n"
  by (simp add: b64_val_def b64_char_def index_of_nth distinct_b64_chars length_b64_chars)

lemma b64_val_pad [simp]: "b64_val (CHR ''='') = None"
  by (simp add: b64_val_def b64_chars_def)

lemma b64_chars_graphic: "c \<in> set b64_chars \<Longrightarrow> graphic c"
  by (auto simp: b64_chars_def graphic_def)

lemma b64_char_mem: "n < 64 \<Longrightarrow> b64_char n \<in> set b64_chars"
  by (simp add: b64_char_def length_b64_chars)

lemma sextets_join:
  fixes n :: nat
  shows "n = 64 * a + r \<Longrightarrow> a = 64 * b + s \<Longrightarrow> b = 64 * c + t \<Longrightarrow> c * 262144 + t * 4096 + s * 64 + r = n"
  by simp

lemma sextets:
  fixes n :: nat
  assumes "n < 16777216"
  shows "n div 262144 < 64" "n div 262144 * 262144 + n div 4096 mod 64 * 4096 + n div 64 mod 64 * 64 + n mod 64 = n"
proof -
  show "n div 262144 < 64" using assms by simp
  have "n div 262144 = n div 64 div 64 div 64" "n div 4096 = n div 64 div 64"
    by (simp_all add: div_mult2_eq [symmetric])
  then show "n div 262144 * 262144 + n div 4096 mod 64 * 4096 + n div 64 mod 64 * 64 + n mod 64 = n"
    by (simp only:) (rule sextets_join [of n "n div 64" _ "n div 64 div 64"], simp_all)
qed

lemma byte_parts:
  fixes x y z :: nat
  assumes "y < 256" "z < 256"
  shows "(x * 65536 + y * 256 + z) div 65536 = x" "(x * 65536 + y * 256 + z) div 256 = x * 256 + y"
    "(x * 65536 + y * 256 + z) mod 256 = z"
proof -
  show "(x * 65536 + y * 256 + z) div 65536 = x" using assms by (intro div_nat_eqI) simp_all
  show "(x * 65536 + y * 256 + z) div 256 = x * 256 + y" using assms by (intro div_nat_eqI) simp_all
  have "x * 65536 + y * 256 + z = z + 256 * (x * 256 + y)" by simp
  then show "(x * 65536 + y * 256 + z) mod 256 = z" using assms by (metis mod_less mod_mult_self2)
qed

lemma three_bytes_join: "three_bytes (of_char a * 65536 + of_char b * 256 + of_char c) = [a, b, c]"
  by (simp add: three_bytes_def byte_parts)

lemma b64_encode_length: "length (b64_encode bs) = 4 * ((length bs + 2) div 3)"
proof (induction bs rule: b64_encode.induct)
  case (4 a b c rest)
  have "(length (a # b # c # rest) + 2) div 3 = (length rest + 2) div 3 + 1" by simp
  then show ?case using 4 by (simp add: Let_def)
qed (simp_all add: Let_def)

lemma of_bytes_bound:
  "(of_char a :: nat) * 65536 + of_char b * 256 + of_char c < 16777216"
  "(of_char a :: nat) * 65536 + of_char b * 256 < 16777216" "(of_char a :: nat) * 65536 < 16777216"
  using nat_of_char_less_256 [of a] nat_of_char_less_256 [of b] nat_of_char_less_256 [of c]
  by linarith+

lemmas bytes_top = of_bytes_bound [THEN sextets(1)]

lemma b64_encode_chars: "c \<in> set (b64_encode bs) \<Longrightarrow> c \<in> insert (CHR ''='') (set b64_chars)"
proof (induction bs rule: b64_encode.induct)
  case (2 a)
  then show ?case using bytes_top(3) [of a] by (auto simp: Let_def intro!: b64_char_mem)
next
  case (3 a b)
  then show ?case using bytes_top(2) [of a b] by (auto simp: Let_def intro!: b64_char_mem)
next
  case (4 a b x rest)
  then show ?case using bytes_top(1) [of a b x] by (auto simp: Let_def intro!: b64_char_mem)
qed simp

lemma b64_groups_digits:
  assumes "n < 16777216"
  shows "b64_groups ([b64_char (n div 262144), b64_char (n div 4096 mod 64), b64_char (n div 64 mod 64), b64_char (n mod 64)] @ rest)
     = map_option (\<lambda>bs. three_bytes n @ bs) (b64_groups rest)"
proof (cases rest)
  case Nil
  then show ?thesis using sextets [OF assms] by simp
next
  case (Cons x xs)
  then show ?thesis using sextets [OF assms] by simp
qed

lemma b64_groups_two:
  fixes n :: nat
  assumes "n < 16777216" "n mod 64 = 0"
  shows "b64_groups [b64_char (n div 262144), b64_char (n div 4096 mod 64), b64_char (n div 64 mod 64), CHR ''=''] = Some (take 2 (three_bytes n))"
  using sextets [OF assms(1)] assms(2) by simp

lemma b64_groups_one:
  fixes n :: nat
  assumes "n < 16777216" "n mod 64 = 0" "n div 64 mod 64 = 0"
  shows "b64_groups [b64_char (n div 262144), b64_char (n div 4096 mod 64), CHR ''='', CHR ''=''] = Some (take 1 (three_bytes n))"
  using sextets [OF assms(1)] assms(2,3) by simp

lemma low_bits:
  fixes x y :: nat
  shows "x * 65536 mod 64 = 0" "x * 65536 div 64 mod 64 = 0" "(x * 65536 + y * 256) mod 64 = 0"
proof -
  have e: "x * 65536 = 64 * (64 * (x * 16))" "x * 65536 + y * 256 = 64 * (x * 1024 + y * 4)" by simp_all
  show "x * 65536 mod 64 = 0" "x * 65536 div 64 mod 64 = 0"
    unfolding e(1) by (simp_all only: mod_mult_self1_is_0 nonzero_mult_div_cancel_left simp_thms)
  show "(x * 65536 + y * 256) mod 64 = 0"
    unfolding e(2) by (rule mod_mult_self1_is_0)
qed

lemma b64_groups_encode: "b64_groups (b64_encode bs) = Some bs"
proof (induction bs rule: b64_encode.induct)
  case (2 a)
  have n: "(of_char a :: nat) * 65536 = of_char a * 65536 + of_char (CHR 0x00) * 256 + of_char (CHR 0x00)" by simp
  have "three_bytes (of_char a * 65536) = [a, CHR 0x00, CHR 0x00]" by (subst n) (rule three_bytes_join)
  moreover note low_bits(1,2) [of "of_char a"]
  ultimately show ?case
    using b64_groups_one [OF of_bytes_bound(3) [of a]] by (simp add: Let_def)
next
  case (3 a b)
  have n: "(of_char a :: nat) * 65536 + of_char b * 256 = of_char a * 65536 + of_char b * 256 + of_char (CHR 0x00)" by simp
  have "three_bytes (of_char a * 65536 + of_char b * 256) = [a, b, CHR 0x00]" by (subst n) (rule three_bytes_join)
  moreover note low_bits(3) [of "of_char a" "of_char b"]
  ultimately show ?case
    using b64_groups_two [OF of_bytes_bound(2) [of a b]] by (simp add: Let_def)
next
  case (4 a b c rest)
  then show ?case
    using b64_groups_digits [OF of_bytes_bound(1) [of a b c], of "b64_encode rest"] three_bytes_join [of a b c]
    by (simp only: b64_encode.simps Let_def) simp
qed simp

lemma b64_decode_encode: "b64_decode (b64_encode bs) = Some bs"
proof -
  have "c \<noteq> CHR 0x0A \<and> c \<noteq> CHR 0x0D" if "c \<in> set (b64_encode bs)" for c
    using b64_encode_chars [OF that] by (auto simp: b64_chars_def)
  then have "filter (\<lambda>c. c \<noteq> CHR 0x0A \<and> c \<noteq> CHR 0x0D) (b64_encode bs) = b64_encode bs"
    by (intro filter_True) blast
  then show ?thesis by (simp only: b64_decode_def b64_groups_encode)
qed

lemma TrimSpace_b64: "TrimSpace (b64_encode bs) = b64_encode bs"
proof (rule TrimSpace_graphic)
  fix c assume "c \<in> set (b64_encode bs)"
  from b64_encode_chars [OF this] show "graphic c" using b64_chars_graphic [of c] by (auto simp: graphic_def)
qed


section \<open>Laws of numbers and of splitting\<close>

lemma digit_val_digit [simp]: "n < 10 \<Longrightarrow> digit_val (digit n) = Some n"
  by (simp add: digit_val_def digit_def)

lemma digits_val_append: "digits_val (xs @ ys) acc = (case digits_val xs acc of None \<Rightarrow> None | Some n \<Rightarrow> digits_val ys n)"
  by (induction xs arbitrary: acc) (auto split: option.splits)

lemma digits_val_dec: "digits_val (dec_nat n) 0 = Some n"
proof (induction n rule: dec_nat.induct)
  case (1 n)
  then show ?case by (cases "n < 10") (simp_all add: dec_nat.simps [of n] digits_val_append)
qed

lemma dec_nat_ne [simp]: "dec_nat n \<noteq> []"
  by (simp add: dec_nat.simps [of n])

lemma dec_nat_no_plus: "c \<in> set (dec_nat n) \<Longrightarrow> c \<noteq> CHR ''+''"
proof (induction n rule: dec_nat.induct)
  case (1 n)
  have "digit k \<noteq> CHR ''+''" if "k < 10" for k
  proof
    assume "digit k = CHR ''+''"
    then have "(of_char (digit k) :: nat) = of_char (CHR ''+'')" by (rule arg_cong)
    then show False using that by (simp add: digit_def)
  qed
  from this [of n] this [of "n mod 10"] show ?case using 1 by (cases "n < 10") (auto simp: dec_nat.simps [of n])
qed

lemma Atoi_dec: "in64 i \<Longrightarrow> Atoi (dec_int i) = Some i"
proof -
  assume i: "in64 i"
  show ?thesis
  proof (cases "i < 0")
    case True
    then show ?thesis using i by (simp add: Atoi_def dec_int_def digits_val_dec)
  next
    case False
    obtain c cs where n: "dec_nat (nat i) = c # cs" by (cases "dec_nat (nat i)") auto
    then have "c \<noteq> CHR ''-''" "c \<noteq> CHR ''+''"
      using dec_nat_chars [of c "nat i"] dec_nat_no_plus [of c "nat i"] by auto
    then show ?thesis using False i n digits_val_dec [of "nat i"] by (simp add: Atoi_def dec_int_def del: digits_val.simps)
  qed
qed

lemma Atoi_range: "Atoi s = Some i \<Longrightarrow> in64 i"
  by (auto simp: Atoi_def Let_def split: prod.splits if_splits option.splits)

lemma Split_ne [simp]: "Split c s \<noteq> []"
  by (induction s) (auto split: list.splits)

lemma Split_no_sep: "p \<in> set (Split c s) \<Longrightarrow> c \<notin> set p"
proof (induction s arbitrary: p)
  case (Cons x s)
  then show ?case by (cases "Split c s") (auto split: if_splits)
qed simp

lemma Split_join: "concat (map (\<lambda>p. p @ [c]) (Split c s)) = s @ [c]"
proof (induction s)
  case (Cons x s)
  then show ?case by (cases "Split c s") auto
qed simp


lemma starts_with_hd: "starts_with t p \<Longrightarrow> p \<noteq> [] \<Longrightarrow> t \<noteq> [] \<and> hd p = hd t" for t p :: string
  unfolding starts_with_def by (cases p; cases t) auto

lemma newline_space: "[CHR 0x0A] \<in> set space_runes"
  by (simp add: space_runes_def)

text \<open>The newline at the end of a line is trimmed.\<close>

lemma TrimSpace_line:
  assumes "s \<noteq> []" "\<And>c. c \<in> set s \<Longrightarrow> graphic c"
  shows "TrimSpace (s @ [CHR 0x0A]) = s"
proof -
  have "trim_with space_runes (s @ [CHR 0x0A]) = s @ [CHR 0x0A]"
  proof (rule trim_with_id, rule notI)
    fix p assume p: "p \<in> set space_runes" "p \<noteq> []" "starts_with (s @ [CHR 0x0A]) p"
    then have "hd p = hd s" using starts_with_hd [OF p(3,2)] assms(1) by simp
    then show False using space_runes_not_graphic [OF p(1)] assms by auto
  qed
  moreover have "trim_with (map rev space_runes) (CHR 0x0A # rev s) = rev s"
  proof -
    have stop: "\<not> starts_with (rev s) p" if "p \<in> set (map rev space_runes)" "p \<noteq> []" for p
    proof
      assume "starts_with (rev s) p"
      then have "hd p = hd (rev s)" using starts_with_hd [OF _ that(2)] by simp
      moreover have "\<not> graphic (hd p)" using that space_runes_not_graphic by (auto simp: hd_rev)
      ultimately show False using assms hd_in_set [of "rev s"] by simp
    qed
    obtain p where p: "find (\<lambda>p. p \<noteq> [] \<and> starts_with (CHR 0x0A # rev s) p) (map rev space_runes) = Some p"
      using newline_space by (cases "find (\<lambda>p. p \<noteq> [] \<and> starts_with (CHR 0x0A # rev s) p) (map rev space_runes)")
        (force simp: find_None_iff starts_with_def)+
    then have q: "p \<in> set (map rev space_runes)" "p \<noteq> []" "starts_with (CHR 0x0A # rev s) p"
      by (auto simp: find_Some_iff)
    have "p = [CHR 0x0A]" using q by (auto simp: space_runes_def starts_with_def)
    moreover have "trim_with (map rev space_runes) (rev s) = rev s" by (intro trim_with_id stop)
    ultimately show ?thesis using p by (subst trim_with.simps) simp
  qed
  ultimately show ?thesis by (simp add: TrimSpace_def)
qed

lemma index_of_None: "index_of c xs = None \<longleftrightarrow> c \<notin> set xs"
  by (induction xs) auto

lemma b64_val_Some: "c \<in> set b64_chars \<Longrightarrow> \<exists>n. b64_val c = Some n"
  using index_of_None [of c b64_chars] by (auto simp: b64_val_def)

lemma b64_groups_total:
  "set s \<subseteq> set b64_chars \<Longrightarrow> length s = 4 * k \<Longrightarrow> \<exists>bs. b64_groups s = Some bs \<and> length bs = 3 * k"
proof (induction k arbitrary: s)
  case (Suc k)
  have "length s = Suc (Suc (Suc (Suc (4 * k))))" using Suc.prems(2) by simp
  then obtain a b c d rest where s: "s = a # b # c # d # rest" "length rest = 4 * k"
    by (auto simp: length_Suc_conv)
  then obtain x y z w where v: "b64_val a = Some x" "b64_val b = Some y" "b64_val c = Some z" "b64_val d = Some w"
    using Suc.prems(1) b64_val_Some by (metis insert_subset list.simps(15))
  obtain bs where "b64_groups rest = Some bs" "length bs = 3 * k"
    using Suc.IH [of rest] Suc.prems(1) s by auto
  then show ?case using s v by (cases rest) (auto simp: three_bytes_def)
qed simp

end
