(* ===== verification/Api.thy ===== *)
theory Api
  imports Runner Transport Text_Lib
begin

text \<open>
  \<^verbatim>\<open>internal/api/api.go\<close>: the HTTP handlers, each an operation on the node that gives a response;
  placement with its scoring; labels; the metrics page; authorisation; the routes.

  A request carries what \<^verbatim>\<open>net/http\<close> has parsed: the method, the segments of the path, the query,
  the headers, the body. The JSON text codec, the texts of errors, the unstable sort of
  \<^verbatim>\<open>sort.Slice\<close>, the order in which a map is iterated, the profiler's handlers and the random
  numbers are arguments. A panic of a handler is the error \<^const>\<open>Panic\<close>.
\<close>

section \<open>Requests and responses\<close>

record request =
  rq_method :: string
  rq_path :: "string list"
  rq_query :: "string list gomap"
  rq_header :: "string \<Rightarrow> string"
  rq_body :: string

record response =
  rs_status :: int
  rs_body :: string

record server =
  sv_nodeID :: string
  sv_adminToken :: string
  sv_enablePprof :: bool

record options =
  op_AdminToken :: string
  op_EnablePprof :: bool

text \<open>\<^verbatim>\<open>New\<close> takes the options of its first optional argument.\<close>

definition api_New :: "string \<Rightarrow> options list \<Rightarrow> server" where
  "api_New nodeID opts =
     (let opt = (case opts of [] \<Rightarrow> \<lparr>op_AdminToken = [], op_EnablePprof = False\<rparr> | o1 # _ \<Rightarrow> o1)
      in \<lparr>sv_nodeID = nodeID, sv_adminToken = op_AdminToken opt, sv_enablePprof = op_EnablePprof opt\<rparr>)"

record scored_runner =
  sr_Runner :: runner
  sr_Score :: f64

record http_lib =
  hl_codec :: codec
  hl_first :: "string \<Rightarrow> error + json"
  hl_error :: "error \<Rightarrow> string"
  hl_sort :: "(scored_runner \<Rightarrow> scored_runner \<Rightarrow> bool) \<Rightarrow> scored_runner list \<Rightarrow> scored_runner list"
  hl_order :: "(int \<times> counter) list \<Rightarrow> (int \<times> counter) list"
  hl_pprof :: "request \<Rightarrow> response"

definition q_get :: "request \<Rightarrow> string \<Rightarrow> string" where
  "q_get r k = (case gm_get (rq_query r) k of Some (v # _) \<Rightarrow> v | _ \<Rightarrow> [])"

definition q_all :: "request \<Rightarrow> string \<Rightarrow> string list" where
  "q_all r k = (case gm_get (rq_query r) k of Some vs \<Rightarrow> vs | None \<Rightarrow> [])"

text \<open>The status is written before the body, which stays empty when the value cannot be encoded.\<close>

definition writeJSON :: "http_lib \<Rightarrow> int \<Rightarrow> error + json \<Rightarrow> response" where
  "writeJSON L status v =
     \<lparr>rs_status = status,
      rs_body = (case v of Inl _ \<Rightarrow> [] | Inr j \<Rightarrow>
                  (case marshal (hl_codec L) j of Inl _ \<Rightarrow> [] | Inr b \<Rightarrow> b @ [CHR 0x0A]))\<rparr>"

definition error_json :: "string \<Rightarrow> error + json" where
  "error_json msg = Inr (JObj [(''error'', JStr msg)])"

definition writeError :: "http_lib \<Rightarrow> error \<Rightarrow> response" where
  "writeError L e = writeJSON L 500 (error_json (hl_error L e))"

text \<open>\<open>orError L m f\<close>: the pattern \<^verbatim>\<open>if err != nil { writeError(w, err); return }\<close>.\<close>

definition orError :: "http_lib \<Rightarrow> 'a node_op \<Rightarrow> ('a \<Rightarrow> response node_op) \<Rightarrow> response node_op" where
  "orError L m f = tryE m (\<lambda>e. ret (writeError L e)) f"

definition quoted :: "string \<Rightarrow> string" where
  "quoted t = CHR 0x22 # t @ [CHR 0x22]"

section \<open>Reading runners\<close>

definition listRunners :: "codec \<Rightarrow> int \<Rightarrow> int \<Rightarrow> runner list op" where
  "listRunners C limit offset =
     List_rows (\<lambda>_ _ _. Inr True) KindRunner limit offset []
       (\<lambda>r out. case Decode C (r_payload r) of Inl _ \<Rightarrow> (out, True) | Inr item \<Rightarrow> (out @ [item], True)) []"

definition unmarshal_str_map :: "codec \<Rightarrow> string \<Rightarrow> string gomap option \<Rightarrow> string gomap option \<times> error option" where
  "unmarshal_str_map C b m = (case unmarshal C b of Inl e \<Rightarrow> (m, Some e) | Inr j \<Rightarrow> json_str_map j m)"

definition add_labels :: "string gomap option \<Rightarrow> runner \<Rightarrow> runner" where
  "add_labels extra r =
     (let base = (case Labels r of None \<Rightarrow> [] | Some m \<Rightarrow> m)
      in r\<lparr>Labels := Some (gm_put_all (case extra of None \<Rightarrow> [] | Some m \<Rightarrow> m) base)\<rparr>)"

definition mergeMetaLabelsOne :: "codec \<Rightarrow> runner \<Rightarrow> runner op" where
  "mergeMetaLabelsOne C runner =
     tryE (Get KindMeta (RunnerID runner)) (\<lambda>_. ret runner)
       (\<lambda>res. case res of
          None \<Rightarrow> ret runner
        | Some row \<Rightarrow>
            if r_tombstone row then ret runner
            else (case unmarshal_str_map C (r_payload row) None of
                (_, Some _) \<Rightarrow> ret runner
              | (extra, None) \<Rightarrow> ret (add_labels extra runner)))"

primrec mergeMetaLabels :: "codec \<Rightarrow> runner list \<Rightarrow> runner list op" where
  "mergeMetaLabels C [] = ret []"
| "mergeMetaLabels C (r # rs) =
     bindE (mergeMetaLabelsOne C r) (\<lambda>r'. bindE (mergeMetaLabels C rs) (\<lambda>rs'. ret (r' # rs')))"

text \<open>A nil slice is written as null.\<close>

fun json_list :: "('a \<Rightarrow> error + json) \<Rightarrow> 'a list \<Rightarrow> error + json list" where
  "json_list f [] = Inr []"
| "json_list f (x # xs) =
     (case f x of Inl e \<Rightarrow> Inl e | Inr j \<Rightarrow> (case json_list f xs of Inl e \<Rightarrow> Inl e | Inr js \<Rightarrow> Inr (j # js)))"

definition slice_json :: "('a \<Rightarrow> error + json) \<Rightarrow> 'a list \<Rightarrow> error + json" where
  "slice_json f xs = (if xs = [] then Inr JNull else map_sum id JArr (json_list f xs))"

definition parsePagination :: "request \<Rightarrow> int \<times> int" where
  "parsePagination r =
     (let v = q_get r ''limit''; w = q_get r ''offset'';
          limit = (if v \<noteq> [] then (case Atoi v of Some l \<Rightarrow> if l > 0 then l else -1 | None \<Rightarrow> -1) else -1);
          offset = (if w \<noteq> [] then (case Atoi w of Some l \<Rightarrow> if l \<ge> 0 then l else 0 | None \<Rightarrow> 0) else 0)
      in (limit, offset))"

definition handleHealth :: "http_lib \<Rightarrow> server \<Rightarrow> response node_op" where
  "handleHealth L s = ret (writeJSON L 200 (Inr (JObj [(''node_id'', JStr (sv_nodeID s)), (''status'', JStr ''ok'')])))"

definition handleRunners :: "http_lib \<Rightarrow> request \<Rightarrow> response node_op" where
  "handleRunners L r =
     (let (limit, offset) = parsePagination r in
      orError L (on_store (listRunners (hl_codec L) limit offset)) (\<lambda>items.
        bindE (on_store (mergeMetaLabels (hl_codec L) items)) (\<lambda>items.
          ret (writeJSON L 200 (slice_json runner_json items)))))"

definition not_found :: "http_lib \<Rightarrow> response" where
  "not_found L = writeJSON L 404 (error_json ''runner not found'')"

definition live :: "row option \<Rightarrow> bool" where
  "live res = (case res of None \<Rightarrow> False | Some row \<Rightarrow> \<not> r_tombstone row)"

definition handleRunner :: "http_lib \<Rightarrow> string \<Rightarrow> response node_op" where
  "handleRunner L rid =
     orError L (on_store (Get KindRunner rid)) (\<lambda>res.
       if \<not> live res then ret (not_found L)
       else (case Decode (hl_codec L) (r_payload (the res)) of
           Inl e \<Rightarrow> ret (writeError L e)
         | Inr item \<Rightarrow>
             bindE (on_store (mergeMetaLabelsOne (hl_codec L) item)) (\<lambda>item.
               ret (writeJSON L 200 (runner_json item)))))"

section \<open>Labels\<close>

definition handleGetLabels :: "http_lib \<Rightarrow> string \<Rightarrow> response node_op" where
  "handleGetLabels L rid =
     orError L (on_store (Get KindRunner rid)) (\<lambda>res.
       if \<not> live res then ret (not_found L)
       else
         let labels = (case Decode (hl_codec L) (r_payload (the res)) of
             Inl _ \<Rightarrow> []
           | Inr runner \<Rightarrow> gm_put_all (case Labels runner of None \<Rightarrow> [] | Some m \<Rightarrow> m) [])
         in orError L (on_store (Get KindMeta rid)) (\<lambda>meta.
           let labels = (if live meta then
                 (case unmarshal_str_map (hl_codec L) (r_payload (the meta)) None of
                    (Some extra, None) \<Rightarrow> gm_put_all extra labels
                  | _ \<Rightarrow> labels)
               else labels)
           in ret (writeJSON L 200 (Inr (str_map_json (Some labels))))))"

definition meta_row :: "server \<Rightarrow> string \<Rightarrow> hlc \<Rightarrow> string \<Rightarrow> row" where
  "meta_row s rid hlc payload =
     \<lparr>r_kind = KindMeta, r_key = rid, r_owner = ''api/'' @ sv_nodeID s, r_hlc = hlc, r_tombstone = False, r_payload = payload\<rparr>"

text \<open>Assigning to an entry of a nil map panics; the loop over an empty map does not run.\<close>

definition assign_all :: "string gomap option \<Rightarrow> string gomap option \<Rightarrow> error + string gomap option" where
  "assign_all incoming existing =
     (case incoming of
        None \<Rightarrow> Inr existing
      | Some kvs \<Rightarrow>
          if kvs = [] then Inr existing
          else (case existing of
              None \<Rightarrow> Inl (Panic ''assignment to entry in nil map'')
            | Some m \<Rightarrow> Inr (Some (gm_put_all kvs m))))"

definition put_labels :: "http_lib \<Rightarrow> server \<Rightarrow> int \<Rightarrow> string \<Rightarrow> string gomap option \<Rightarrow> response node_op" where
  "put_labels L s now rid existing =
     (let payload = (case marshal (hl_codec L) (str_map_json existing) of Inl _ \<Rightarrow> [] | Inr b \<Rightarrow> b) in
      bindE (clock_tick now) (\<lambda>hlc.
        orError L (on_store (Put (meta_row s rid hlc payload))) (\<lambda>_.
          ret (writeJSON L 200 (Inr (str_map_json existing))))))"

definition existing_labels :: "codec \<Rightarrow> row option \<Rightarrow> string gomap option" where
  "existing_labels C meta = (if live meta then fst (unmarshal_str_map C (r_payload (the meta)) (Some [])) else Some [])"

definition merge_labels :: "http_lib \<Rightarrow> server \<Rightarrow> int \<Rightarrow> string \<Rightarrow> string gomap option \<Rightarrow> response node_op" where
  "merge_labels L s now rid incoming =
     orError L (on_store (Get KindMeta rid)) (\<lambda>meta.
       case assign_all incoming (existing_labels (hl_codec L) meta) of
         Inl p \<Rightarrow> throw p
       | Inr existing \<Rightarrow> put_labels L s now rid existing)"

definition handleUpdateLabels :: "http_lib \<Rightarrow> server \<Rightarrow> int \<Rightarrow> string \<Rightarrow> request \<Rightarrow> response node_op" where
  "handleUpdateLabels L s now rid r =
     orError L (on_store (Get KindRunner rid)) (\<lambda>res.
       if \<not> live res then ret (not_found L)
       else (case (case hl_first L (rq_body r) of Inl e \<Rightarrow> (None, Some e) | Inr j \<Rightarrow> json_str_map j None) of
           (_, Some _) \<Rightarrow> ret (writeJSON L 400 (error_json (''invalid json: expected {'' @ quoted ''key'' @ '': '' @ quoted ''value'' @ '', ...}'')))
         | (incoming, None) \<Rightarrow> merge_labels L s now rid incoming))"

definition handleDeleteLabels :: "http_lib \<Rightarrow> server \<Rightarrow> int \<Rightarrow> string \<Rightarrow> response node_op" where
  "handleDeleteLabels L s now rid =
     bindE (clock_tick now) (\<lambda>hlc.
       orError L (on_store (Delete KindMeta rid (''api/'' @ sv_nodeID s) hlc)) (\<lambda>_.
         ret \<lparr>rs_status = 204, rs_body = []\<rparr>))"

section \<open>Events, summary and cluster\<close>

definition hlc_json :: "hlc \<Rightarrow> json" where
  "hlc_json h = JObj [(''TS'', JInt (TS h)), (''Seq'', JInt (Seq h))]"

definition event_json :: "event \<Rightarrow> error + json" where
  "event_json e = Inr (JObj (
     [(''seq'', JInt (ev_seq e)), (''type'', JStr (ev_type e)), (''runner_id'', JStr (ev_runner_id e))] @
     (case ev_payload e of None \<Rightarrow> [] | Some m \<Rightarrow> (if m = [] then [] else [(''payload'', JObj m)])) @
     [(''hlc'', hlc_json (ev_hlc e))]))"

definition events_limit :: "request \<Rightarrow> int" where
  "events_limit r =
     (let v = q_get r ''limit'';
          limit = (if v \<noteq> [] then (case Atoi v of Some n \<Rightarrow> n | None \<Rightarrow> 100) else 100);
          limit = (if limit < 1 then 1 else limit)
      in if limit > 1000 then 1000 else limit)"

text \<open>The slice \<^verbatim>\<open>Events\<close> returns is not nil, also when it is empty.\<close>

definition events_json :: "event list \<Rightarrow> error + json" where
  "events_json evs = map_sum id JArr (json_list event_json evs)"

definition handleEvents :: "http_lib \<Rightarrow> request \<Rightarrow> response node_op" where
  "handleEvents L r =
     orError L (on_store (Events (hl_codec L) (events_limit r))) (\<lambda>evs.
       let runner = q_get r ''runner'';
           evs = (if runner \<noteq> [] then filter (\<lambda>e. ev_runner_id e = runner) evs else evs)
       in ret (writeJSON L 200 (events_json evs)))"

definition handleSummary :: "http_lib \<Rightarrow> server \<Rightarrow> response node_op" where
  "handleSummary L s =
     orError L (on_store (listRunners (hl_codec L) (-1) 0)) (\<lambda>items.
       bindE (on_store (mergeMetaLabels (hl_codec L) items)) (\<lambda>items.
         ret (writeJSON L 200 (map_sum id (\<lambda>rs. JObj [(''node_id'', JStr (sv_nodeID s)), (''runners'', rs)])
           (slice_json runner_json items)))))"

record totals =
  tt_active :: int
  tt_capacity :: int
  tt_available :: int
  tt_cpu :: f64
  tt_mem :: f64

definition totals_zero :: totals where
  "totals_zero = \<lparr>tt_active = 0, tt_capacity = 0, tt_available = 0, tt_cpu = Fin 0, tt_mem = Fin 0\<rparr>"

fun sum_active :: "runner list \<Rightarrow> totals \<Rightarrow> totals" where
  "sum_active [] t = t"
| "sum_active (r # rs) t =
     (if Status r = RunnerActive then
        sum_active rs \<lparr>tt_active = wrap64 (tt_active t + 1), tt_capacity = wrap64 (tt_capacity t + WorkerCapacity r),
          tt_available = wrap64 (tt_available t + AvailableWorkers r),
          tt_cpu = f64_add (tt_cpu t) (CPUUtil r), tt_mem = f64_add (tt_mem t) (MemUtil r)\<rparr>
      else sum_active rs t)"

definition f64_div_int :: "f64 \<Rightarrow> int \<Rightarrow> f64" where
  "f64_div_int x n = (case f64_of_int n of Fin d \<Rightarrow> f64_scale (1 / d) x | _ \<Rightarrow> NaN)"

definition averages :: "totals \<Rightarrow> totals" where
  "averages t =
     (if tt_active t > 0 then t\<lparr>tt_cpu := f64_div_int (tt_cpu t) (tt_active t), tt_mem := f64_div_int (tt_mem t) (tt_active t)\<rparr>
      else t)"

definition totals_json :: "totals \<Rightarrow> error + json" where
  "totals_json t =
     (case f64_json (tt_cpu t) of
        Inl e \<Rightarrow> Inl e
      | Inr cpu \<Rightarrow>
          (case f64_json (tt_mem t) of
             Inl e \<Rightarrow> Inl e
           | Inr mem \<Rightarrow> Inr (JObj [(''active_runners'', JInt (tt_active t)), (''available_workers'', JInt (tt_available t)),
               (''avg_cpu_util'', cpu), (''avg_mem_util'', mem), (''worker_capacity'', JInt (tt_capacity t))])))"

definition handleCluster :: "http_lib \<Rightarrow> response node_op" where
  "handleCluster L =
     orError L (on_store (listRunners (hl_codec L) (-1) 0)) (\<lambda>runners.
       ret (writeJSON L 200 (totals_json (averages (sum_active runners totals_zero)))))"

section \<open>Placement\<close>

text \<open>\<open>u\<close> is what \<^verbatim>\<open>rand.Float64()\<close> returned.\<close>

definition scoreRunner :: "f64 \<Rightarrow> runner \<Rightarrow> f64" where
  "scoreRunner u r =
     (let base = f64_add (f64_sub (f64_sub (f64_scale 10 (f64_of_int (AvailableWorkers r))) (f64_scale 50 (CPUUtil r)))
                   (f64_scale 30 (MemUtil r))) (f64_scale (1 / 1000) (f64_of_int (FreeDiskMB r)));
          jitter = f64_sub (f64_scale 10 u) (Fin 5)
      in f64_add base jitter)"

fun match_labels :: "string list \<Rightarrow> runner \<Rightarrow> bool" where
  "match_labels [] rn = True"
| "match_labels (lbl # lbls) rn =
     (case SplitN2 (CHR '':'') lbl of
        [k, v] \<Rightarrow>
          if (case gm_get (case Labels rn of None \<Rightarrow> [] | Some m \<Rightarrow> m) k of None \<Rightarrow> [] | Some x \<Rightarrow> x) \<noteq> v then False
          else match_labels lbls rn
      | _ \<Rightarrow> match_labels lbls rn)"

fun eligible_loop :: "string \<Rightarrow> string list \<Rightarrow> runner list \<Rightarrow> runner list \<Rightarrow> runner list \<Rightarrow> runner list \<times> runner list" where
  "eligible_loop region labels [] allE regionE = (allE, regionE)"
| "eligible_loop region labels (rn # rns) allE regionE =
     (if Status rn \<noteq> RunnerActive then eligible_loop region labels rns allE regionE
      else if AvailableWorkers rn = 0 then eligible_loop region labels rns allE regionE
      else if \<not> match_labels labels rn then eligible_loop region labels rns allE regionE
      else eligible_loop region labels rns (allE @ [rn])
             (if region = [] \<or> Region rn = region then regionE @ [rn] else regionE))"

fun score_loop :: "(nat \<Rightarrow> f64) \<Rightarrow> bool \<Rightarrow> nat \<Rightarrow> runner list \<Rightarrow> scored_runner list" where
  "score_loop u penalty i [] = []"
| "score_loop u penalty i (rn # rns) =
     (let sc = scoreRunner (u i) rn;
          sc = (if penalty then f64_sub sc (Fin 1000) else sc)
      in \<lparr>sr_Runner = rn, sr_Score = sc\<rparr> # score_loop u penalty (Suc i) rns)"

definition score_gt :: "scored_runner \<Rightarrow> scored_runner \<Rightarrow> bool" where
  "score_gt a b = f64_less (sr_Score b) (sr_Score a)"

definition scored_json :: "scored_runner \<Rightarrow> error + json" where
  "scored_json x =
     (case runner_json (sr_Runner x) of
        Inl e \<Rightarrow> Inl e
      | Inr r \<Rightarrow> (case f64_json (sr_Score x) of Inl e \<Rightarrow> Inl e | Inr sc \<Rightarrow> Inr (JObj [(''runner'', r), (''score'', sc)])))"

text \<open>What the handler decides: \<^const>\<open>None\<close> when no runner is eligible.\<close>

definition place :: "http_lib \<Rightarrow> (nat \<Rightarrow> f64) \<Rightarrow> string \<Rightarrow> string list \<Rightarrow> runner list \<Rightarrow> scored_runner list option" where
  "place L u region labels runners =
     (let (allE, regionE) = eligible_loop region labels runners [] [];
          (final, penalty) = (if length regionE > 0 then (regionE, False)
                              else if length allE > 0 then (allE, True) else ([], False))
      in if length final = 0 then None else Some (hl_sort L score_gt (score_loop u penalty 0 final)))"

definition best_body :: "http_lib \<Rightarrow> (nat \<Rightarrow> f64) \<Rightarrow> request \<Rightarrow> response node_op" where
  "best_body L u r =
     tryE (on_store (listRunners (hl_codec L) (-1) 0))
       (\<lambda>e. bindE (on_metrics (\<lambda>m. m\<lparr>PlacementErrors := counter_inc (PlacementErrors m)\<rparr>)) (\<lambda>_. ret (writeError L e)))
       (\<lambda>runners.
          bindE (on_store (mergeMetaLabels (hl_codec L) runners)) (\<lambda>runners.
            case place L u (q_get r ''region'') (q_all r ''label'') runners of
              None \<Rightarrow> bindE (on_metrics (\<lambda>m. m\<lparr>PlacementErrors := counter_inc (PlacementErrors m)\<rparr>)) (\<lambda>_.
                        ret (writeJSON L 404 (error_json ''no available runners'')))
            | Some scored \<Rightarrow> ret (writeJSON L 200 (slice_json scored_json scored))))"

definition handleBestRunner :: "http_lib \<Rightarrow> (nat \<Rightarrow> f64) \<Rightarrow> int \<Rightarrow> request \<Rightarrow> response node_op" where
  "handleBestRunner L u elapsed r =
     bindE (on_metrics (\<lambda>m. m\<lparr>PlacementRequests := counter_inc (PlacementRequests m)\<rparr>)) (\<lambda>_.
       bindE (best_body L u r) (\<lambda>resp.
         bindE (on_metrics (\<lambda>m. m\<lparr>PlacementLatency := timer_observe elapsed (PlacementLatency m)\<rparr>)) (\<lambda>_. ret resp)))"


section \<open>The metrics page\<close>

definition line :: "string \<Rightarrow> string" where
  "line t = t @ [CHR 0x0A]"

definition uint_text :: "uint64 \<Rightarrow> string" where
  "uint_text w = dec_nat (unat w)"

text \<open>\<^verbatim>\<open>%f\<close> of a finite number that is not negative: six digits, rounded to nearest, ties to even.\<close>

fun pad_left :: "nat \<Rightarrow> string \<Rightarrow> string" where
  "pad_left n t = replicate (n - length t) (CHR ''0'') @ t"

definition f6_text :: "f64 \<Rightarrow> string" where
  "f6_text x =
     (case x of
        Fin y \<Rightarrow> (let n = nat (round_half_even (y * 1000000))
                 in dec_nat (n div 1000000) @ ''.'' @ pad_left 6 (dec_nat (n mod 1000000)))
      | PInf \<Rightarrow> ''+Inf'' | NInf \<Rightarrow> ''-Inf'' | NaN \<Rightarrow> ''NaN'')"

definition timer_Seconds :: "timer \<Rightarrow> f64" where
  "timer_Seconds t = f64_scale (1 / 1000000000) (f64_of_int (uint (tm_total t)))"

text \<open>\<open>order\<close> is the order in which the runtime iterates the map.\<close>

definition status_Write :: "((int \<times> counter) list \<Rightarrow> (int \<times> counter) list) \<Rightarrow> status_counters \<Rightarrow> string \<Rightarrow> string" where
  "status_Write order s name =
     concat (map (\<lambda>(status, c). line (name @ ''{status='' @ quoted (dec_int status) @ ''} '' @ uint_text c))
       (order (case s of None \<Rightarrow> [] | Some v \<Rightarrow> v)))"

definition help_lines :: "string \<Rightarrow> string \<Rightarrow> string \<Rightarrow> string" where
  "help_lines name typ text = line (''# HELP '' @ name @ '' '' @ text) @ line (''# TYPE '' @ name @ '' '' @ typ)"

definition counter_page :: "string \<Rightarrow> string \<Rightarrow> uint64 \<Rightarrow> string" where
  "counter_page name text c = help_lines name ''counter'' text @ line (name @ '' '' @ uint_text c)"

definition summary_page :: "string \<Rightarrow> string \<Rightarrow> timer \<Rightarrow> string" where
  "summary_page name text t =
     help_lines name ''summary'' text @ line (name @ ''_count '' @ uint_text (tm_count t)) @
     line (name @ ''_sum '' @ f6_text (timer_Seconds t))"

definition gauge_page :: "string \<Rightarrow> string \<Rightarrow> int \<Rightarrow> string" where
  "gauge_page name text i = help_lines name ''gauge'' text @ line (name @ '' '' @ dec_int i)"

definition metrics_page :: "http_lib \<Rightarrow> metrics \<Rightarrow> string" where
  "metrics_page L m =
     help_lines ''takl_http_requests_total'' ''counter'' ''Total HTTP requests by status code.'' @
     status_Write (hl_order L) (HTTPRequests m) ''takl_http_requests_total'' @
     counter_page ''takl_placement_requests_total'' ''Total placement query requests.'' (PlacementRequests m) @
     counter_page ''takl_placement_errors_total'' ''Total placement query errors.'' (PlacementErrors m) @
     summary_page ''takl_placement_latency_seconds'' ''Placement query latency.'' (PlacementLatency m) @
     counter_page ''takl_sync_rounds_total'' ''Total sync rounds.'' (SyncRounds m) @
     counter_page ''takl_sync_round_errors_total'' ''Total failed sync rounds.'' (SyncRoundErrors m) @
     summary_page ''takl_sync_round_latency_seconds'' ''Sync round latency.'' (SyncRoundLatency m) @
     counter_page ''takl_sync_rows_applied_total'' ''Total replicated rows applied by sync.'' (SyncRowsApplied m) @
     counter_page ''takl_sync_events_applied_total'' ''Total replicated events applied by sync.'' (SyncEventsApplied m) @
     counter_page ''takl_sync_checksum_mismatches_total'' ''Total row checksum mismatches requiring reconciliation.''
       (SyncChecksumMismatches m) @
     counter_page ''takl_sync_event_checksum_mismatches_total'' ''Total event checksum mismatches requiring reconciliation.''
       (SyncEventChecksumMismatches m)"

definition runners_page :: "runner list \<Rightarrow> string" where
  "runners_page runners =
     (let t = sum_active runners totals_zero in
      gauge_page ''takl_runners_total'' ''Total known non-tombstoned runners.'' (int (length runners)) @
      gauge_page ''takl_active_runners'' ''Total active runners.'' (tt_active t) @
      gauge_page ''takl_worker_capacity'' ''Total active worker capacity.'' (tt_capacity t) @
      gauge_page ''takl_available_workers'' ''Total active available workers.'' (tt_available t))"

definition handleMetrics :: "http_lib \<Rightarrow> response node_op" where
  "handleMetrics L n =
     (let head = metrics_page L (nd_metrics n) in
      tryE (on_store (listRunners (hl_codec L) (-1) 0))
        (\<lambda>_. ret \<lparr>rs_status = 200, rs_body = head @ line ''takl_metrics_store_error 1''\<rparr>)
        (\<lambda>runners. ret \<lparr>rs_status = 200, rs_body = head @ runners_page runners\<rparr>) n)"

section \<open>Authorisation and routes\<close>

definition authorized :: "server \<Rightarrow> request \<Rightarrow> bool" where
  "authorized s r =
     (if sv_adminToken s = [] then False
      else
        let got = rq_header r ''X-Takl-Admin-Token'';
            got = (if got = [] then TrimPrefix (rq_header r ''Authorization'') ''Bearer '' else got)
        in got = sv_adminToken s)"

definition adminOnly :: "http_lib \<Rightarrow> server \<Rightarrow> (request \<Rightarrow> response node_op) \<Rightarrow> request \<Rightarrow> response node_op" where
  "adminOnly L s next r =
     (if \<not> authorized s r then ret (writeJSON L 401 (error_json ''admin token required'')) else next r)"

text \<open>
  The routes of \<^verbatim>\<open>http.ServeMux\<close>: a pattern with \<^verbatim>\<open>GET\<close> also takes \<^verbatim>\<open>HEAD\<close>; a literal segment goes before a
  wildcard; a path that only other methods match is answered 405, any other path 404. A path
  is the list of its segments, none of them empty; the one pattern that ends with a slash, the
  profiler's index, is taken without it.
\<close>

record ambient =
  rd_now :: int
  rd_elapsed :: int
  rd_rand :: "nat \<Rightarrow> f64"

definition text_response :: "int \<Rightarrow> string \<Rightarrow> response" where
  "text_response status t = \<lparr>rs_status = status, rs_body = line t\<rparr>"

definition pprof_route :: "request \<Rightarrow> bool option" where
  "pprof_route r =
     (if take 2 (rq_path r) \<noteq> [''debug'', ''pprof''] then None
      else Some (rq_method r \<in> {''GET'', ''HEAD''} \<or>
                 rq_method r = ''POST'' \<and> rq_path r = [''debug'', ''pprof'', ''symbol'']))"

definition api_route :: "http_lib \<Rightarrow> server \<Rightarrow> ambient \<Rightarrow> request \<Rightarrow> response node_op option option" where
  "api_route L s rd r =
     (let get = rq_method r \<in> {''GET'', ''HEAD''};
          only = (\<lambda>h. Some (if get then Some h else None))
      in case rq_path r of
           [a] \<Rightarrow>
             if a = ''healthz'' then only (handleHealth L s)
             else if a = ''metrics'' then only (handleMetrics L)
             else None
         | [a, b, c] \<Rightarrow>
             if a = ''api'' \<and> b = ''v1'' then
               if c = ''runners'' then only (handleRunners L r)
               else if c = ''events'' then only (handleEvents L r)
               else if c = ''summary'' then only (handleSummary L s)
               else if c = ''cluster'' then only (handleCluster L)
               else None
             else None
         | [a, b, c, d] \<Rightarrow>
             if a = ''api'' \<and> b = ''v1'' \<and> c = ''runners'' then
               if d = ''best'' then only (handleBestRunner L (rd_rand rd) (rd_elapsed rd) r)
               else only (handleRunner L d)
             else None
         | [a, b, c, d, e] \<Rightarrow>
             if a = ''api'' \<and> b = ''v1'' \<and> c = ''runners'' \<and> e = ''labels'' then
               if get then Some (Some (handleGetLabels L d))
               else if rq_method r = ''PUT'' then Some (Some (handleUpdateLabels L s (rd_now rd) d r))
               else if rq_method r = ''DELETE'' then Some (Some (handleDeleteLabels L s (rd_now rd) d))
               else Some None
             else None
         | _ \<Rightarrow> None)"

definition mux :: "http_lib \<Rightarrow> server \<Rightarrow> ambient \<Rightarrow> request \<Rightarrow> response node_op" where
  "mux L s rd r =
     (case (if sv_enablePprof s then pprof_route r else None) of
        Some True \<Rightarrow> adminOnly L s (\<lambda>r. ret (hl_pprof L r)) r
      | Some False \<Rightarrow> ret (text_response 405 ''Method Not Allowed'')
      | None \<Rightarrow>
          (case api_route L s rd r of
             Some (Some h) \<Rightarrow> h
           | Some None \<Rightarrow> ret (text_response 405 ''Method Not Allowed'')
           | None \<Rightarrow> ret (text_response 404 ''404 page not found'')))"

text \<open>A response whose handler wrote nothing counts as 200; a panic passes by the counter.\<close>

definition observeHTTP :: "(request \<Rightarrow> response node_op) \<Rightarrow> request \<Rightarrow> response node_op" where
  "observeHTTP next r =
     bindE (next r) (\<lambda>resp.
       let resp = (if rs_status resp = 0 then resp\<lparr>rs_status := 200\<rparr> else resp) in
       bindE (on_metrics (\<lambda>m. m\<lparr>HTTPRequests := status_inc (rs_status resp) (HTTPRequests m)\<rparr>)) (\<lambda>_. ret resp))"

definition Handler :: "http_lib \<Rightarrow> server \<Rightarrow> ambient \<Rightarrow> request \<Rightarrow> response node_op" where
  "Handler L s rd = observeHTTP (mux L s rd)"


section \<open>Scores\<close>

text \<open>The loads a backend reports are not negative; the random number is in the unit interval.\<close>

definition load_ok :: "runner \<Rightarrow> bool" where
  "load_ok r \<longleftrightarrow> in64 (AvailableWorkers r) \<and> in64 (FreeDiskMB r) \<and> f64_le (Fin 0) (CPUUtil r) \<and> f64_le (Fin 0) (MemUtil r)"

definition unit_ok :: "f64 \<Rightarrow> bool" where
  "unit_ok u \<longleftrightarrow> f64_le (Fin 0) u \<and> f64_le u (Fin 1)"

definition below :: "nat \<Rightarrow> f64 \<Rightarrow> bool" where
  "below k x = f64_le x (Fin (2 ^ k))"

lemma f64_round_power: "k \<le> 900 \<Longrightarrow> f64_round (2 ^ k) = Fin (2 ^ k)"
  using is_f64_dyadic [of 1 "int k"] by (simp add: is_f64_def)

lemma below_round: "x \<le> 2 ^ k \<Longrightarrow> k \<le> 900 \<Longrightarrow> below k (f64_round x)"
  using f64_round_mono [of x "2 ^ k"] by (simp add: below_def f64_round_power)

lemma below_add: "below k a \<Longrightarrow> below k b \<Longrightarrow> k < 900 \<Longrightarrow> below (Suc k) (f64_add a b)"
  using below_round [of _ "Suc k"] by (cases a; cases b) (auto simp: below_def)

lemma below_neg: "f64_le (Fin 0) x \<Longrightarrow> below k (f64_neg x)"
  by (cases x) (auto simp: below_def intro: order_trans [of _ 0])

lemma below_mono: "below k x \<Longrightarrow> k \<le> m \<Longrightarrow> below m x"
  by (cases x) (auto simp: below_def intro: order_trans power_increasing)

lemma below_not_NaN: "below k x \<Longrightarrow> x \<noteq> NaN"
  by (auto simp: below_def)

lemma below_of_int: "in64 i \<Longrightarrow> 0 < c \<Longrightarrow> c \<le> 16 \<Longrightarrow> below 67 (f64_scale c (f64_of_int i))"
proof -
  assume *: "in64 i" "0 < c" "c \<le> 16"
  then obtain x where x: "f64_of_int i = Fin x" "\<bar>x\<bar> \<le> 2 ^ 63" using f64_of_int_bounded by blast
  have "c * x \<le> c * \<bar>x\<bar>" using * by (intro mult_left_mono) simp_all
  also have "\<dots> \<le> 16 * 2 ^ 63" using * x(2) by (intro mult_mono) simp_all
  finally show ?thesis using x(1) below_round [of "c * x" 67] by simp
qed

lemma zero_scale: "f64_le (Fin 0) x \<Longrightarrow> 0 < c \<Longrightarrow> f64_le (Fin 0) (f64_scale c x)"
  using f64_scale_mono [of c "Fin 0" x] is_f64_dyadic [of 0 0] by (simp add: is_f64_def)

definition base_score :: "runner \<Rightarrow> f64" where
  "base_score r =
     f64_add (f64_sub (f64_sub (f64_scale 10 (f64_of_int (AvailableWorkers r))) (f64_scale 50 (CPUUtil r)))
       (f64_scale 30 (MemUtil r))) (f64_scale (1 / 1000) (f64_of_int (FreeDiskMB r)))"

lemma score_steps_below:
  assumes "load_ok r"
  shows "below 68 (f64_sub (f64_scale 10 (f64_of_int (AvailableWorkers r))) (f64_scale 50 (CPUUtil r)))"
    "below 69 (f64_sub (f64_sub (f64_scale 10 (f64_of_int (AvailableWorkers r))) (f64_scale 50 (CPUUtil r))) (f64_scale 30 (MemUtil r)))"
    "below 70 (base_score r)"
proof -
  have w: "below 67 (f64_scale 10 (f64_of_int (AvailableWorkers r)))" "below 67 (f64_scale (1 / 1000) (f64_of_int (FreeDiskMB r)))"
    using assms by (simp_all add: load_ok_def below_of_int)
  have l: "f64_le (Fin 0) (f64_scale 50 (CPUUtil r))" "f64_le (Fin 0) (f64_scale 30 (MemUtil r))"
    using assms by (simp_all add: load_ok_def zero_scale)
  show 1: "below 68 (f64_sub (f64_scale 10 (f64_of_int (AvailableWorkers r))) (f64_scale 50 (CPUUtil r)))"
    using below_add [OF w(1) below_neg [OF l(1)]] by (simp add: f64_sub_def)
  show 2: "below 69 (f64_sub (f64_sub (f64_scale 10 (f64_of_int (AvailableWorkers r))) (f64_scale 50 (CPUUtil r))) (f64_scale 30 (MemUtil r)))"
    using below_add [OF 1 below_neg [OF l(2)]] by (simp add: f64_sub_def)
  show "below 70 (base_score r)"
    using below_add [OF 2 below_mono [OF w(2)]] by (simp add: base_score_def)
qed


lemma round_small_int: "\<bar>i\<bar> < 2 ^ 53 \<Longrightarrow> f64_round (of_int i) = Fin (of_int i)"
  using f64_of_int_exact [of i] by (simp add: f64_of_int_def)

lemma round_between:
  assumes "of_int a \<le> x" "x \<le> of_int b" "\<bar>a\<bar> < 2 ^ 53" "\<bar>b\<bar> < 2 ^ 53"
  shows "\<exists>y. f64_round x = Fin y \<and> of_int a \<le> y \<and> y \<le> of_int b"
  using f64_round_mono [OF assms(1)] f64_round_mono [OF assms(2)] round_small_int [OF assms(3)] round_small_int [OF assms(4)]
  by (cases "f64_round x") auto

lemma jitter_bounds:
  assumes "unit_ok u"
  shows "\<exists>j. f64_sub (f64_scale 10 u) (Fin 5) = Fin j \<and> - 5 \<le> j \<and> j \<le> 5"
proof -
  obtain x where x: "u = Fin x" "0 \<le> x" "x \<le> 1" using assms by (cases u) (auto simp: unit_ok_def)
  obtain y where y: "f64_round (10 * x) = Fin y" "0 \<le> y" "y \<le> 10" using round_between [of 0 "10 * x" 10] x by auto
  obtain z where "f64_round (y - 5) = Fin z" "- 5 \<le> z" "z \<le> 5" using round_between [of "- 5" "y - 5" 5] y by auto
  then show ?thesis using x y by (simp add: f64_sub_def)
qed

lemma scoreRunner_base: "scoreRunner u r = f64_add (base_score r) (f64_sub (f64_scale 10 u) (Fin 5))"
  by (simp add: scoreRunner_def base_score_def Let_def)

lemma scoreRunner_not_NaN: "load_ok r \<Longrightarrow> unit_ok u \<Longrightarrow> scoreRunner u r \<noteq> NaN \<and> scoreRunner u r \<noteq> PInf"
proof -
  assume r: "load_ok r" and u: "unit_ok u"
  obtain j where j: "f64_sub (f64_scale 10 u) (Fin 5) = Fin j" "j \<le> 5" using jitter_bounds [OF u] by blast
  have "below 70 (Fin j)" using j(2) by (simp add: below_def)
  then have "below 71 (scoreRunner u r)"
    using below_add [OF score_steps_below(3) [OF r], of "Fin j"] j(1) by (simp add: scoreRunner_base)
  then show ?thesis by (auto simp: below_def)
qed

lemma base_score_mono:
  assumes "load_ok r" "load_ok r'" "AvailableWorkers r \<le> AvailableWorkers r'" "f64_le (CPUUtil r') (CPUUtil r)"
    "f64_le (MemUtil r') (MemUtil r)" "FreeDiskMB r \<le> FreeDiskMB r'"
  shows "f64_le (base_score r) (base_score r')"
proof -
  note nn = score_steps_below [OF assms(1), THEN below_not_NaN] score_steps_below [OF assms(2), THEN below_not_NaN]
  note steps = f64_scale_mono f64_of_int_mono f64_neg_mono assms(3-6)
  have 1: "f64_le (f64_sub (f64_scale 10 (f64_of_int (AvailableWorkers r))) (f64_scale 50 (CPUUtil r)))
      (f64_sub (f64_scale 10 (f64_of_int (AvailableWorkers r'))) (f64_scale 50 (CPUUtil r')))"
    using nn(1,4) unfolding f64_sub_def by (intro f64_add_mono steps) simp_all
  have 2: "f64_le (f64_sub (f64_sub (f64_scale 10 (f64_of_int (AvailableWorkers r))) (f64_scale 50 (CPUUtil r))) (f64_scale 30 (MemUtil r)))
      (f64_sub (f64_sub (f64_scale 10 (f64_of_int (AvailableWorkers r'))) (f64_scale 50 (CPUUtil r'))) (f64_scale 30 (MemUtil r')))"
    using 1 nn(2,5) unfolding f64_sub_def [of _ "f64_scale 30 (MemUtil r)"] f64_sub_def [of _ "f64_scale 30 (MemUtil r')"]
    by (intro f64_add_mono steps) simp_all
  show ?thesis
    using 2 nn(3,6) unfolding base_score_def by (intro f64_add_mono steps) simp_all
qed

text \<open>
  The score prefers idle runners, rounding included. With the same random number a runner
  with at least as many free workers, no more load on CPU and memory, and at least as much free
  disk never scores lower; and a runner whose base score is ahead by ten or more never scores
  lower whatever the random numbers are, since the jitter stays between -5 and 5.
\<close>
theorem score_prefers_idle:
  assumes "load_ok r" "load_ok r'" "unit_ok u"
  shows "(AvailableWorkers r \<le> AvailableWorkers r' \<and> f64_le (CPUUtil r') (CPUUtil r) \<and> f64_le (MemUtil r') (MemUtil r) \<and>
      FreeDiskMB r \<le> FreeDiskMB r' \<longrightarrow> f64_le (scoreRunner u r) (scoreRunner u r')) \<and>
    (\<forall>b b' u'. base_score r = Fin b \<and> base_score r' = Fin b' \<and> b + 10 \<le> b' \<and> unit_ok u' \<longrightarrow>
      f64_le (scoreRunner u r) (scoreRunner u' r'))"
proof (intro conjI impI allI)
  assume "AvailableWorkers r \<le> AvailableWorkers r' \<and> f64_le (CPUUtil r') (CPUUtil r) \<and> f64_le (MemUtil r') (MemUtil r) \<and>
      FreeDiskMB r \<le> FreeDiskMB r'"
  then have "f64_le (base_score r) (base_score r')" using assms by (intro base_score_mono) simp_all
  then show "f64_le (scoreRunner u r) (scoreRunner u r')"
    using scoreRunner_not_NaN [OF assms(1,3)] scoreRunner_not_NaN [OF assms(2,3)] jitter_bounds [OF assms(3)]
    unfolding scoreRunner_base by (intro f64_add_mono f64_le_refl) auto
next
  fix b b' u'
  assume *: "base_score r = Fin b \<and> base_score r' = Fin b' \<and> b + 10 \<le> b' \<and> unit_ok u'"
  obtain j j' where "f64_sub (f64_scale 10 u) (Fin 5) = Fin j" "j \<le> 5" "f64_sub (f64_scale 10 u') (Fin 5) = Fin j'" "- 5 \<le> j'"
    using jitter_bounds [OF assms(3)] jitter_bounds [of u'] * by blast
  then show "f64_le (scoreRunner u r) (scoreRunner u' r')"
    using * by (simp add: scoreRunner_base f64_round_mono)
qed

theorem score_prefers_idle_witness:
  "f64_le (scoreRunner (Fin (1 / 2)) ex_runner) (scoreRunner (Fin (1 / 2)) (ex_runner\<lparr>AvailableWorkers := 9\<rparr>))"
proof -
  have "load_ok ex_runner" "load_ok (ex_runner\<lparr>AvailableWorkers := 9\<rparr>)" "unit_ok (Fin (1 / 2))"
    by (simp_all add: load_ok_def unit_ok_def ex_runner_def runner_zero_def in64_def min64_def max64_def)
  from score_prefers_idle [OF this] show ?thesis by (simp add: ex_runner_def runner_zero_def)
qed


section \<open>Placement\<close>

definition label_ok :: "runner \<Rightarrow> string \<Rightarrow> bool" where
  "label_ok rn lbl =
     (case SplitN2 (CHR '':'') lbl of
        [k, v] \<Rightarrow> (case gm_get (case Labels rn of None \<Rightarrow> [] | Some m \<Rightarrow> m) k of None \<Rightarrow> [] | Some x \<Rightarrow> x) = v
      | _ \<Rightarrow> True)"

definition eligible :: "string list \<Rightarrow> runner \<Rightarrow> bool" where
  "eligible labels rn \<longleftrightarrow> Status rn = RunnerActive \<and> AvailableWorkers rn \<noteq> 0 \<and> (\<forall>lbl \<in> set labels. label_ok rn lbl)"

definition in_region :: "string \<Rightarrow> runner \<Rightarrow> bool" where
  "in_region region rn \<longleftrightarrow> region = [] \<or> Region rn = region"

lemma match_labels_iff: "match_labels labels rn \<longleftrightarrow> (\<forall>lbl \<in> set labels. label_ok rn lbl)"
  by (induction labels) (auto simp: label_ok_def SplitN2_def)

lemma eligible_loop_eq:
  "eligible_loop region labels rns allE regionE =
     (allE @ filter (eligible labels) rns, regionE @ filter (in_region region) (filter (eligible labels) rns))"
proof (induction rns arbitrary: allE regionE)
  case (Cons rn rns)
  then show ?case by (auto simp: eligible_def [of labels rn] in_region_def [of region rn] match_labels_iff)
qed simp

lemma score_loop_runners: "map sr_Runner (score_loop u penalty i rns) = rns"
  by (induction rns arbitrary: i) (auto simp: Let_def)

lemma score_loop_scores:
  "x \<in> set (score_loop u penalty i rns) \<Longrightarrow> \<exists>k. sr_Score x =
     (if penalty then f64_sub (scoreRunner (u k) (sr_Runner x)) (Fin 1000) else scoreRunner (u k) (sr_Runner x))"
  by (induction rns arbitrary: i) (auto simp: Let_def split: if_splits)

text \<open>What \<^verbatim>\<open>sort.Slice\<close> documents, for scores that are numbers.\<close>

definition sort_slice_ok :: "http_lib \<Rightarrow> bool" where
  "sort_slice_ok L \<longleftrightarrow> (\<forall>xs. (\<forall>x \<in> set xs. sr_Score x \<noteq> NaN) \<longrightarrow>
     mset (hl_sort L score_gt xs) = mset xs \<and> sorted_wrt (\<lambda>a b. \<not> score_gt b a) (hl_sort L score_gt xs))"

lemma not_score_gt: "sr_Score a \<noteq> NaN \<Longrightarrow> sr_Score b \<noteq> NaN \<Longrightarrow> \<not> score_gt b a \<Longrightarrow> f64_le (sr_Score b) (sr_Score a)"
  using f64_le_total [of "sr_Score a" "sr_Score b"] by (auto simp: score_gt_def f64_less_def)

lemma f64_sub_Fin_NaN: "x \<noteq> NaN \<Longrightarrow> f64_sub x (Fin y) \<noteq> NaN"
  by (cases x) (auto simp: f64_sub_def)

lemma place_exact:
  fixes labels region rns
  assumes "sort_slice_ok L" "\<forall>i. unit_ok (u i)" "\<forall>rn \<in> set rns. load_ok rn"
  defines "ok \<equiv> filter (eligible labels) rns"
  defines "near \<equiv> filter (in_region region) ok"
  shows "if ok = [] then place L u region labels rns = None
    else \<exists>ps. place L u region labels rns = Some ps \<and> mset (map sr_Runner ps) = mset (if near \<noteq> [] then near else ok) \<and>
      sorted_wrt (\<lambda>a b. f64_le (sr_Score b) (sr_Score a)) ps \<and>
      (\<forall>x \<in> set ps. \<exists>i. sr_Score x = (if near \<noteq> [] then scoreRunner (u i) (sr_Runner x)
                                    else f64_sub (scoreRunner (u i) (sr_Runner x)) (Fin 1000)))"
proof (cases "ok = []")
  case True
  then have "near = []" by (simp add: ok_def near_def)
  then show ?thesis using True by (simp add: place_def eligible_loop_eq ok_def [symmetric] near_def [symmetric])
next
  case False
  define final where "final = (if near \<noteq> [] then near else ok)"
  let ?xs = "score_loop u (near = []) 0 final"
  have fin: "final \<noteq> []" "set final \<subseteq> set rns" using False by (auto simp: final_def near_def ok_def)
  have sc: "sr_Score x \<noteq> NaN" if "x \<in> set ?xs" for x
  proof -
    have "sr_Runner x \<in> set final" using that score_loop_runners [of u "near = []" 0 final] by (metis image_eqI set_map)
    then have "load_ok (sr_Runner x)" using fin(2) assms(3) by blast
    then have "scoreRunner (u k) (sr_Runner x) \<noteq> NaN" for k using scoreRunner_not_NaN assms(2) by blast
    then show ?thesis using score_loop_scores [OF that] f64_sub_Fin_NaN by (auto split: if_splits)
  qed
  let ?ps = "hl_sort L score_gt ?xs"
  have p: "mset ?ps = mset ?xs" "sorted_wrt (\<lambda>a b. \<not> score_gt b a) ?ps"
    using assms(1) sc by (auto simp: sort_slice_ok_def)
  have s: "set ?ps = set ?xs" using p(1) by (rule mset_eq_setD)
  have "place L u region labels rns = Some ?ps"
    using fin(1) False by (auto simp: place_def eligible_loop_eq ok_def [symmetric] near_def [symmetric] final_def Let_def)
  moreover have "mset (map sr_Runner ?ps) = mset final"
    using p(1) score_loop_runners [of u "near = []" 0 final] by (metis mset_map)
  moreover have "sorted_wrt (\<lambda>a b. f64_le (sr_Score b) (sr_Score a)) ?ps"
    using p(2) by (rule sorted_wrt_mono_rel [rotated]) (use s sc not_score_gt in blast)
  moreover have "\<forall>x \<in> set ?ps. \<exists>i. sr_Score x = (if near \<noteq> [] then scoreRunner (u i) (sr_Runner x)
                                    else f64_sub (scoreRunner (u i) (sr_Runner x)) (Fin 1000))"
    using s score_loop_scores [of _ u "near = []" 0 final] by (cases "near = []") auto
  ultimately show ?thesis using False by (auto simp: final_def)
qed


definition decode_runner :: "codec \<Rightarrow> row \<Rightarrow> runner option" where
  "decode_runner C r = (case Decode C (r_payload r) of Inl _ \<Rightarrow> None | Inr x \<Rightarrow> Some x)"

definition merged :: "codec \<Rightarrow> store \<Rightarrow> runner \<Rightarrow> runner" where
  "merged C s r =
     (case select_row KindMeta (RunnerID r) (st_rows s) of
        None \<Rightarrow> r
      | Some row \<Rightarrow>
          if r_tombstone row then r
          else (case unmarshal_str_map C (r_payload row) None of (extra, None) \<Rightarrow> add_labels extra r | (_, Some _) \<Rightarrow> r))"

definition known_runners :: "codec \<Rightarrow> store \<Rightarrow> runner list" where
  "known_runners C s = map (merged C s) (List.map_filter (decode_runner C) (live_rows KindRunner s))"

lemma fold_decode:
  "fold (\<lambda>r out. fst (case Decode C (r_payload r) of Inl _ \<Rightarrow> (out, True) | Inr item \<Rightarrow> (out @ [item], True))) rs out
     = out @ List.map_filter (decode_runner C) rs"
  by (induction rs arbitrary: out) (auto simp: decode_runner_def List.map_filter_simps split: sum.splits)

lemma listRunners_healthy [db_simps]:
  "healthy s \<Longrightarrow> listRunners C limit offset s =
     (Inr (List.map_filter (decode_runner C) (page limit offset (live_rows KindRunner s))), s)"
  unfolding listRunners_def
  by (subst List_rows_healthy) (auto simp: fold_decode split: sum.splits)

lemma mergeMetaLabelsOne_healthy [db_simps]: "healthy s \<Longrightarrow> mergeMetaLabelsOne C r s = (Inr (merged C s r), s)"
  by (auto simp: mergeMetaLabelsOne_def merged_def tryE_def Get_healthy ret_def split: option.splits prod.splits)

lemma mergeMetaLabels_healthy [db_simps]: "healthy s \<Longrightarrow> mergeMetaLabels C rs s = (Inr (map (merged C s) rs), s)"
  by (induction rs) (simp_all add: bindE_def ret_def mergeMetaLabelsOne_healthy)

lemma page_all [simp]: "page (- 1) 0 xs = xs"
  by (simp add: page_def)

lemma counter_inc_simp [simp]: "counter_inc c = c + 1"
  by (simp add: counter_inc_def counter_add_def)

text \<open>
  C11. Placement. \<^verbatim>\<open>GET /api/v1/runners/best\<close> on a database that does not fail answers from the
  runners this node knows, with the labels set through the API on top of their own. If none is
  active, has a free worker and carries the labels asked for, the answer is 404 and counts as
  an error. Otherwise the answer lists every such runner of the region asked for exactly once,
  best score first; if the region has none, every such runner of any region, each with a
  penalty of 1000. The query changes nothing but the counters.
\<close>
theorem placement_exact:
  assumes "healthy (nd_store n)" "sort_slice_ok L" "\<forall>i. unit_ok (u i)"
    and "\<forall>rn \<in> set (known_runners (hl_codec L) (nd_store n)). load_ok rn"
  shows "\<exists>resp n'. handleBestRunner L u elapsed r n = (Inr resp, n') \<and> nd_store n' = nd_store n \<and> nd_clock n' = nd_clock n \<and>
    PlacementRequests (nd_metrics n') = PlacementRequests (nd_metrics n) + 1 \<and>
    (let ok = filter (eligible (q_all r ''label'')) (known_runners (hl_codec L) (nd_store n));
         near = filter (in_region (q_get r ''region'')) ok
     in if ok = [] then resp = writeJSON L 404 (error_json ''no available runners'') \<and>
          PlacementErrors (nd_metrics n') = PlacementErrors (nd_metrics n) + 1
        else PlacementErrors (nd_metrics n') = PlacementErrors (nd_metrics n) \<and>
          (\<exists>ps. resp = writeJSON L 200 (slice_json scored_json ps) \<and>
            mset (map sr_Runner ps) = mset (if near \<noteq> [] then near else ok) \<and>
            sorted_wrt (\<lambda>a b. f64_le (sr_Score b) (sr_Score a)) ps \<and>
            (\<forall>x \<in> set ps. \<exists>i. sr_Score x = (if near \<noteq> [] then scoreRunner (u i) (sr_Runner x)
                                          else f64_sub (scoreRunner (u i) (sr_Runner x)) (Fin 1000)))))"
proof -
  let ?rns = "known_runners (hl_codec L) (nd_store n)"
  let ?ok = "filter (eligible (q_all r ''label'')) ?rns"
  note p = place_exact [OF assms(2,3,4), of "q_all r ''label''" "q_get r ''region''"]
  have run: "handleBestRunner L u elapsed r n =
      (case place L u (q_get r ''region'') (q_all r ''label'') ?rns of
         None \<Rightarrow> (Inr (writeJSON L 404 (error_json ''no available runners'')),
           n\<lparr>nd_metrics := (nd_metrics n)\<lparr>PlacementRequests := PlacementRequests (nd_metrics n) + 1,
             PlacementErrors := PlacementErrors (nd_metrics n) + 1,
             PlacementLatency := timer_observe elapsed (PlacementLatency (nd_metrics n))\<rparr>\<rparr>)
       | Some ps \<Rightarrow> (Inr (writeJSON L 200 (slice_json scored_json ps)),
           n\<lparr>nd_metrics := (nd_metrics n)\<lparr>PlacementRequests := PlacementRequests (nd_metrics n) + 1,
             PlacementLatency := timer_observe elapsed (PlacementLatency (nd_metrics n))\<rparr>\<rparr>))"
    using assms(1) by (simp add: handleBestRunner_def best_body_def bindE_def tryE_def on_metrics_def on_store_def ret_def
        listRunners_healthy mergeMetaLabels_healthy known_runners_def split: option.splits)
  show ?thesis
  proof (cases "?ok = []")
    case True
    then show ?thesis using p run by simp
  next
    case False
    then show ?thesis using p run by (auto simp: Let_def)
  qed
qed


fun ins_by :: "('a \<Rightarrow> 'a \<Rightarrow> bool) \<Rightarrow> 'a \<Rightarrow> 'a list \<Rightarrow> 'a list" where
  "ins_by lt x [] = [x]"
| "ins_by lt x (y # ys) = (if lt y x then y # ins_by lt x ys else x # y # ys)"

definition sort_by :: "('a \<Rightarrow> 'a \<Rightarrow> bool) \<Rightarrow> 'a list \<Rightarrow> 'a list" where
  "sort_by lt xs = foldr (ins_by lt) xs []"

definition ex_lib :: "json \<Rightarrow> http_lib" where
  "ex_lib j = \<lparr>hl_codec = one_codec j, hl_first = (\<lambda>_. Inl ErrJson), hl_error = (\<lambda>_. ''error''), hl_sort = sort_by,
     hl_order = (\<lambda>v. v), hl_pprof = (\<lambda>_. \<lparr>rs_status = 200, rs_body = []\<rparr>)\<rparr>"

lemma mset_ins_by: "mset (ins_by lt x ys) = add_mset x (mset ys)"
  by (induction ys) auto

lemma set_ins_by: "set (ins_by lt x ys) = insert x (set ys)"
  by (induction ys) auto

lemma ins_by_sorted:
  "sorted_wrt (\<lambda>a b. f64_le (sr_Score b) (sr_Score a)) ys \<Longrightarrow> \<forall>y \<in> set (x # ys). sr_Score y \<noteq> NaN \<Longrightarrow>
     sorted_wrt (\<lambda>a b. f64_le (sr_Score b) (sr_Score a)) (ins_by score_gt x ys)"
proof (induction ys)
  case (Cons y ys)
  show ?case
  proof (cases "score_gt y x")
    case True
    then show ?thesis using Cons by (auto simp: set_ins_by score_gt_def f64_less_def)
  next
    case False
    then have "f64_le (sr_Score y) (sr_Score x)" using Cons.prems(2) by (intro not_score_gt) auto
    then show ?thesis using Cons.prems False by (auto intro: f64_le_trans)
  qed
qed simp

lemma sort_by_ok: "sort_slice_ok (ex_lib j)"
proof -
  have "mset (sort_by lt xs) = mset xs" for lt and xs :: "scored_runner list"
    by (induction xs) (auto simp: sort_by_def mset_ins_by)
  moreover have "sorted_wrt (\<lambda>a b. f64_le (sr_Score b) (sr_Score a)) (sort_by score_gt xs)"
    if "\<forall>x \<in> set xs. sr_Score x \<noteq> NaN" for xs
    using that
  proof (induction xs)
    case (Cons x xs)
    have "set (sort_by score_gt xs) = set xs" using calculation [of score_gt xs] by (rule mset_eq_setD)
    then show ?case using Cons by (auto simp: sort_by_def intro!: ins_by_sorted)
  qed (simp add: sort_by_def)
  moreover have "sorted_wrt (\<lambda>a b. \<not> score_gt b a) xs"
    if "sorted_wrt (\<lambda>a b. f64_le (sr_Score b) (sr_Score a)) xs" for xs
    using that by (rule sorted_wrt_mono_rel [rotated]) (auto simp: score_gt_def f64_less_def)
  ultimately show ?thesis by (auto simp: sort_slice_ok_def ex_lib_def)
qed

theorem placement_exact_witness:
  "\<exists>L n resp n' ps. handleBestRunner L (\<lambda>_. Fin 0) 1 \<lparr>rq_method = ''GET'', rq_path = [], rq_query = [(''region'', [''eu''])],
       rq_header = (\<lambda>_. []), rq_body = []\<rparr> n = (Inr resp, n') \<and>
     resp = writeJSON L 200 (slice_json scored_json ps) \<and> map sr_Runner ps = [ex_runner] \<and>
     sr_Score (hd ps) = f64_sub (scoreRunner (Fin 0) ex_runner) (Fin 1000)"
proof -
  obtain j where j: "json_runner j = Inr (norm_labels ex_runner)"
    using json_runner_inverse [OF ex_runner_ok] by blast
  have norm: "norm_labels ex_runner = ex_runner" by (simp add: norm_labels_def ex_runner_def runner_zero_def)
  let ?L = "ex_lib j"
  let ?r = "\<lparr>rq_method = ''GET'', rq_path = [], rq_query = [(''region'', [''eu''])], rq_header = (\<lambda>_. []), rq_body = []\<rparr>"
  let ?n = "ex_node [\<lparr>r_kind = KindRunner, r_key = ''r'', r_owner = [], r_hlc = HLC 1 0, r_tombstone = False, r_payload = ''x''\<rparr>]"
  have k: "known_runners (hl_codec ?L) (nd_store ?n) = [ex_runner]"
    using j norm by (simp add: known_runners_def live_rows_def ex_node_def empty_disk_def List.map_filter_simps decode_runner_def
        Decode_def ex_lib_def one_codec_def merged_def row_pk_def)
  have h: "healthy (nd_store ?n)" "load_ok ex_runner" "unit_ok (Fin 0)"
    by (simp_all add: ex_node_def empty_disk_def healthy_def load_ok_def unit_ok_def ex_runner_def runner_zero_def in64_def min64_def max64_def)
  have e: "eligible [] ex_runner" "\<not> in_region ''eu'' ex_runner" "q_all ?r ''label'' = []" "q_get ?r ''region'' = ''eu''"
    by (simp_all add: eligible_def in_region_def ex_runner_def runner_zero_def q_all_def q_get_def gm_get_def)
  obtain resp n' ps where "handleBestRunner ?L (\<lambda>_. Fin 0) 1 ?r ?n = (Inr resp, n')" "resp = writeJSON ?L 200 (slice_json scored_json ps)"
    "mset (map sr_Runner ps) = mset [ex_runner]"
    "\<forall>x \<in> set ps. \<exists>i :: nat. sr_Score x = f64_sub (scoreRunner (Fin 0) (sr_Runner x)) (Fin 1000)"
    using placement_exact [OF h(1) sort_by_ok, of "\<lambda>_. Fin 0" j 1 ?r] h(2,3) by (auto simp: k e Let_def)
  moreover from this(3) obtain p where "ps = [p]" "sr_Runner p = ex_runner"
    by (cases ps) auto
  ultimately show ?thesis by fastforce
qed


section \<open>Labels\<close>

lemma orError_Inr [db_simps]: "m n = (Inr x, n') \<Longrightarrow> orError L m f n = f x n'"
  by (simp add: orError_def tryE_def)

lemma on_store_Get [db_simps]:
  "healthy (nd_store n) \<Longrightarrow> on_store (Get k key) n = (Inr (select_row k key (st_rows (nd_store n))), n)"
  by (simp add: on_store_def Get_healthy)

definition own_labels :: "runner \<Rightarrow> string gomap" where
  "own_labels rn = (case Labels rn of None \<Rightarrow> [] | Some m \<Rightarrow> m)"

text \<open>The labels in a \<^verbatim>\<open>meta\<close> row that the codec can read; none without a live row.\<close>

definition meta_labels :: "codec \<Rightarrow> row option \<Rightarrow> string gomap \<Rightarrow> bool" where
  "meta_labels C res m =
     (if live res then unmarshal C (r_payload (the res)) = Inr (str_map_json (Some m)) \<and> gm_wf m else m = [])"

lemma gm_put_all_Nil [simp]: "gm_put_all [] m = m"
  by (simp add: gm_put_all_def)

lemma handleGetLabels_healthy:
  assumes "healthy (nd_store n)" "select_row KindRunner rid (st_rows (nd_store n)) = Some row" "\<not> r_tombstone row"
    and "Decode (hl_codec L) (r_payload row) = Inr rn" "gm_wf (own_labels rn)"
    and "meta_labels (hl_codec L) (select_row KindMeta rid (st_rows (nd_store n))) m"
  shows "handleGetLabels L rid n = (Inr (writeJSON L 200 (Inr (str_map_json (Some (gm_put_all m (own_labels rn)))))), n)"
proof -
  have own: "gm_put_all (case Labels rn of None \<Rightarrow> [] | Some m \<Rightarrow> m) [] = own_labels rn"
    using assms(5) by (simp add: own_labels_def [symmetric] gm_put_all_empty)
  show ?thesis
    using assms by (auto simp: handleGetLabels_def orError_Inr on_store_Get live_def [of "Some row"] own meta_labels_def
        unmarshal_str_map_def json_str_map_inverse Let_def ret_def split: if_splits)
qed


lemma handleUpdateLabels_healthy:
  assumes "healthy (nd_store n)" "select_row KindRunner rid (st_rows (nd_store n)) = Some row" "\<not> r_tombstone row"
    and "hl_first L (rq_body r) = Inr (str_map_json (Some inc))" "gm_wf inc"
    and "meta_labels (hl_codec L) (select_row KindMeta rid (st_rows (nd_store n))) old"
    and "marshal (hl_codec L) (str_map_json (Some (gm_put_all inc old))) = Inr p" "tick now (nd_clock n) = (h, c)"
  shows "handleUpdateLabels L s now rid r n =
    (Inr (writeJSON L 200 (Inr (str_map_json (Some (gm_put_all inc old))))),
     n\<lparr>nd_clock := c, nd_store := (nd_store n)\<lparr>st_rows := upsert_row (meta_row s rid h p) (st_rows (nd_store n))\<rparr>\<rparr>)"
proof -
  let ?meta = "select_row KindMeta rid (st_rows (nd_store n))"
  have ex: "existing_labels (hl_codec L) ?meta = Some old"
    using assms(6) by (auto simp: existing_labels_def meta_labels_def unmarshal_str_map_def json_str_map_add gm_put_all_empty)
  have as: "assign_all (Some inc) (Some old) = Inr (Some (gm_put_all inc old))"
    by (simp add: assign_all_def)
  have put: "orError L (on_store (Put (meta_row s rid h p))) f (n\<lparr>nd_clock := c\<rparr>) =
      f () (n\<lparr>nd_clock := c, nd_store := (nd_store n)\<lparr>st_rows := upsert_row (meta_row s rid h p) (st_rows (nd_store n))\<rparr>\<rparr>)" for f
    using assms(1) by (simp add: orError_def tryE_def on_store_def Put_healthy)
  show ?thesis
    using assms(1-5,7,8)
    by (simp add: handleUpdateLabels_def merge_labels_def put_labels_def orError_Inr on_store_Get live_def [of "Some row"] json_str_map_inverse Let_def ex as
        bindE_def clock_tick_def put ret_def)
qed

text \<open>
  C25. Labels read back. Setting labels through the API on a live runner answers with the labels
  set so far, the new ones on top, and a following read shows them on top of the runner's own
  labels, later ones winning key by key; deleting them answers 204, after which a read shows the
  runner's own labels alone. This holds on a database that does not fail, for a codec that reads
  back the label map it wrote.
\<close>
theorem labels_roundtrip:
  fixes old inc :: "string gomap"
  defines "new \<equiv> gm_put_all inc old"
  assumes "healthy (nd_store n)" "select_row KindRunner rid (st_rows (nd_store n)) = Some row" "\<not> r_tombstone row"
    and "Decode (hl_codec L) (r_payload row) = Inr rn" "gm_wf (own_labels rn)"
    and "hl_first L (rq_body r) = Inr (str_map_json (Some inc))" "gm_wf inc"
    and "meta_labels (hl_codec L) (select_row KindMeta rid (st_rows (nd_store n))) old"
    and "marshal (hl_codec L) (str_map_json (Some new)) = Inr p" "unmarshal (hl_codec L) p = Inr (str_map_json (Some new))"
  shows "\<exists>n1 n2. handleUpdateLabels L s now rid r n = (Inr (writeJSON L 200 (Inr (str_map_json (Some new)))), n1) \<and>
    handleGetLabels L rid n1 = (Inr (writeJSON L 200 (Inr (str_map_json (Some (gm_put_all new (own_labels rn)))))), n1) \<and>
    (\<forall>k. gm_get (gm_put_all new (own_labels rn)) k =
      (case gm_get inc k of Some v \<Rightarrow> Some v | None \<Rightarrow> (case gm_get old k of Some v \<Rightarrow> Some v | None \<Rightarrow> gm_get (own_labels rn) k))) \<and>
    handleDeleteLabels L s now' rid n1 = (Inr \<lparr>rs_status = 204, rs_body = []\<rparr>, n2) \<and>
    handleGetLabels L rid n2 = (Inr (writeJSON L 200 (Inr (str_map_json (Some (own_labels rn))))), n2)"
proof -
  obtain h c where t: "tick now (nd_clock n) = (h, c)" by (cases "tick now (nd_clock n)")
  let ?s1 = "(nd_store n)\<lparr>st_rows := upsert_row (meta_row s rid h p) (st_rows (nd_store n))\<rparr>"
  let ?n1 = "n\<lparr>nd_clock := c, nd_store := ?s1\<rparr>"
  have wf: "gm_wf old" using assms(9) by (auto simp: meta_labels_def split: if_splits)
  then have wfn: "gm_wf new" by (auto simp: new_def)
  have up: "handleUpdateLabels L s now rid r n = (Inr (writeJSON L 200 (Inr (str_map_json (Some new)))), ?n1)"
    using handleUpdateLabels_healthy [OF assms(2-4) assms(7-9) _ t, of p s] assms(10) by (simp add: new_def)
  have r1: "select_row KindRunner rid (st_rows ?s1) = Some row" "select_row KindMeta rid (st_rows ?s1) = Some (meta_row s rid h p)"
    using assms(3) by (simp_all add: tbl_select_upsert meta_row_def row_pk_def)
  have get1: "handleGetLabels L rid ?n1 = (Inr (writeJSON L 200 (Inr (str_map_json (Some (gm_put_all new (own_labels rn)))))), ?n1)"
    using assms(2,4-6,11) wfn r1 by (intro handleGetLabels_healthy) (simp_all add: meta_labels_def live_def meta_row_def)
  obtain h2 c2 where t2: "tick now' c = (h2, c2)" by (cases "tick now' c")
  let ?d = "deleted_row KindMeta rid (''api/'' @ sv_nodeID s) h2 (st_rows ?s1)"
  let ?n2 = "n\<lparr>nd_clock := c2, nd_store := ?s1\<lparr>st_rows := upsert_row ?d (st_rows ?s1)\<rparr>\<rparr>"
  have del: "handleDeleteLabels L s now' rid ?n1 = (Inr \<lparr>rs_status = 204, rs_body = []\<rparr>, ?n2)"
    using assms(2) by (simp add: handleDeleteLabels_def bindE_def clock_tick_def t2 orError_def tryE_def on_store_def Delete_healthy ret_def)
  have "handleGetLabels L rid ?n2 = (Inr (writeJSON L 200 (Inr (str_map_json (Some (gm_put_all [] (own_labels rn)))))), ?n2)"
    using assms(2,4-6) r1 by (intro handleGetLabels_healthy)
      (simp_all add: meta_labels_def live_def tbl_select_upsert deleted_row_def row_pk_def)
  moreover have "gm_get (gm_put_all new (own_labels rn)) k =
      (case gm_get inc k of Some v \<Rightarrow> Some v | None \<Rightarrow> (case gm_get old k of Some v \<Rightarrow> Some v | None \<Rightarrow> gm_get (own_labels rn) k))" for k
    using gm_get_put_all [OF gm_wf_distinct [OF wfn], of "own_labels rn" k] gm_get_put_all [OF gm_wf_distinct [OF assms(8)], of old k]
    by (auto simp: new_def split: option.splits)
  ultimately show ?thesis using up get1 del by fastforce
qed


definition ex_label_lib :: http_lib where
  "ex_label_lib = (ex_lib JNull)\<lparr>
     hl_codec := \<lparr>marshal = (\<lambda>_. Inr ''y''),
       unmarshal = (\<lambda>t. if t = ''n'' then Inr JNull else Inr (str_map_json (Some [(''k'', ''v'')])))\<rparr>,
     hl_first := (\<lambda>_. Inr (str_map_json (Some [(''k'', ''v'')])))\<rparr>"

definition ex_server :: server where
  "ex_server = \<lparr>sv_nodeID = ''a'', sv_adminToken = [], sv_enablePprof = False\<rparr>"

definition ex_request :: "string \<Rightarrow> string list \<Rightarrow> request" where
  "ex_request m p = \<lparr>rq_method = m, rq_path = p, rq_query = [], rq_header = (\<lambda>_. []), rq_body = []\<rparr>"

theorem labels_roundtrip_witness:
  "\<exists>n1 n2. handleUpdateLabels ex_label_lib ex_server 1 ''r'' (ex_request ''PUT'' [])
       (ex_node [(ex_row ''r'' ''a/x'' 1)\<lparr>r_payload := ''n''\<rparr>])
     = (Inr (writeJSON ex_label_lib 200 (Inr (str_map_json (Some [(''k'', ''v'')])))), n1) \<and>
     handleGetLabels ex_label_lib ''r'' n1 = (Inr (writeJSON ex_label_lib 200 (Inr (str_map_json (Some [(''k'', ''v'')])))), n1) \<and>
     handleDeleteLabels ex_label_lib ex_server 2 ''r'' n1 = (Inr \<lparr>rs_status = 204, rs_body = []\<rparr>, n2) \<and>
     handleGetLabels ex_label_lib ''r'' n2 = (Inr (writeJSON ex_label_lib 200 (Inr (str_map_json (Some [])))), n2)"
proof -
  let ?row = "(ex_row ''r'' ''a/x'' 1)\<lparr>r_payload := ''n''\<rparr>"
  have "healthy (nd_store (ex_node [?row]))" "select_row KindRunner ''r'' (st_rows (nd_store (ex_node [?row]))) = Some ?row"
    "\<not> r_tombstone ?row" "Decode (hl_codec ex_label_lib) (r_payload ?row) = Inr runner_zero" "gm_wf (own_labels runner_zero)"
    "hl_first ex_label_lib (rq_body (ex_request ''PUT'' [])) = Inr (str_map_json (Some [(''k'', ''v'')]))"
    "gm_wf [(''k'', ''v'')]"
    "meta_labels (hl_codec ex_label_lib) (select_row KindMeta ''r'' (st_rows (nd_store (ex_node [?row])))) []"
    by (simp_all add: ex_node_def empty_disk_def healthy_def row_pk_def Decode_def ex_label_lib_def json_runner_def own_labels_def
        runner_zero_def meta_labels_def live_def ex_row_def)
  note put = labels_roundtrip [OF this, of "''y''" ex_server 1 2]
  have "marshal (hl_codec ex_label_lib) j = Inr ''y''"
    "unmarshal (hl_codec ex_label_lib) ''y'' = Inr (str_map_json (Some [(''k'', ''v'')]))" for j
    by (simp_all add: ex_label_lib_def)
  then show ?thesis
    using put by (auto simp: own_labels_def runner_zero_def gm_put_all_def)
qed

section \<open>Requests are answered and counted\<close>

definition quiet :: "'a node_op \<Rightarrow> bool" where
  "quiet m \<longleftrightarrow> (\<forall>n. HTTPRequests (nd_metrics (snd (m n))) = HTTPRequests (nd_metrics n))"

definition total :: "'a node_op \<Rightarrow> bool" where
  "total m \<longleftrightarrow> quiet m \<and> (\<forall>n. \<exists>x. fst (m n) = Inr x)"

lemma quiet_on_store [simp]: "quiet (on_store m)"
  by (auto simp: quiet_def on_store_def split: prod.splits)

lemma quiet_clock_tick [simp]: "quiet (clock_tick now)"
  by (auto simp: quiet_def clock_tick_def Let_def split: prod.splits)

lemma total_ret [simp]: "total (ret x)"
  by (simp add: total_def quiet_def ret_def)

lemma total_tick [simp]: "total (clock_tick now)"
  by (auto simp: total_def clock_tick_def Let_def split: prod.splits)

lemma total_on_metrics: "(\<And>m. HTTPRequests (f m) = HTTPRequests m) \<Longrightarrow> total (on_metrics f)"
  by (simp add: total_def quiet_def on_metrics_def)

lemma total_tryE: "quiet m \<Longrightarrow> (\<And>e. total (h e)) \<Longrightarrow> (\<And>x. total (f x)) \<Longrightarrow> total (tryE m h f)"
  unfolding total_def quiet_def tryE_def by (auto split: prod.splits sum.splits) (metis fst_conv snd_conv)+

lemma total_orError: "quiet m \<Longrightarrow> (\<And>x. total (f x)) \<Longrightarrow> total (orError L m f)"
  by (simp add: orError_def total_tryE)

lemma total_bindE: "total m \<Longrightarrow> (\<And>x. total (f x)) \<Longrightarrow> total (bindE m f)"
  unfolding total_def quiet_def bindE_def
  by (auto split: prod.splits sum.splits) (metis fst_conv snd_conv sum.distinct(1))+

lemma mergeMetaLabelsOne_total: "\<exists>x. fst (mergeMetaLabelsOne C r s) = Inr x"
  by (auto simp: mergeMetaLabelsOne_def tryE_def ret_def split: prod.splits sum.splits option.splits)

lemma mergeMetaLabels_total: "\<exists>x. fst (mergeMetaLabels C rs s) = Inr x"
proof (induction rs arbitrary: s)
  case (Cons r rs)
  then show ?case
    using mergeMetaLabelsOne_total [of C r s] by (auto simp: bindE_def ret_def split: prod.splits sum.splits) (metis fst_conv sum.distinct(1))
qed (simp add: ret_def)

lemma total_merge [simp]: "total (on_store (mergeMetaLabels C rs))" "total (on_store (mergeMetaLabelsOne C r))"
  using mergeMetaLabels_total [of C rs] mergeMetaLabelsOne_total [of C r]
  by (auto simp: total_def on_store_def [of "mergeMetaLabels C rs"] on_store_def [of "mergeMetaLabelsOne C r"] split: prod.splits)
     (metis fst_conv)+


lemmas total_rules = total_orError total_bindE total_tryE total_ret total_tick total_merge quiet_on_store

lemma handlers_total:
  "total (handleHealth L s)" "total (handleRunners L r)" "total (handleRunner L rid)" "total (handleGetLabels L rid)"
  "total (handleDeleteLabels L s now rid)" "total (handleEvents L r)" "total (handleSummary L s)" "total (handleCluster L)"
proof -
  show "total (handleHealth L s)" by (simp add: handleHealth_def)
  show "total (handleRunners L r)"
    by (cases "parsePagination r") (auto simp: handleRunners_def Let_def intro!: total_rules)
  show "total (handleRunner L rid)"
    unfolding handleRunner_def by (intro total_orError quiet_on_store) (auto split: sum.splits intro!: total_rules)
  show "total (handleGetLabels L rid)"
    unfolding handleGetLabels_def Let_def by (intro total_orError quiet_on_store) (auto intro!: total_rules)
  show "total (handleDeleteLabels L s now rid)"
    unfolding handleDeleteLabels_def by (intro total_rules)
  show "total (handleEvents L r)"
    unfolding handleEvents_def Let_def by (intro total_orError quiet_on_store) auto
  show "total (handleSummary L s)"
    unfolding handleSummary_def by (intro total_rules)
  show "total (handleCluster L)"
    unfolding handleCluster_def by (intro total_rules)
qed

lemma handleMetrics_total: "total (handleMetrics L)"
proof -
  have "total (tryE (on_store (listRunners (hl_codec L) (-1) 0))
        (\<lambda>_. ret \<lparr>rs_status = 200, rs_body = head @ line ''takl_metrics_store_error 1''\<rparr>)
        (\<lambda>runners. ret \<lparr>rs_status = 200, rs_body = head @ runners_page runners\<rparr>))" for head
    by (intro total_rules)
  then show ?thesis by (simp add: total_def quiet_def handleMetrics_def Let_def)
qed

lemma handleBestRunner_total: "total (handleBestRunner L u elapsed r)"
  unfolding handleBestRunner_def best_body_def
  by (intro total_rules total_on_metrics) (auto split: option.splits intro!: total_rules total_on_metrics)

definition null_labels :: "http_lib \<Rightarrow> string \<Rightarrow> node \<Rightarrow> bool" where
  "null_labels L rid n \<longleftrightarrow> (\<exists>row. select_row KindMeta rid (st_rows (nd_store n)) = Some row \<and> \<not> r_tombstone row \<and>
     unmarshal (hl_codec L) (r_payload row) = Inr JNull)"

lemma Get_on_store:
  "on_store (Get k key) n = (Inr x, n') \<Longrightarrow> x = select_row k key (st_rows (nd_store n)) \<and> same_tables (nd_store n) (nd_store n') \<and> nd_metrics n' = nd_metrics n"
  by (auto simp: on_store_Inr Get_def store_get_def tryE_Inr ret_def throw_def split: if_splits
      dest!: query_row_Inr query_row_ErrNoRows)

lemma assign_all_Inl: "assign_all inc ex = Inl e \<Longrightarrow> ex = None"
  by (auto simp: assign_all_def split: option.splits if_splits)

lemma unmarshal_null: "fst (unmarshal_str_map C b (Some m)) = None \<Longrightarrow> unmarshal C b = Inr JNull"
  by (auto simp: unmarshal_str_map_def json_str_map_def split: sum.splits json.splits prod.splits)

lemma orError_Inl: "orError L m f n = (Inl e, n') \<Longrightarrow> \<exists>x n1. m n = (Inr x, n1) \<and> f x n1 = (Inl e, n')"
  by (auto simp: orError_def tryE_def ret_def split: prod.splits sum.splits)

lemma total_Inl: "total m \<Longrightarrow> m n \<noteq> (Inl e, n')"
  by (metis Inl_Inr_False fst_conv total_def)

lemma put_labels_total: "total (put_labels L s now rid existing)"
  unfolding put_labels_def Let_def by (intro total_rules)

lemma merge_labels_panics:
  assumes "merge_labels L s now rid incoming n = (Inl e, n')"
  shows "null_labels L rid n"
proof -
  obtain meta n1 where m: "on_store (Get KindMeta rid) n = (Inr meta, n1)"
    and a: "(case assign_all incoming (existing_labels (hl_codec L) meta) of
         Inl p \<Rightarrow> throw p | Inr existing \<Rightarrow> put_labels L s now rid existing) n1 = (Inl e, n')"
    using orError_Inl [OF assms [unfolded merge_labels_def]] by blast
  then have "existing_labels (hl_codec L) meta = None"
    using total_Inl [OF put_labels_total] by (auto split: sum.splits dest: assign_all_Inl)
  then show ?thesis
    using Get_on_store [OF m] unmarshal_null
    by (fastforce simp: existing_labels_def null_labels_def live_def split: option.splits if_splits)
qed

lemma handleUpdateLabels_panics:
  assumes "handleUpdateLabels L s now rid r n = (Inl e, n')"
  shows "null_labels L rid n"
proof -
  obtain x n1 where g: "on_store (Get KindRunner rid) n = (Inr x, n1)"
    and rest: "(if \<not> live x then ret (not_found L)
       else (case (case hl_first L (rq_body r) of Inl e \<Rightarrow> (None, Some e) | Inr j \<Rightarrow> json_str_map j None) of
           (_, Some _) \<Rightarrow> ret (writeJSON L 400 (error_json (''invalid json: expected {'' @ quoted ''key'' @ '': '' @ quoted ''value'' @ '', ...}'')))
         | (incoming, None) \<Rightarrow> merge_labels L s now rid incoming)) n1 = (Inl e, n')"
    using orError_Inl [OF assms [unfolded handleUpdateLabels_def]] by blast
  then have "\<exists>incoming. merge_labels L s now rid incoming n1 = (Inl e, n')"
    by (auto simp: ret_def split: if_splits prod.splits option.splits)
  then have "null_labels L rid n1" using merge_labels_panics by blast
  then show ?thesis using Get_on_store [OF g] by (simp add: null_labels_def same_tables_def)
qed


lemma total_quiet: "total m \<Longrightarrow> quiet m"
  by (simp add: total_def)

lemma quiet_throw [simp]: "quiet (throw e)"
  by (simp add: quiet_def throw_def)

lemma quiet_orError: "quiet m \<Longrightarrow> (\<And>x. quiet (f x)) \<Longrightarrow> quiet (orError L m f)"
  unfolding quiet_def orError_def tryE_def by (auto simp: ret_def split: prod.splits sum.splits) (metis snd_conv)+

lemma handleUpdateLabels_quiet: "quiet (handleUpdateLabels L s now rid r)"
proof -
  have "quiet (merge_labels L s now rid incoming)" for incoming
    unfolding merge_labels_def
    by (intro quiet_orError quiet_on_store) (auto split: sum.splits intro: total_quiet put_labels_total)
  then show ?thesis
    unfolding handleUpdateLabels_def
    by (intro quiet_orError quiet_on_store) (auto split: prod.splits option.splits intro: total_quiet total_ret)
qed

definition labels_path :: "string \<Rightarrow> string list" where
  "labels_path rid = [''api'', ''v1'', ''runners'', rid, ''labels'']"

lemma api_route_total:
  "api_route L s rd r = Some (Some h) \<Longrightarrow>
     total h \<or> (\<exists>rid. rq_method r = ''PUT'' \<and> rq_path r = labels_path rid \<and> h = handleUpdateLabels L s (rd_now rd) rid r)"
  using handlers_total handleMetrics_total handleBestRunner_total
  by (auto simp: api_route_def Let_def labels_path_def split: list.splits if_splits)

lemma mux_total:
  "total (mux L s rd r) \<or>
   (\<exists>rid. rq_method r = ''PUT'' \<and> rq_path r = labels_path rid \<and> mux L s rd r = handleUpdateLabels L s (rd_now rd) rid r)"
proof (cases "if sv_enablePprof s then pprof_route r else None")
  case (Some b)
  then show ?thesis by (auto simp: mux_def adminOnly_def intro!: total_ret split: bool.splits)
next
  case None
  then show ?thesis
    using api_route_total [of L s rd r] by (auto simp: mux_def intro!: total_ret split: option.splits)
qed

text \<open>
  C17. Every request is answered and counted. Whatever the request and wherever the database
  fails, the server answers, and exactly the counter of the status it answers with goes up by
  one. The only exception is a \<^verbatim>\<open>PUT\<close> of labels for a runner whose stored label row is the JSON
  value null: the handler then assigns to a nil map, panics, and the request is not counted.
\<close>
theorem requests_counted:
  assumes "Handler L s rd r n = (res, n')"
  shows "case res of
      Inr resp \<Rightarrow> \<forall>q. status_load (HTTPRequests (nd_metrics n')) q =
        status_load (HTTPRequests (nd_metrics n)) q + (if q = rs_status resp then 1 else 0)
    | Inl e \<Rightarrow> rq_method r = ''PUT'' \<and> (\<exists>rid. rq_path r = labels_path rid \<and> null_labels L rid n)"
proof -
  have q: "quiet (mux L s rd r)"
    using mux_total [of L s rd r] total_quiet handleUpdateLabels_quiet by metis
  obtain res1 n1 where m: "mux L s rd r n = (res1, n1)" by fastforce
  then have h: "HTTPRequests (nd_metrics n1) = HTTPRequests (nd_metrics n)" using q by (metis quiet_def snd_conv)
  show ?thesis
  proof (cases res1)
    case (Inl e)
    then have "\<not> total (mux L s rd r)" using m total_Inl by metis
    then obtain rid where "rq_method r = ''PUT''" "rq_path r = labels_path rid" "handleUpdateLabels L s (rd_now rd) rid r n = (Inl e, n1)"
      using mux_total [of L s rd r] m Inl by metis
    then show ?thesis
      using assms m Inl handleUpdateLabels_panics [of L s "rd_now rd" rid r n e n1]
      by (auto simp: Handler_def observeHTTP_def bindE_def)
  next
    case (Inr resp)
    then show ?thesis
      using assms m h by (auto simp: Handler_def observeHTTP_def bindE_def Let_def on_metrics_def ret_def status_load_inc split: if_splits)
  qed
qed

theorem requests_counted_witness:
  "\<exists>resp n'. Handler (ex_lib JNull) ex_server \<lparr>rd_now = 1, rd_elapsed = 1, rd_rand = (\<lambda>_. Fin 0)\<rparr> (ex_request ''GET'' [''nowhere'']) (ex_node [])
      = (Inr resp, n') \<and> rs_status resp = 404 \<and> status_load (HTTPRequests (nd_metrics n')) 404 = 1"
proof -
  let ?h = "Handler (ex_lib JNull) ex_server \<lparr>rd_now = 1, rd_elapsed = 1, rd_rand = (\<lambda>_. Fin 0)\<rparr> (ex_request ''GET'' [''nowhere'']) (ex_node [])"
  obtain resp n' where r: "?h = (Inr resp, n')" "rs_status resp = 404"
    by (simp add: Handler_def observeHTTP_def mux_def api_route_def ex_request_def ex_server_def bindE_def ret_def on_metrics_def
        text_response_def Let_def)
  then show ?thesis
    using requests_counted [OF r(1)] by (auto simp: ex_node_def metrics_zero_def status_load_def)
qed

end
