(* ===== verification/Net_Lib.thy ===== *)
theory Net_Lib
  imports Text_Lib
begin

text \<open>
  What the program uses of Go's package \<^verbatim>\<open>net\<close>: splitting and joining host and port, and IP
  addresses, which are lists of sixteen bytes (a version 4 address in its mapped form).
\<close>

section \<open>Host and port\<close>

definition last_colon :: "string \<Rightarrow> (string \<times> string) option" where
  "last_colon s =
     (if CHR '':'' \<notin> set s then None
      else Some (rev (drop 1 (dropWhile (\<lambda>c. c \<noteq> CHR '':'') (rev s))), rev (takeWhile (\<lambda>c. c \<noteq> CHR '':'') (rev s))))"

definition SplitHostPort :: "string \<Rightarrow> (string \<times> string) option" where
  "SplitHostPort hostport =
     (case last_colon hostport of
        None \<Rightarrow> None
      | Some (before, port) \<Rightarrow>
          if take 1 hostport = ''['' then
            if CHR '']'' \<notin> set hostport then None
            else
              let host = takeWhile (\<lambda>c. c \<noteq> CHR '']'') (drop 1 hostport) in
              if before \<noteq> ''['' @ host @ '']'' then None
              else if CHR ''['' \<in> set (drop 1 hostport) then None
              else if CHR '']'' \<in> set port then None
              else Some (host, port)
          else if CHR '':'' \<in> set before then None
          else if CHR ''['' \<in> set hostport then None
          else if CHR '']'' \<in> set hostport then None
          else Some (before, port))"

definition JoinHostPort :: "string \<Rightarrow> string \<Rightarrow> string" where
  "JoinHostPort host port =
     (if CHR '':'' \<in> set host then ''['' @ host @ '']:'' @ port else host @ '':'' @ port)"

lemma last_colon_append:
  assumes "CHR '':'' \<notin> set p"
  shows "last_colon (h @ '':'' @ p) = Some (h, p)"
proof -
  have "takeWhile (\<lambda>c. c \<noteq> CHR '':'') (rev p @ CHR '':'' # rev h) = rev p"
    using assms by (subst takeWhile_append2) auto
  moreover have "dropWhile (\<lambda>c. c \<noteq> CHR '':'') (rev p @ CHR '':'' # rev h) = CHR '':'' # rev h"
    using assms by (subst dropWhile_append2) auto
  ultimately show ?thesis by (simp add: last_colon_def)
qed

lemma SplitHostPort_Join:
  assumes "CHR ''['' \<notin> set h" "CHR '']'' \<notin> set h" "CHR ''['' \<notin> set p" "CHR '']'' \<notin> set p" "CHR '':'' \<notin> set p"
  shows "SplitHostPort (JoinHostPort h p) = Some (h, p)"
proof (cases "CHR '':'' \<in> set h")
  case True
  have l: "last_colon (''['' @ h @ '']:'' @ p) = Some (''['' @ h @ '']'', p)"
    using last_colon_append [OF assms(5), of "''['' @ h @ '']''"] by simp
  have t: "takeWhile (\<lambda>c. c \<noteq> CHR '']'') (h @ '']:'' @ p) = h"
    using assms(2) by (simp add: takeWhile_append)
  show ?thesis using True l t assms by (simp add: JoinHostPort_def SplitHostPort_def)
next
  case False
  have "take 1 (h @ '':'' @ p) \<noteq> ''[''" using assms(1) by (cases h) auto
  then show ?thesis using False last_colon_append [OF assms(5), of h] assms by (simp add: JoinHostPort_def SplitHostPort_def)
qed

section \<open>Addresses\<close>

type_synonym ip = "nat list"

definition v4_mapped :: "nat list \<Rightarrow> ip" where
  "v4_mapped b = replicate 10 0 @ [255, 255] @ b"

definition To4 :: "ip \<Rightarrow> nat list option" where
  "To4 x = (if length x = 16 \<and> take 12 x = v4_mapped [] then Some (drop 12 x) else None)"

definition IsLoopback :: "ip \<Rightarrow> bool" where
  "IsLoopback x = (case To4 x of Some b \<Rightarrow> hd b = 127 | None \<Rightarrow> x = replicate 15 0 @ [1])"

definition IsUnspecified :: "ip \<Rightarrow> bool" where
  "IsUnspecified x \<longleftrightarrow> x = v4_mapped [0, 0, 0, 0] \<or> x = replicate 16 0"

section \<open>Reading addresses\<close>

definition octet :: "string \<Rightarrow> nat option" where
  "octet s =
     (if s = [] \<or> (length s > 1 \<and> hd s = CHR ''0'') then None
      else (case digits_val s 0 of Some n \<Rightarrow> if n \<le> 255 then Some n else None | None \<Rightarrow> None))"

fun all_some :: "'a option list \<Rightarrow> 'a list option" where
  "all_some [] = Some []"
| "all_some (x # xs) = (case x of None \<Rightarrow> None | Some a \<Rightarrow> map_option (\<lambda>as. a # as) (all_some xs))"

definition parse_v4 :: "string \<Rightarrow> nat list option" where
  "parse_v4 s = (let ps = Split (CHR ''.'') s in if length ps = 4 then all_some (map octet ps) else None)"

definition hex_val :: "char \<Rightarrow> nat option" where
  "hex_val c = (case index_of c ''0123456789abcdef'' of Some n \<Rightarrow> Some n
                | None \<Rightarrow> (case index_of c ''ABCDEF'' of Some n \<Rightarrow> Some (n + 10) | None \<Rightarrow> None))"

definition hex_group :: "string \<Rightarrow> nat" where
  "hex_group ds = fold (\<lambda>c acc. 16 * acc + the (hex_val c)) ds 0"

text \<open>
  The groups of a version 6 address from byte \<open>i\<close> on: \<open>out\<close> is what has been read, \<open>el\<close> the
  place of the double colon. The result is the bytes and that place.
\<close>

function v6_groups :: "nat list \<Rightarrow> nat option \<Rightarrow> string \<Rightarrow> (nat list \<times> nat option) option" where
  "v6_groups out el s =
     (if length out \<ge> 16 then (if s = [] then Some (out, el) else None)
      else
        let ds = takeWhile (\<lambda>c. hex_val c \<noteq> None) s; rest = dropWhile (\<lambda>c. hex_val c \<noteq> None) s in
        if ds = [] \<or> length ds > 4 then None
        else if take 1 rest = ''.'' then
          (if el = None \<and> length out \<noteq> 12 then None
           else if length out + 4 > 16 then None
           else (case parse_v4 s of None \<Rightarrow> None | Some b \<Rightarrow> Some (out @ b, el)))
        else
          let g = hex_group ds; out' = out @ [g div 256, g mod 256] in
          if rest = [] then Some (out', el)
          else if hd rest \<noteq> CHR '':'' then None
          else if length rest = 1 then None
          else if rest ! 1 = CHR '':'' then
            (if el \<noteq> None then None
             else if length rest = 2 then Some (out', Some (length out'))
             else v6_groups out' (Some (length out')) (drop 2 rest))
          else v6_groups out' el (drop 1 rest))"
  by pat_completeness auto
termination
  by (relation "measure (\<lambda>(out, el, s). 16 - length out)") (auto simp: less_diff_conv)

declare v6_groups.simps [simp del]

definition expand_v6 :: "nat list \<times> nat option \<Rightarrow> ip option" where
  "expand_v6 r =
     (case r of (out, el) \<Rightarrow>
        if length out < 16 then
          (case el of None \<Rightarrow> None | Some k \<Rightarrow> Some (take k out @ replicate (16 - length out) 0 @ drop k out))
        else if el \<noteq> None then None else Some out)"

definition parse_v6 :: "string \<Rightarrow> ip option" where
  "parse_v6 s =
     (if take 2 s = ''::'' then
        (if length s = 2 then Some (replicate 16 0)
         else (case v6_groups [] (Some 0) (drop 2 s) of None \<Rightarrow> None | Some r \<Rightarrow> expand_v6 r))
      else (case v6_groups [] None s of None \<Rightarrow> None | Some r \<Rightarrow> expand_v6 r))"

definition ParseIP :: "string \<Rightarrow> ip option" where
  "ParseIP s =
     (case find (\<lambda>c. c \<in> set ''.:%'') s of
        None \<Rightarrow> None
      | Some c \<Rightarrow>
          if c = CHR ''.'' then map_option v4_mapped (parse_v4 s)
          else if c = CHR '':'' then (if CHR ''%'' \<in> set s then None else parse_v6 s)
          else None)"

section \<open>Writing addresses\<close>

definition v4_String :: "nat list \<Rightarrow> string" where
  "v4_String b = dec_nat (b ! 0) @ ''.'' @ dec_nat (b ! 1) @ ''.'' @ dec_nat (b ! 2) @ ''.'' @ dec_nat (b ! 3)"

definition hex_digits :: string where
  "hex_digits = ''0123456789abcdef''"

fun hex_nat :: "nat \<Rightarrow> string" where
  "hex_nat n = (if n < 16 then [hex_digits ! n] else hex_nat (n div 16) @ [hex_digits ! (n mod 16)])"

declare hex_nat.simps [simp del]

definition v6_words :: "ip \<Rightarrow> nat list" where
  "v6_words x = map (\<lambda>i. x ! (2 * i) * 256 + x ! (2 * i + 1)) [0..<8]"

definition zero_run :: "nat list \<Rightarrow> nat \<Rightarrow> nat" where
  "zero_run ws i = length (takeWhile (\<lambda>w. w = 0) (drop i ws))"

text \<open>The first longest run of at least two zero words, as its start and length.\<close>

definition longest_zeros :: "nat list \<Rightarrow> nat \<times> nat" where
  "longest_zeros ws =
     fold (\<lambda>i best. if zero_run ws i \<ge> 2 \<and> zero_run ws i > snd best then (i, zero_run ws i) else best) [0..<8] (255, 0)"

function v6_text :: "nat list \<Rightarrow> nat \<times> nat \<Rightarrow> nat \<Rightarrow> string" where
  "v6_text ws z i =
     (if i \<ge> 8 then []
      else if i = fst z \<and> snd z > 0 then
        (let j = i + snd z in if j \<ge> 8 then ''::'' else ''::'' @ hex_nat (ws ! j) @ v6_text ws z (j + 1))
      else (if i > 0 then '':'' else []) @ hex_nat (ws ! i) @ v6_text ws z (i + 1))"
  by pat_completeness auto
termination
  by (relation "measure (\<lambda>(ws, z, i). 8 - i)") auto

declare v6_text.simps [simp del]

definition ip_String :: "ip \<Rightarrow> string" where
  "ip_String x =
     (case To4 x of
        Some b \<Rightarrow> v4_String b
      | None \<Rightarrow> (let ws = v6_words x in v6_text ws (longest_zeros ws) 0))"

section \<open>Version 4 addresses read back\<close>

lemma Split_append: "c \<notin> set x \<Longrightarrow> Split c (x @ c # y) = x # Split c y"
  by (induction x) auto

lemma Split_single: "c \<notin> set x \<Longrightarrow> Split c x = [x]"
  by (induction x) auto

lemma dec_nat_hd: "0 < n \<Longrightarrow> hd (dec_nat n) \<noteq> CHR ''0''"
proof (induction n rule: dec_nat.induct)
  case (1 n)
  show ?case
  proof (cases "n < 10")
    case True
    have "(of_char (digit n) :: nat) = 48 + n" using True by (simp add: digit_def)
    then have "digit n \<noteq> CHR ''0''" using 1(2) by auto
    then show ?thesis using True by (simp add: dec_nat.simps [of n])
  next
    case False
    then show ?thesis using 1(1) by (simp add: dec_nat.simps [of n])
  qed
qed

lemma octet_dec: "n \<le> 255 \<Longrightarrow> octet (dec_nat n) = Some n"
proof -
  assume n: "n \<le> 255"
  have "length (dec_nat 0) = 1" by (simp add: dec_nat.simps)
  then have "\<not> (length (dec_nat n) > 1 \<and> hd (dec_nat n) = CHR ''0'')"
    using dec_nat_hd [of n] by (cases "n = 0") auto
  then show ?thesis using n by (simp add: octet_def digits_val_dec)
qed

lemma dec_nat_digits: "c \<in> set (dec_nat n) \<Longrightarrow> 48 \<le> (of_char c :: nat) \<and> (of_char c :: nat) \<le> 57"
proof (induction n rule: dec_nat.induct)
  case (1 n)
  have "48 \<le> (of_char (digit k) :: nat) \<and> (of_char (digit k) :: nat) \<le> 57" if "k < 10" for k
    using that by (simp add: digit_def)
  from this [of n] this [of "n mod 10"] show ?case using 1 by (cases "n < 10") (auto simp: dec_nat.simps [of n])
qed

lemma find_first: "(\<And>x. x \<in> set xs \<Longrightarrow> \<not> P x) \<Longrightarrow> P y \<Longrightarrow> find P (xs @ y # r) = Some y"
  by (induction xs) auto

lemma ParseIP_v4:
  assumes "a \<le> 255" "b \<le> 255" "c \<le> 255" "d \<le> 255"
  shows "ParseIP (v4_String [a, b, c, d]) = Some (v4_mapped [a, b, c, d])"
proof -
  have dot: "x \<notin> set (dec_nat n)" if "x \<in> set ''.:%''" for x n
    using dec_nat_digits [of x n] that by auto
  have "find (\<lambda>c. c \<in> set ''.:%'') (v4_String [a, b, c, d]) = Some (CHR ''.'')"
    unfolding v4_String_def append_Cons append_Nil using dot by (intro find_first) auto
  moreover have "Split (CHR ''.'') (v4_String [a, b, c, d]) = [dec_nat a, dec_nat b, dec_nat c, dec_nat d]"
    using dot [of "CHR ''.''"] by (simp add: v4_String_def Split_append Split_single)
  then have "parse_v4 (v4_String [a, b, c, d]) = Some [a, b, c, d]"
    using assms by (simp add: parse_v4_def octet_dec)
  ultimately show ?thesis by (simp add: ParseIP_def)
qed


section \<open>Texts of addresses\<close>

definition ip_wf :: "ip \<Rightarrow> bool" where
  "ip_wf x \<longleftrightarrow> length x = 16 \<and> (\<forall>b \<in> set x. b \<le> 255)"

definition host_text :: "string \<Rightarrow> bool" where
  "host_text t \<longleftrightarrow> t \<notin> {[], ''0.0.0.0'', ''::''} \<and> CHR ''['' \<notin> set t \<and> CHR '']'' \<notin> set t"

lemma v4_host_text:
  assumes "length b = 4" "\<forall>x \<in> set b. x \<le> 255" "b \<noteq> [0, 0, 0, 0]"
  shows "host_text (v4_String b)"
proof -
  obtain w x y z where b: "b = [w, x, y, z]" using assms(1) by (auto simp: length_Suc_conv numeral_eq_Suc)
  have "v4_String [0, 0, 0, 0] = ''0.0.0.0''" by code_simp
  moreover have "v4_String b \<noteq> v4_String [0, 0, 0, 0]"
    using ParseIP_v4 [of w x y z] ParseIP_v4 [of 0 0 0 0] assms(2,3) b by (auto simp: v4_mapped_def)
  moreover have "CHR ''.'' \<in> set (v4_String b)" by (simp add: v4_String_def)
  moreover have "c \<notin> set (dec_nat n)" if "c = CHR ''['' \<or> c = CHR '']''" for c n
    using dec_nat_digits [of c n] that by auto
  then have "CHR ''['' \<notin> set (v4_String b)" "CHR '']'' \<notin> set (v4_String b)" by (simp_all add: v4_String_def)
  ultimately show ?thesis by (auto simp: host_text_def)
qed

lemma hex_nat_chars: "set (hex_nat n) \<subseteq> set hex_digits"
proof (induction n rule: hex_nat.induct)
  case (1 n)
  have "length hex_digits = 16" by (simp add: hex_digits_def)
  then have "hex_digits ! (n mod 16) \<in> set hex_digits" "n < 16 \<Longrightarrow> hex_digits ! n \<in> set hex_digits"
    by (simp_all add: nth_mem)
  then show ?case using 1 by (auto simp: hex_nat.simps [of n])
qed

lemma hex_nat_ne: "hex_nat n \<noteq> []"
  by (simp add: hex_nat.simps [of n])

lemma v6_text_chars: "set (v6_text ws z i) \<subseteq> insert (CHR '':'') (set hex_digits)"
proof (induction ws z i rule: v6_text.induct)
  case (1 ws z i)
  then show ?case
    by (subst v6_text.simps) (auto simp: Let_def split: if_splits dest: subsetD [OF hex_nat_chars])
qed

lemma longest_zeros_run: "snd (longest_zeros ws) > 0 \<Longrightarrow> snd (longest_zeros ws) = zero_run ws (fst (longest_zeros ws))"
proof -
  have "snd b > 0 \<longrightarrow> snd b = zero_run ws (fst b) \<Longrightarrow>
      (let b' = fold (\<lambda>i best. if zero_run ws i \<ge> 2 \<and> zero_run ws i > snd best then (i, zero_run ws i) else best) is b
       in snd b' > 0 \<longrightarrow> snd b' = zero_run ws (fst b'))" for "is" b
    by (induction "is" arbitrary: b) auto
  from this [of "(255, 0)" "[0..<8]"] show "snd (longest_zeros ws) > 0 \<Longrightarrow> snd (longest_zeros ws) = zero_run ws (fst (longest_zeros ws))"
    by (simp add: longest_zeros_def Let_def)
qed

lemma v6_text_digit:
  assumes "length ws = 8" "\<exists>w \<in> set ws. w \<noteq> 0"
  shows "\<exists>c \<in> set (v6_text ws (longest_zeros ws) 0). c \<in> set hex_digits"
proof -
  let ?z = "longest_zeros ws"
  have h: "\<exists>c \<in> set (hex_nat n). c \<in> set hex_digits" for n
    using hex_nat_chars [of n] hex_nat_ne [of n] by (cases "hex_nat n") auto
  show ?thesis
  proof (cases "0 = fst ?z \<and> snd ?z > 0")
    case True
    have "zero_run ws 0 < length ws"
      using assms(2) unfolding zero_run_def drop0 by (induction ws) auto
    then have "snd ?z < 8" using longest_zeros_run [of ws] True assms(1) by simp
    then show ?thesis using True h by (subst v6_text.simps) (auto simp: Let_def)
  next
    case False
    then show ?thesis using h by (subst v6_text.simps) auto
  qed
qed


lemma even_odd_nth:
  assumes "length x = 16" "\<forall>i < 8. x ! (2 * i) = 0 \<and> x ! (2 * i + 1) = (0 :: nat)"
  shows "x = replicate 16 0"
proof (rule nth_equalityI)
  fix i assume "i < length x"
  then have "i div 2 < 8" "i = 2 * (i div 2) \<or> i = 2 * (i div 2) + 1" using assms(1) by auto
  then have "x ! i = 0" using assms(2) by metis
  then show "x ! i = replicate 16 0 ! i" using \<open>i < length x\<close> assms(1) by simp
qed (simp add: assms(1))

lemma ip_host_text:
  assumes "ip_wf x" "\<not> IsUnspecified x"
  shows "host_text (ip_String x)"
proof (cases "To4 x")
  case (Some b)
  then have b: "take 12 x = v4_mapped []" "b = drop 12 x" by (auto simp: To4_def split: if_splits)
  then have "x = v4_mapped b" by (metis append_take_drop_id append.assoc append_Nil2 v4_mapped_def)
  moreover have "length b = 4" "\<forall>y \<in> set b. y \<le> 255" using assms(1) b(2) by (auto simp: ip_wf_def dest: in_set_dropD)
  ultimately show ?thesis
    using Some assms(2) by (auto simp: ip_String_def IsUnspecified_def intro!: v4_host_text)
next
  case None
  let ?ws = "v6_words x"
  have "\<exists>w \<in> set ?ws. w \<noteq> 0"
  proof (rule ccontr)
    assume "\<not> (\<exists>w \<in> set ?ws. w \<noteq> 0)"
    then have "\<forall>i < 8. x ! (2 * i) = 0 \<and> x ! (2 * i + 1) = 0" by (auto simp: v6_words_def)
    then have "x = replicate 16 0" using even_odd_nth assms(1) by (auto simp: ip_wf_def)
    then show False using assms(2) by (simp add: IsUnspecified_def)
  qed
  then obtain c where c: "c \<in> set (v6_text ?ws (longest_zeros ?ws) 0)" "c \<in> set hex_digits"
    using v6_text_digit [of ?ws] by (auto simp: v6_words_def)
  let ?t = "v6_text ?ws (longest_zeros ?ws) 0"
  have d: "CHR '':'' \<notin> set hex_digits" "CHR ''.'' \<notin> set hex_digits" "CHR ''['' \<notin> set hex_digits" "CHR '']'' \<notin> set hex_digits"
    by (simp_all add: hex_digits_def)
  then have n: "CHR ''.'' \<notin> set ?t" "CHR ''['' \<notin> set ?t" "CHR '']'' \<notin> set ?t"
    using v6_text_chars [of ?ws "longest_zeros ?ws" 0] by (auto dest: subsetD)
  have "?t \<noteq> ''::''" using c d(1) by auto
  moreover have "?t \<noteq> ''0.0.0.0''" using n(1) by auto
  ultimately show ?thesis
    using None c(1) n(2,3) by (auto simp: ip_String_def Let_def host_text_def)
qed


section \<open>Addresses that are read are well formed\<close>

lemma all_some_props: "all_some xs = Some ys \<Longrightarrow> length ys = length xs \<and> (\<forall>y \<in> set ys. Some y \<in> set xs)"
  by (induction xs arbitrary: ys) (auto split: option.splits)

lemma parse_v4_wf: "parse_v4 s = Some b \<Longrightarrow> length b = 4 \<and> (\<forall>x \<in> set b. x \<le> 255)"
proof -
  have o: "octet p = Some x \<Longrightarrow> x \<le> 255" for p x by (auto simp: octet_def split: if_splits option.splits)
  assume "parse_v4 s = Some b"
  then have "length (Split (CHR ''.'') s) = 4" "all_some (map octet (Split (CHR ''.'') s)) = Some b"
    by (auto simp: parse_v4_def Let_def split: if_splits)
  then show ?thesis using all_some_props [of "map octet (Split (CHR ''.'') s)" b] o by fastforce
qed

lemma hex_val_less: "hex_val c = Some n \<Longrightarrow> n < 16"
proof -
  have "index_of c xs = Some n \<Longrightarrow> n < length xs" for xs n by (induction xs arbitrary: n) (auto split: if_splits)
  from this [of "''0123456789abcdef''"] this [of "''ABCDEF''"]
  show "hex_val c = Some n \<Longrightarrow> n < 16" by (auto simp: hex_val_def split: option.splits)
qed

lemma hex_group_bound: "\<forall>c \<in> set ds. hex_val c \<noteq> None \<Longrightarrow> length ds \<le> 4 \<Longrightarrow> hex_group ds < 65536"
proof -
  have step: "\<forall>c \<in> set ds. hex_val c \<noteq> None \<Longrightarrow> fold (\<lambda>c acc. 16 * acc + the (hex_val c)) ds a < (a + 1) * 16 ^ length ds" for a
  proof (induction ds arbitrary: a)
    case (Cons c ds)
    obtain n where n: "hex_val c = Some n" "n < 16" using Cons.prems hex_val_less by fastforce
    have "fold (\<lambda>c acc. 16 * acc + the (hex_val c)) ds (16 * a + n) < (16 * a + n + 1) * 16 ^ length ds"
      using Cons by simp
    also have "\<dots> \<le> (16 * a + 16) * 16 ^ length ds" using n by (intro mult_right_mono) simp_all
    finally show ?case using n by (simp add: algebra_simps)
  qed simp
  assume ds: "\<forall>c \<in> set ds. hex_val c \<noteq> None" "length ds \<le> 4"
  have "hex_group ds < 16 ^ length ds" using step [OF ds(1), of 0] by (simp add: hex_group_def)
  also have "\<dots> \<le> (16 :: nat) ^ 4" using ds(2) by (intro power_increasing) simp_all
  finally show ?thesis by simp
qed

lemma v6_groups_wf:
  "v6_groups out el s = Some (o', e') \<Longrightarrow> even (length out) \<Longrightarrow> length out \<le> 16 \<Longrightarrow> \<forall>b \<in> set out. b \<le> 255 \<Longrightarrow>
     (\<forall>k. el = Some k \<longrightarrow> k \<le> length out) \<Longrightarrow>
     length o' \<le> 16 \<and> (\<forall>b \<in> set o'. b \<le> 255) \<and> (\<forall>k. e' = Some k \<longrightarrow> k \<le> length o')"
proof (induction "16 - length out" arbitrary: out el s rule: less_induct)
  case less
  let ?ds = "takeWhile (\<lambda>c. hex_val c \<noteq> None) s"
  let ?rest = "dropWhile (\<lambda>c. hex_val c \<noteq> None) s"
  let ?out = "out @ [hex_group ?ds div 256, hex_group ?ds mod 256]"
  have ds: "\<forall>c \<in> set ?ds. hex_val c \<noteq> None" by (auto dest: set_takeWhileD)
  have room: "length out < 16 \<Longrightarrow> length ?out \<le> 16" using less.prems(2) by (auto elim: evenE)
  have bytes: "length ?ds \<le> 4 \<Longrightarrow> \<forall>b \<in> set ?out. b \<le> 255"
    using hex_group_bound [OF ds] less.prems(4) by (auto simp: less_mult_imp_div_less)
  consider "o' = out" "e' = el" | b where "parse_v4 s = Some b" "o' = out @ b" "e' = el" "length out + 4 \<le> 16"
    | "length ?ds \<le> 4" "length out < 16" "o' = ?out" "e' = el \<or> e' = Some (length ?out)"
    | t el' where "length ?ds \<le> 4" "length out < 16" "el' = el \<or> el' = Some (length ?out)" "v6_groups ?out el' t = Some (o', e')"
    using less.prems(1) unfolding v6_groups.simps [of out el s] Let_def
    by (auto split: if_splits option.splits)
  then show ?case
  proof cases
    case 1
    then show ?thesis using less.prems by simp
  next
    case 2
    then show ?thesis using parse_v4_wf [OF 2(1)] less.prems by fastforce
  next
    case 3
    then show ?thesis using room bytes less.prems(5) by fastforce
  next
    case 4
    then show ?thesis using room bytes less.prems by (intro less.hyps [of ?out el' t]) fastforce+
  qed
qed

lemma ParseIP_wf: "ParseIP s = Some x \<Longrightarrow> ip_wf x"
proof -
  have v6: "ip_wf x" if "v6_groups [] el t = Some r" "expand_v6 r = Some x" "\<forall>k. el = Some k \<longrightarrow> k \<le> 0" for el t r x
    using v6_groups_wf [of "[]" el t "fst r" "snd r"] that
    by (auto simp: expand_v6_def ip_wf_def split: prod.splits if_splits option.splits)
       (meson in_set_takeD in_set_dropD)+
  assume "ParseIP s = Some x"
  then consider b where "parse_v4 s = Some b" "x = v4_mapped b" | "parse_v6 s = Some x"
    by (auto simp: ParseIP_def split: option.splits if_splits)
  then show ?thesis
  proof cases
    case 1
    then show ?thesis using parse_v4_wf [OF 1(1)] by (auto simp: ip_wf_def v4_mapped_def)
  next
    case 2
    then show ?thesis using v6 by (auto simp: parse_v6_def ip_wf_def split: if_splits option.splits)
  qed
qed

end
