(* ===== verification/X509_Lib.thy ===== *)
theory X509_Lib
  imports Net_Lib
begin

text \<open>
  What the program uses of Go's packages for files, certificates and TLS. Keys are numbers, a
  public key is the number of its private key, and a signature is the number of the key it was
  made with, so nobody forges one. A file is the list of its PEM blocks and its mode. Times are
  nanoseconds.
\<close>

section \<open>Paths\<close>

definition clean_elem :: "bool \<Rightarrow> string \<Rightarrow> string list \<Rightarrow> string list" where
  "clean_elem rooted e out =
     (if e = [] \<or> e = ''.'' then out
      else if e = ''..'' then
        (if out \<noteq> [] \<and> last out \<noteq> ''..'' then butlast out else if rooted then out else out @ [''..''])
      else out @ [e])"

fun join_with :: "char \<Rightarrow> string list \<Rightarrow> string" where
  "join_with c [] = []"
| "join_with c [x] = x"
| "join_with c (x # y # xs) = x @ c # join_with c (y # xs)"

definition Clean :: "string \<Rightarrow> string" where
  "Clean p =
     (let rooted = (take 1 p = ''/'');
          body = join_with (CHR ''/'') (fold (clean_elem rooted) (Split (CHR ''/'') p) []);
          q = (if rooted then CHR ''/'' # body else body)
      in if q = [] then ''.'' else q)"

text \<open>\<^verbatim>\<open>filepath.Join\<close> of a directory and a name that is not empty.\<close>

definition Join :: "string \<Rightarrow> string \<Rightarrow> string" where
  "Join dir name = Clean (if dir = [] then name else dir @ CHR ''/'' # name)"

section \<open>Certificates\<close>

record x_name =
  nm_CommonName :: string
  nm_Organization :: "string list"

datatype key_usage = CertSign | CRLSign | DigitalSignature | KeyEncipherment

datatype ext_usage = ServerAuth | ClientAuth

record template =
  ct_Serial :: int
  ct_Subject :: x_name
  ct_NotBefore :: int
  ct_NotAfter :: int
  ct_KeyUsage :: "key_usage list"
  ct_ExtKeyUsage :: "ext_usage list"
  ct_BasicConstraintsValid :: bool
  ct_IsCA :: bool
  ct_IPAddresses :: "ip list"
  ct_DNSNames :: "string list"

record x509 = template +
  ct_PublicKey :: nat
  ct_Issuer :: x_name
  ct_Signer :: nat

text \<open>Times are written in seconds.\<close>

definition cut_seconds :: "int \<Rightarrow> int" where
  "cut_seconds t = t div 1000000000 * 1000000000"

definition ascii_text :: "string \<Rightarrow> bool" where
  "ascii_text s = list_all (\<lambda>c. of_char c < (128 :: nat)) s"

text \<open>
  \<^verbatim>\<open>x509.CreateCertificate\<close>: \<open>parentKey\<close> is the public key of the parent, which a template does not
  have; \<open>enc\<close> says which names are UTF-8. The certificate is for the public key of \<open>key\<close>.
\<close>

definition CreateCertificate ::
  "(string \<Rightarrow> bool) \<Rightarrow> template \<Rightarrow> x_name \<Rightarrow> nat option \<Rightarrow> nat \<Rightarrow> nat \<Rightarrow> error + x509" where
  "CreateCertificate enc t parent parentKey key signer =
     (if ct_Serial t < 0 then Inl (ErrMsg ''x509: serial number must be positive'')
      else if \<not> enc (nm_CommonName (ct_Subject t)) \<or> \<not> list_all enc (nm_Organization (ct_Subject t)) then
        Inl (ErrMsg ''asn1: string not valid UTF-8'')
      else if \<not> list_all ascii_text (ct_DNSNames t) then Inl (ErrMsg ''x509: cannot be encoded as an IA5String'')
      else if parentKey \<noteq> None \<and> parentKey \<noteq> Some signer then
        Inl (ErrMsg ''x509: provided PrivateKey does not match parent's PublicKey'')
      else Inr \<lparr>ct_Serial = ct_Serial t, ct_Subject = ct_Subject t, ct_NotBefore = cut_seconds (ct_NotBefore t),
        ct_NotAfter = cut_seconds (ct_NotAfter t), ct_KeyUsage = ct_KeyUsage t, ct_ExtKeyUsage = ct_ExtKeyUsage t,
        ct_BasicConstraintsValid = ct_BasicConstraintsValid t, ct_IsCA = ct_IsCA t, ct_IPAddresses = ct_IPAddresses t,
        ct_DNSNames = ct_DNSNames t, ct_PublicKey = key, ct_Issuer = parent, ct_Signer = signer\<rparr>)"

section \<open>Files\<close>

datatype der = DCert x509 | DKey nat | DOther

type_synonym pem_block = "string \<times> der"

record pem_file =
  fl_blocks :: "pem_block list"
  fl_mode :: nat

type_synonym fsys = "string \<Rightarrow> pem_file option"

text \<open>A path that cannot be opened is refused by \<open>denied\<close>.\<close>

definition read_file :: "(string \<Rightarrow> error option) \<Rightarrow> fsys \<Rightarrow> string \<Rightarrow> error + pem_block list" where
  "read_file denied fs path =
     (case denied path of
        Some e \<Rightarrow> Inl e
      | None \<Rightarrow> (case fs path of None \<Rightarrow> Inl (ErrMsg ''no such file or directory'') | Some f \<Rightarrow> Inr (fl_blocks f)))"

definition pem_Decode :: "pem_block list \<Rightarrow> pem_block option" where
  "pem_Decode bs = (case bs of [] \<Rightarrow> None | b # _ \<Rightarrow> Some b)"

definition ParseCertificate :: "der \<Rightarrow> error + x509" where
  "ParseCertificate d = (case d of DCert c \<Rightarrow> Inr c | _ \<Rightarrow> Inl (ErrMsg ''x509: malformed certificate''))"

definition ParseECPrivateKey :: "der \<Rightarrow> error + nat" where
  "ParseECPrivateKey d = (case d of DKey k \<Rightarrow> Inr k | _ \<Rightarrow> Inl (ErrMsg ''x509: failed to parse EC private key''))"

definition key_block :: "pem_block \<Rightarrow> bool" where
  "key_block b \<longleftrightarrow> fst b = ''PRIVATE KEY'' \<or> starts_with (rev (fst b)) (rev '' PRIVATE KEY'')"

definition LoadX509KeyPair :: "(string \<Rightarrow> error option) \<Rightarrow> fsys \<Rightarrow> string \<Rightarrow> string \<Rightarrow> error + x509 \<times> nat" where
  "LoadX509KeyPair denied fs certFile keyFile =
     (case read_file denied fs certFile of
        Inl e \<Rightarrow> Inl e
      | Inr cbs \<Rightarrow>
          (case read_file denied fs keyFile of
             Inl e \<Rightarrow> Inl e
           | Inr kbs \<Rightarrow>
               (case (find (\<lambda>b. fst b = ''CERTIFICATE'') cbs, find key_block kbs) of
                  (Some cb, Some kb) \<Rightarrow>
                    (case ParseCertificate (snd cb) of
                       Inl e \<Rightarrow> Inl e
                     | Inr c \<Rightarrow>
                         (case ParseECPrivateKey (snd kb) of
                            Inl e \<Rightarrow> Inl e
                          | Inr k \<Rightarrow> if ct_PublicKey c = k then Inr (c, k)
                                    else Inl (ErrMsg ''tls: private key does not match public key'')))
                | _ \<Rightarrow> Inl (ErrMsg ''tls: failed to find PEM data''))))"

definition AppendCertsFromPEM :: "pem_block list \<Rightarrow> x509 list" where
  "AppendCertsFromPEM bs =
     concat (map (\<lambda>(t, d). if t = ''CERTIFICATE'' then (case d of DCert c \<Rightarrow> [c] | _ \<Rightarrow> []) else []) bs)"

section \<open>Verification\<close>

definition in_time :: "int \<Rightarrow> x509 \<Rightarrow> bool" where
  "in_time now c \<longleftrightarrow> ct_NotBefore c \<le> now \<and> now \<le> ct_NotAfter c"

definition CheckSignatureFrom :: "x509 \<Rightarrow> x509 \<Rightarrow> bool" where
  "CheckSignatureFrom c parent \<longleftrightarrow>
     ct_BasicConstraintsValid parent \<and> ct_IsCA parent \<and>
     (ct_KeyUsage parent = [] \<or> CertSign \<in> set (ct_KeyUsage parent)) \<and> ct_Signer c = ct_PublicKey parent"

definition eku_ok :: "ext_usage \<Rightarrow> x509 \<Rightarrow> bool" where
  "eku_ok u c \<longleftrightarrow> ct_ExtKeyUsage c = [] \<or> u \<in> set (ct_ExtKeyUsage c)"

text \<open>A chain is a certificate of the pool itself or one signed by such; no program here sends intermediates.\<close>

definition Verify :: "x509 list \<Rightarrow> int \<Rightarrow> ext_usage \<Rightarrow> x509 \<Rightarrow> bool" where
  "Verify pool now u c \<longleftrightarrow> in_time now c \<and> eku_ok u c \<and>
     (c \<in> set pool \<or>
      list_ex (\<lambda>p. ct_Subject p = ct_Issuer c \<and> CheckSignatureFrom c p \<and> in_time now p \<and> eku_ok u p) pool)"

definition valid_label :: "string \<Rightarrow> bool" where
  "valid_label p \<longleftrightarrow> p \<noteq> [] \<and> hd p \<noteq> CHR ''-'' \<and>
     list_all (\<lambda>c. c \<in> set ''abcdefghijklmnopqrstuvwxyzABCDEFGHIJKLMNOPQRSTUVWXYZ0123456789_-'') p"

definition valid_host :: "bool \<Rightarrow> string \<Rightarrow> bool" where
  "valid_host pat h =
     (let h = (if \<not> pat \<and> h \<noteq> [] \<and> last h = CHR ''.'' then butlast h else h);
          ps = Split (CHR ''.'') h
      in h \<noteq> [] \<and> h \<noteq> ''*'' \<and> ((pat \<and> hd ps = ''*'') \<or> valid_label (hd ps)) \<and> list_all valid_label (tl ps))"

definition match_hosts :: "string \<Rightarrow> string \<Rightarrow> bool" where
  "match_hosts pat h =
     (let pat = map ascii_lower pat; h = map ascii_lower (if h \<noteq> [] \<and> last h = CHR ''.'' then butlast h else h);
          ps = Split (CHR ''.'') pat; hs = Split (CHR ''.'') h
      in pat \<noteq> [] \<and> h \<noteq> [] \<and> length ps = length hs \<and> (hd ps = ''*'' \<or> hd ps = hd hs) \<and> tl ps = tl hs)"

definition match_exactly :: "string \<Rightarrow> string \<Rightarrow> bool" where
  "match_exactly a b \<longleftrightarrow> a \<notin> {[], ''.''} \<and> b \<notin> {[], ''.''} \<and> map ascii_lower a = map ascii_lower b"

definition VerifyHostname :: "x509 \<Rightarrow> string \<Rightarrow> bool" where
  "VerifyHostname c h =
     (let ipText = (if length h \<ge> 3 \<and> hd h = CHR ''['' \<and> last h = CHR '']'' then butlast (tl h) else h) in
      case ParseIP ipText of
        Some x \<Rightarrow> x \<in> set (ct_IPAddresses c)
      | None \<Rightarrow>
          (let name = map ascii_lower h in
           list_ex (\<lambda>d. if valid_host False name \<and> valid_host True d then match_hosts d name else match_exactly d name)
             (ct_DNSNames c)))"

section \<open>Handshakes\<close>

record tls_config =
  tc_MinVersion :: nat
  tc_Leaf :: x509
  tc_Key :: nat
  tc_RootCAs :: "x509 list"
  tc_ClientCAs :: "x509 list"
  tc_RequireClient :: bool

text \<open>
  A full handshake of a client that has dialled \<open>host\<close>: each side proves that it has the key of its
  certificate; the client sends its certificate if the server names its issuer.
\<close>

definition handshake :: "int \<Rightarrow> tls_config \<Rightarrow> tls_config \<Rightarrow> string \<Rightarrow> bool" where
  "handshake now srv cli host \<longleftrightarrow>
     tc_Key srv = ct_PublicKey (tc_Leaf srv) \<and> Verify (tc_RootCAs cli) now ServerAuth (tc_Leaf srv) \<and>
     VerifyHostname (tc_Leaf srv) host \<and>
     (tc_RequireClient srv \<longrightarrow>
        ct_Issuer (tc_Leaf cli) \<in> ct_Subject ` set (tc_ClientCAs srv) \<and> tc_Key cli = ct_PublicKey (tc_Leaf cli) \<and>
        Verify (tc_ClientCAs srv) now ClientAuth (tc_Leaf cli))"

end
