(* ===== verification/Membership.thy ===== *)
theory Membership
  imports Runner Text_Lib
begin

text \<open>
  \<^verbatim>\<open>internal/membership\<close>: the members of the cluster and the bounded channel of membership
  events between \<^verbatim>\<open>memberlist\<close> and the agent, the gossip key, and \<^verbatim>\<open>taklctl keygen gossip\<close>, which
  makes such keys. \<^verbatim>\<open>memberlist\<close> is not part of the repository: what it reports and returns is
  an argument (the record \<open>memberlist\<close>).
\<close>

section \<open>Types\<close>

type_synonym event_type = int

definition EventJoin :: event_type where "EventJoin = 0"
definition EventLeave :: event_type where "EventLeave = 1"
definition EventUpdate :: event_type where "EventUpdate = 2"

record m_event =
  me_Type :: event_type
  me_NodeID :: string
  me_IP :: string

record member =
  mb_NodeID :: string
  mb_SyncAddr :: string

text \<open>A node as \<^verbatim>\<open>memberlist\<close> reports it: its name, the text of its address, its metadata.\<close>

record ml_node =
  ml_Name :: string
  ml_Addr :: string
  ml_Meta :: string

record ml_config =
  mc_wan :: bool
  mc_Name :: string
  mc_BindPort :: int
  mc_AdvertisePort :: int
  mc_AdvertiseAddr :: "string option"
  mc_SecretKey :: "string option"
  mc_Meta :: string

record memberlist =
  ml_create :: "ml_config \<Rightarrow> error option"
  ml_join :: "ml_config \<Rightarrow> string list \<Rightarrow> error option"

record cluster =
  cl_config :: ml_config
  cl_events :: "m_event list"

section \<open>The channel of events\<close>

definition chan_cap :: nat where "chan_cap = 256"

definition trySend :: "m_event \<Rightarrow> m_event list \<Rightarrow> m_event list" where
  "trySend e events = (if length events < chan_cap then events @ [e] else events)"

definition NotifyJoin :: "ml_node \<Rightarrow> m_event list \<Rightarrow> m_event list" where
  "NotifyJoin node = trySend \<lparr>me_Type = EventJoin, me_NodeID = ml_Name node, me_IP = ml_Addr node\<rparr>"

definition NotifyLeave :: "ml_node \<Rightarrow> m_event list \<Rightarrow> m_event list" where
  "NotifyLeave node = trySend \<lparr>me_Type = EventLeave, me_NodeID = ml_Name node, me_IP = ml_Addr node\<rparr>"

definition NotifyUpdate :: "ml_node \<Rightarrow> m_event list \<Rightarrow> m_event list" where
  "NotifyUpdate node = trySend \<lparr>me_Type = EventUpdate, me_NodeID = ml_Name node, me_IP = ml_Addr node\<rparr>"

section \<open>The gossip key\<close>

definition validSecretKeyLen :: "nat \<Rightarrow> bool" where
  "validSecretKeyLen n \<longleftrightarrow> n = 16 \<or> n = 24 \<or> n = 32"

definition parseSecretKey :: "string \<Rightarrow> error + string option" where
  "parseSecretKey raw =
     (let v = TrimSpace raw in
      if v = [] then Inr None
      else
        let plain = (if validSecretKeyLen (length v) then Inr (Some v)
                     else Inl (ErrMsg (''invalid gossip key length '' @ dec_nat (length v)
                       @ '', expected 16, 24, or 32 bytes (raw or base64)'')))
        in (case b64_decode v of
              Some decoded \<Rightarrow> if validSecretKeyLen (length decoded) then Inr (Some decoded) else plain
            | None \<Rightarrow> plain))"

text \<open>
  \<^verbatim>\<open>taklctl keygen\<close>: \<open>rand\<close> is the outcome of \<^verbatim>\<open>rand.Read\<close> into 32 bytes; the result is the line
  printed.
\<close>

definition runKeygen :: "(error + string) \<Rightarrow> string list \<Rightarrow> error + string" where
  "runKeygen rand args =
     (case args of
        [] \<Rightarrow> Inl (ErrMsg ''usage: taklctl keygen gossip'')
      | a # _ \<Rightarrow>
          if a = ''gossip'' then (case rand of Inl e \<Rightarrow> Inl e | Inr b \<Rightarrow> Inr (b64_encode b @ [CHR 0x0A]))
          else Inl (ErrMsg (''unknown keygen command: '' @ a)))"

section \<open>The cluster\<close>

text \<open>\<^verbatim>\<open>NodeMeta\<close> has one field, \<^verbatim>\<open>SyncAddr\<close>.\<close>

definition meta_json :: "string \<Rightarrow> json" where
  "meta_json syncAddr = JObj [(''sync_addr'', JStr syncAddr)]"

fun meta_fields :: "(string \<times> json) list \<Rightarrow> string \<Rightarrow> string \<times> bool" where
  "meta_fields [] a = (a, True)"
| "meta_fields (kv # kvs) a =
     (let (a', ok) = (if fold_name (fst kv) = ''sync_addr'' then get_str (snd kv) a else (a, True));
          (a'', ok') = meta_fields kvs a'
      in (a'', ok \<and> ok'))"

definition json_meta :: "json \<Rightarrow> string option" where
  "json_meta j =
     (case j of
        JNull \<Rightarrow> Some []
      | JObj kvs \<Rightarrow> (let (a, ok) = meta_fields kvs [] in if ok then Some a else None)
      | _ \<Rightarrow> None)"

definition meta_addr :: "codec \<Rightarrow> string \<Rightarrow> string option" where
  "meta_addr C b = (case unmarshal C b of Inl _ \<Rightarrow> None | Inr j \<Rightarrow> json_meta j)"

definition NewCluster ::
  "codec \<Rightarrow> memberlist \<Rightarrow> string \<Rightarrow> int \<Rightarrow> string \<Rightarrow> string \<Rightarrow> string \<Rightarrow> string \<Rightarrow> string list \<Rightarrow> error + cluster" where
  "NewCluster C ml nodeID bindPort advertiseAddr syncAddr profile gossipKey seeds =
     (let config = \<lparr>mc_wan = (profile = ''wan''), mc_Name = nodeID, mc_BindPort = bindPort, mc_AdvertisePort = bindPort,
                    mc_AdvertiseAddr = (if advertiseAddr \<noteq> [] then Some advertiseAddr else None), mc_SecretKey = None,
                    mc_Meta = (case marshal C (meta_json syncAddr) of Inl _ \<Rightarrow> [] | Inr b \<Rightarrow> b)\<rparr>
      in case (if gossipKey \<noteq> [] then parseSecretKey gossipKey else Inr None) of
           Inl e \<Rightarrow> Inl e
         | Inr key \<Rightarrow>
             (let config = config\<lparr>mc_SecretKey := key\<rparr> in
              case ml_create ml config of
                Some e \<Rightarrow> Inl e
              | None \<Rightarrow>
                  (let _ = (if length seeds > 0 then ml_join ml config seeds else None)
                   in Inr \<lparr>cl_config = config, cl_events = []\<rparr>)))"

text \<open>What the delegate tells the other members of this node.\<close>

definition NodeMeta :: "cluster \<Rightarrow> string" where
  "NodeMeta c = mc_Meta (cl_config c)"

fun members_loop :: "codec \<Rightarrow> string \<Rightarrow> ml_node list \<Rightarrow> member list \<Rightarrow> member list" where
  "members_loop C local [] nodes = nodes"
| "members_loop C local (m # ms) nodes =
     (if ml_Name m = local then members_loop C local ms nodes
      else (case meta_addr C (ml_Meta m) of
          Some a \<Rightarrow> if a \<noteq> [] then members_loop C local ms (nodes @ [\<lparr>mb_NodeID = ml_Name m, mb_SyncAddr = a\<rparr>])
                   else members_loop C local ms nodes
        | None \<Rightarrow> members_loop C local ms nodes))"

definition Members :: "codec \<Rightarrow> string \<Rightarrow> ml_node list \<Rightarrow> member list" where
  "Members C local mlist = members_loop C local mlist []"

section \<open>Keys\<close>

lemma parseSecretKey_valid: "parseSecretKey raw = Inr (Some k) \<Longrightarrow> validSecretKeyLen (length k)"
  by (auto simp: parseSecretKey_def Let_def split: if_splits option.splits)

lemma parseSecretKey_keygen:
  assumes "length b = 32"
  shows "parseSecretKey (b64_encode b @ [CHR 0x0A]) = Inr (Some b)"
proof -
  have ne: "b64_encode b \<noteq> []" using b64_encode_length [of b] assms by auto
  have "graphic c" if "c \<in> set (b64_encode b)" for c
    using b64_encode_chars [OF that] b64_chars_graphic [of c] by (auto simp: graphic_def)
  then have "TrimSpace (b64_encode b @ [CHR 0x0A]) = b64_encode b" using ne by (intro TrimSpace_line)
  then show ?thesis
    using ne assms by (simp add: parseSecretKey_def b64_decode_encode validSecretKeyLen_def)
qed

text \<open>
  C28. A key made by \<^verbatim>\<open>taklctl keygen gossip\<close> is accepted as a gossip key, line end included: the
  key that reaches \<^verbatim>\<open>memberlist\<close> is exactly the 32 random bytes. And whatever key text is given, a
  cluster is only ever created with no key or with a key of 16, 24 or 32 bytes; it is created
  without one only when the text is blank.
\<close>
theorem gossip_key_roundtrip:
  "(runKeygen (Inr b) [''gossip''] = Inr out \<and> length b = 32 \<longrightarrow> parseSecretKey out = Inr (Some b)) \<and>
   (NewCluster C ml nodeID bindPort adv sync profile key seeds = Inr cl \<longrightarrow>
      (case mc_SecretKey (cl_config cl) of None \<Rightarrow> TrimSpace key = [] | Some k \<Rightarrow> validSecretKeyLen (length k)))"
proof (intro conjI impI)
  assume "runKeygen (Inr b) [''gossip''] = Inr out \<and> length b = 32"
  then show "parseSecretKey out = Inr (Some b)"
    using parseSecretKey_keygen [of b] by (simp add: runKeygen_def)
next
  assume new: "NewCluster C ml nodeID bindPort adv sync profile key seeds = Inr cl"
  have blank: "parseSecretKey raw = Inr None \<Longrightarrow> TrimSpace raw = []" for raw
    by (auto simp: parseSecretKey_def Let_def split: if_splits option.splits)
  show "case mc_SecretKey (cl_config cl) of None \<Rightarrow> TrimSpace key = [] | Some k \<Rightarrow> validSecretKeyLen (length k)"
    using new blank [of key] parseSecretKey_valid [of key]
    by (cases "parseSecretKey key"; cases "key = []")
       (auto simp: NewCluster_def Let_def split: option.splits if_splits)
qed

definition ex_ml :: memberlist where
  "ex_ml = \<lparr>ml_create = (\<lambda>_. None), ml_join = (\<lambda>_ _. None)\<rparr>"

definition ex_key :: string where
  "ex_key = replicate 32 (CHR ''k'')"

theorem gossip_key_roundtrip_witness:
  "parseSecretKey (b64_encode ex_key @ [CHR 0x0A]) = Inr (Some ex_key) \<and>
   (\<exists>cl. NewCluster null_codec ex_ml ''a'' 7946 [] ''a:1'' ''wan'' (b64_encode ex_key) [] = Inr cl \<and>
      (case mc_SecretKey (cl_config cl) of None \<Rightarrow> TrimSpace (b64_encode ex_key) = [] | Some k \<Rightarrow> validSecretKeyLen (length k)))"
proof -
  have e: "runKeygen (Inr ex_key) [''gossip''] = Inr (b64_encode ex_key @ [CHR 0x0A])" "length ex_key = 32"
    by (simp_all add: runKeygen_def ex_key_def)
  have ne: "b64_encode ex_key \<noteq> []" using b64_encode_length [of ex_key] e(2) by auto
  then have "parseSecretKey (b64_encode ex_key) = Inr (Some ex_key)"
    using e(2) by (simp add: parseSecretKey_def TrimSpace_b64 b64_decode_encode validSecretKeyLen_def)
  then obtain cl where "NewCluster null_codec ex_ml ''a'' 7946 [] ''a:1'' ''wan'' (b64_encode ex_key) [] = Inr cl"
    using ne by (simp add: NewCluster_def ex_ml_def Let_def)
  then show ?thesis
    using gossip_key_roundtrip [of ex_key "b64_encode ex_key @ [CHR 0x0A]" null_codec ex_ml "''a''" 7946 "[]" "''a:1''" "''wan''"
        "b64_encode ex_key" "[]" cl] e by blast
qed

text \<open>
  A 32-byte key given raw is not used as it is when it happens to be made of base64 letters
  only, as every hexadecimal key is: it is read as base64 and cut down to 24 bytes.
\<close>
theorem raw_key_shortened:
  "set key \<subseteq> set b64_chars \<and> length key = 32 \<longrightarrow> (\<exists>k. parseSecretKey key = Inr (Some k) \<and> length k = 24)"
proof
  assume k: "set key \<subseteq> set b64_chars \<and> length key = 32"
  then obtain bs where bs: "b64_groups key = Some bs" "length bs = 24"
    using b64_groups_total [of key 8] by auto
  have "c \<noteq> CHR 0x0A \<and> c \<noteq> CHR 0x0D" if "c \<in> set b64_chars" for c
    using b64_chars_graphic [OF that] by (auto simp: graphic_def)
  then have "b64_decode key = Some bs" using k bs by (subst b64_decode_def, subst filter_True) auto
  moreover have "TrimSpace key = key" using k b64_chars_graphic by (intro TrimSpace_graphic) auto
  ultimately show "\<exists>k. parseSecretKey key = Inr (Some k) \<and> length k = 24"
    using bs k by (auto simp: parseSecretKey_def validSecretKeyLen_def)
qed

theorem raw_key_shortened_witness:
  "\<exists>k. parseSecretKey (replicate 32 (CHR ''a'')) = Inr (Some k) \<and> length k = 24"
  using raw_key_shortened [of "replicate 32 (CHR ''a'')"] by (simp add: b64_chars_def)

section \<open>Events and members\<close>

lemma Members_exact:
  "members_loop C local ms nodes = nodes @
     map (\<lambda>m. \<lparr>mb_NodeID = ml_Name m, mb_SyncAddr = the (meta_addr C (ml_Meta m))\<rparr>)
       (filter (\<lambda>m. ml_Name m \<noteq> local \<and> meta_addr C (ml_Meta m) \<notin> {None, Some []}) ms)"
  by (induction ms arbitrary: nodes) (auto split: option.splits)

lemma Members_local: "\<lparr>mb_NodeID = local, mb_SyncAddr = a\<rparr> \<notin> set (Members C local ms)"
  by (auto simp: Members_def Members_exact)

lemma fold_sync_addr: "fold_name ''sync_addr'' = ''sync_addr''"
  by code_simp

lemma NodeMeta_read_back:
  assumes "NewCluster C ml nodeID port ip syncAddr profile key seeds = Inr c"
    and "marshal C (meta_json syncAddr) = Inr b" "unmarshal C b = Inr (meta_json syncAddr)"
  shows "meta_addr C (NodeMeta c) = Some syncAddr"
  using assms by (auto simp: NewCluster_def NodeMeta_def Let_def meta_addr_def json_meta_def meta_json_def fold_sync_addr split: sum.splits option.splits if_splits)

lemma trySend_bound: "length es \<le> chan_cap \<Longrightarrow> length (trySend e es) \<le> chan_cap"
  by (simp add: trySend_def)

end
