(* ===== verification/Agent.thy ===== *)
theory Agent
  imports Membership Transport
begin

text \<open>
  \<^verbatim>\<open>internal/agent/agent.go\<close> and \<^verbatim>\<open>internal/backend/stub/stub.go\<close>: the agent samples the machine,
  publishes its runner row, turns to draining and back with hysteresis, and reacts to
  membership events. The readings of the machine and of the clock are arguments. An
  operation that only touches the node is a \<^typ>\<open>unit node_op\<close>; \<^verbatim>\<open>Step\<close> also changes the agent.
\<close>

section \<open>The stub backend\<close>

record stub_config =
  sc_NodeID :: string
  sc_Hostname :: string
  sc_IP :: string
  sc_Region :: string
  sc_Version :: string
  sc_Capacity :: int

text \<open>The results of the calls to the operating system; \<^const>\<open>None\<close> is an error.\<close>

record sensors =
  sn_mem :: "f64 option"
  sn_cpu :: "f64 list option"
  sn_not_exist :: "string \<Rightarrow> bool"
  sn_disk :: "string \<Rightarrow> uint64 option"
  sn_unix :: int

definition percent :: "f64 \<Rightarrow> f64" where
  "percent x = f64_scale (1 / 100) x"

definition Snapshot :: "stub_config \<Rightarrow> sensors \<Rightarrow> runner" where
  "Snapshot cfg sn =
     (let memUtil = (case sn_mem sn of Some v \<Rightarrow> percent v | None \<Rightarrow> Fin 0);
          cpuUtil = (case sn_cpu sn of Some (c # _) \<Rightarrow> percent c | _ \<Rightarrow> Fin 0);
          path = (if sn_not_exist sn ''/'' then ''.'' else ''/'');
          freeDiskMB = (case sn_disk sn path of Some free \<Rightarrow> uint (free div 1024 div 1024) | None \<Rightarrow> 0)
      in \<lparr>RunnerID = sc_NodeID cfg, Hostname = sc_Hostname cfg, IP = sc_IP cfg, Region = sc_Region cfg,
          Version = sc_Version cfg, Status = RunnerActive, LastHeartbeat = sn_unix sn, CPUUtil = cpuUtil,
          MemUtil = memUtil, FreeDiskMB = freeDiskMB, WorkerCapacity = sc_Capacity cfg,
          AvailableWorkers = sc_Capacity cfg, Labels = Some []\<rparr>)"

section \<open>The agent\<close>

record agent =
  ag_nodeID :: string
  ag_epoch :: string
  highMetricsCount :: int
  normalMetricsCount :: int
  isDraining :: bool

definition hex_digit :: "nat \<Rightarrow> char" where
  "hex_digit n = ''0123456789abcdef'' ! n"

definition hex :: "string \<Rightarrow> string" where
  "hex b = concat (map (\<lambda>c. [hex_digit (of_char c div 16), hex_digit (of_char c mod 16)]) b)"

definition agent_New :: "string \<Rightarrow> string \<Rightarrow> agent" where
  "agent_New nodeID b = \<lparr>ag_nodeID = nodeID, ag_epoch = hex b, highMetricsCount = 0, normalMetricsCount = 0, isDraining = False\<rparr>"

definition agent_owner :: "agent \<Rightarrow> string" where
  "agent_owner a = ag_nodeID a @ ''/'' @ ag_epoch a"

definition putRow :: "codec \<Rightarrow> agent \<Rightarrow> kind \<Rightarrow> string \<Rightarrow> runner \<Rightarrow> hlc \<Rightarrow> unit node_op" where
  "putRow C a kind key v hlc =
     (case Encode C v of
        Inl e \<Rightarrow> throw e
      | Inr payload \<Rightarrow> on_store (Put \<lparr>r_kind = kind, r_key = key, r_owner = agent_owner a, r_hlc = hlc,
                                    r_tombstone = False, r_payload = payload\<rparr>))"

definition emit :: "codec \<Rightarrow> agent \<Rightarrow> string \<Rightarrow> json gomap option \<Rightarrow> hlc \<Rightarrow> unit node_op" where
  "emit C a t payload hlc =
     on_store (AppendEvent C \<lparr>ev_seq = 0, ev_type = t, ev_runner_id = ag_nodeID a, ev_payload = payload, ev_hlc = hlc\<rparr>)"

definition Start :: "codec \<Rightarrow> int \<Rightarrow> runner \<Rightarrow> agent \<Rightarrow> unit node_op" where
  "Start C now snap a =
     bindE (clock_tick now) (\<lambda>hlc.
       let runner = snap\<lparr>Status := RunnerActive\<rparr> in
       bindE (putRow C a KindRunner (Key runner) runner hlc) (\<lambda>_.
         emit C a EventRunnerJoined None hlc))"

definition load_limit :: f64 where
  "load_limit = f64_round (9 / 10)"

definition isHot :: "runner \<Rightarrow> bool" where
  "isHot r \<longleftrightarrow> f64_le load_limit (CPUUtil r) \<or> f64_le load_limit (MemUtil r) \<or> FreeDiskMB r < 2000"

definition count_metrics :: "bool \<Rightarrow> agent \<Rightarrow> agent" where
  "count_metrics hot a =
     (let a = (if hot then a\<lparr>highMetricsCount := wrap64 (highMetricsCount a + 1), normalMetricsCount := 0\<rparr>
               else a\<lparr>normalMetricsCount := wrap64 (normalMetricsCount a + 1), highMetricsCount := 0\<rparr>)
      in if highMetricsCount a \<ge> 5 then a\<lparr>isDraining := True\<rparr>
         else if normalMetricsCount a \<ge> 5 then a\<lparr>isDraining := False\<rparr>
         else a)"

definition step_runner :: "agent \<Rightarrow> runner \<Rightarrow> runner" where
  "step_runner a snap = (if isDraining a then snap\<lparr>Status := RunnerDraining\<rparr> else snap\<lparr>Status := RunnerActive\<rparr>)"

definition Step :: "codec \<Rightarrow> int \<Rightarrow> runner \<Rightarrow> (agent \<times> node, unit) st_op" where
  "Step C now snap = (\<lambda>(a, n).
     let a' = count_metrics (isHot snap) a;
         runner = step_runner a' snap;
         (res, n') = bindE (clock_tick now) (\<lambda>hlc. putRow C a' KindRunner (Key runner) runner hlc) n
     in (res, (a', n')))"

definition log_error :: "('s, unit) st_op \<Rightarrow> ('s, unit) st_op" where
  "log_error m = tryE m (\<lambda>_. ret ()) ret"

definition event_payload :: "m_event \<Rightarrow> json gomap option" where
  "event_payload ev = Some [(''ip'', JStr (me_IP ev)), (''node_id'', JStr (me_NodeID ev))]"

definition handle_event :: "codec \<Rightarrow> int \<Rightarrow> m_event \<Rightarrow> agent \<Rightarrow> unit node_op" where
  "handle_event C now ev a =
     bindE (clock_tick now) (\<lambda>hlc.
       if me_Type ev = EventJoin then log_error (emit C a EventRunnerJoined (event_payload ev) hlc)
       else if me_Type ev = EventLeave then
         bindE (log_error (on_store (DeleteByNode (me_NodeID ev) hlc))) (\<lambda>_.
           log_error (emit C a EventRunnerLeft (event_payload ev) hlc))
       else ret ())"

text \<open>
  \<^verbatim>\<open>Run\<close>: after a successful start the ticker and, if there is a cluster, the channel of
  membership events wake the agent in some order, which is the list of turns. \<^verbatim>\<open>time.NewTicker\<close>
  panics when the interval is not positive.
\<close>

datatype agent_turn = Sample int runner | Member_event int m_event

definition run_turn :: "codec \<Rightarrow> bool \<Rightarrow> agent_turn \<Rightarrow> (agent \<times> node, unit) st_op" where
  "run_turn C clustered t =
     (case t of
        Sample now snap \<Rightarrow> log_error (Step C now snap)
      | Member_event now ev \<Rightarrow> (\<lambda>(a, n). if clustered then (case handle_event C now ev a n of (res, n') \<Rightarrow> (res, (a, n')))
                                     else (Inr (), (a, n))))"

primrec run_turns :: "codec \<Rightarrow> bool \<Rightarrow> agent_turn list \<Rightarrow> (agent \<times> node, unit) st_op" where
  "run_turns C clustered [] = ret ()"
| "run_turns C clustered (t # ts) = bindE (run_turn C clustered t) (\<lambda>_. run_turns C clustered ts)"

definition agent_Run :: "codec \<Rightarrow> bool \<Rightarrow> int \<Rightarrow> int \<Rightarrow> runner \<Rightarrow> agent_turn list \<Rightarrow> (agent \<times> node, unit) st_op" where
  "agent_Run C clustered interval now snap turns = (\<lambda>(a, n).
     case Start C now snap a n of
       (Inl e, n') \<Rightarrow> (Inl e, (a, n'))
     | (Inr _, n') \<Rightarrow>
         if interval \<le> 0 then (Inl (Panic ''non-positive interval for NewTicker''), (a, n'))
         else run_turns C clustered turns (a, n'))"

section \<open>Draining\<close>

text \<open>
  The verdict of a history of samples, newest first: that of the last five samples in a row
  which agree.
\<close>

fun verdict :: "bool list \<Rightarrow> bool" where
  "verdict hs =
     (if length hs < 5 then False
      else if list_all id (take 5 hs) then True
      else if list_all Not (take 5 hs) then False
      else verdict (tl hs))"

declare verdict.simps [simp del]

lemma take_all_run: "n \<le> length xs \<Longrightarrow> list_all P (take n xs) \<longleftrightarrow> n \<le> length (takeWhile P xs)"
proof (induction n arbitrary: xs)
  case (Suc n)
  then show ?case by (cases xs) auto
qed simp

definition counts_ok :: "bool list \<Rightarrow> agent \<Rightarrow> bool" where
  "counts_ok hs a \<longleftrightarrow>
     highMetricsCount a = int (length (takeWhile id hs)) \<and> normalMetricsCount a = int (length (takeWhile Not hs)) \<and>
     isDraining a = verdict hs"

lemma count_metrics_ok:
  assumes "counts_ok hs a" "int (length hs) < max64"
  shows "counts_ok (hot # hs) (count_metrics hot a)"
proof -
  have len: "length (takeWhile P hs) \<le> length hs" for P by (rule length_takeWhile_le)
  have "in64 (int (length (takeWhile P hs)))" "int (length (takeWhile P hs)) < max64" for P
    using len [of P] assms(2) by (auto simp: in64_def min64_def max64_def)
  then have w: "wrap64 (int (length (takeWhile P hs)) + 1) = int (length (takeWhile P hs)) + 1" for P
    by (rule wrap64_succ)
  have short: "length hs < 5 \<Longrightarrow> \<not> verdict hs" by (simp add: verdict.simps [of hs])
  show ?thesis
  proof (cases "length hs < 4")
    case True
    then have "length (takeWhile P hs) < 4" for P using len [of P] by simp
    from this [of id] this [of Not] show ?thesis
      using assms(1) True short by (auto simp: counts_ok_def count_metrics_def w verdict.simps [of "hot # hs"])
  next
    case False
    then have "verdict (hot # hs) = (if 5 \<le> length (takeWhile id (hot # hs)) then True
        else if 5 \<le> length (takeWhile Not (hot # hs)) then False else verdict hs)"
      using take_all_run [of 5 "hot # hs" id] take_all_run [of 5 "hot # hs" Not]
      by (simp only: verdict.simps [of "hot # hs"]) simp
    then show ?thesis
      using assms(1) by (auto simp: counts_ok_def count_metrics_def w)
  qed
qed

definition samples :: "agent_turn list \<Rightarrow> bool list" where
  "samples ts = concat (map (\<lambda>t. case t of Sample _ snap \<Rightarrow> [isHot snap] | Member_event _ _ \<Rightarrow> []) ts)"

lemma run_turn_agent:
  "fst (snd (run_turn C clustered t (a, n))) =
     (case t of Sample _ snap \<Rightarrow> count_metrics (isHot snap) a | Member_event _ _ \<Rightarrow> a)"
  by (auto simp: run_turn_def log_error_def tryE_def Step_def ret_def Let_def split: agent_turn.splits prod.splits sum.splits)

lemma run_turn_Inr: "\<exists>s'. run_turn C clustered t s = (Inr (), s')"
  by (cases s; cases t)
     (auto simp: run_turn_def log_error_def tryE_def ret_def handle_event_def clock_tick_def bindE_def
       split: prod.splits sum.splits)


lemma counts_ok_New: "counts_ok [] (agent_New nodeID b)"
  by (simp add: counts_ok_def agent_New_def verdict.simps)

lemma run_turns_counts:
  "counts_ok hs a \<Longrightarrow> int (length hs + length ts) < max64 \<Longrightarrow>
     \<exists>a' n'. run_turns C clustered ts (a, n) = (Inr (), (a', n')) \<and> counts_ok (rev (samples ts) @ hs) a'"
proof (induction ts arbitrary: a n hs)
  case (Cons t ts)
  obtain a1 n1 where t: "run_turn C clustered t (a, n) = (Inr (), (a1, n1))"
    using run_turn_Inr by (metis surj_pair)
  show ?case
  proof (cases t)
    case (Sample now snap)
    then have a1: "a1 = count_metrics (isHot snap) a"
      using t run_turn_agent [of C clustered t a n] by simp
    then have "counts_ok (isHot snap # hs) a1" using Cons.prems by (auto intro: count_metrics_ok)
    then show ?thesis
      using Cons.IH [of "isHot snap # hs" a1 n1] Cons.prems(2) t Sample by (simp add: bindE_def samples_def)
  next
    case (Member_event now ev)
    then have "a1 = a" using t run_turn_agent [of C clustered t a n] by simp
    then show ?thesis
      using Cons.IH [of hs a n1] Cons.prems t Member_event by (simp add: bindE_def samples_def)
  qed
qed (simp add: ret_def samples_def)

lemma upsert_Inr: "upsert r s = (Inr x, s') \<Longrightarrow> st_rows s' = upsert_row r (st_rows s) \<and> st_events s' = st_events s \<and> st_watermarks s' = st_watermarks s"
  by (auto simp: upsert_def dest!: exec_Inr)

lemma upsert_Inl: "upsert r s = (Inl e, s') \<Longrightarrow> same_tables s s'"
  by (auto simp: upsert_def dest: exec_Inl)

lemma putRow_Inr:
  "putRow C a kind key v hlc n = (Inr x, n') \<Longrightarrow>
     \<exists>p. Encode C v = Inr p \<and> nd_clock n' = nd_clock n \<and>
       st_rows (nd_store n') = upsert_row \<lparr>r_kind = kind, r_key = key, r_owner = agent_owner a, r_hlc = hlc,
         r_tombstone = False, r_payload = p\<rparr> (st_rows (nd_store n))"
  by (auto simp: putRow_def throw_def on_store_def Put_def split: sum.splits prod.splits dest!: upsert_Inr)

lemma putRow_Inl:
  "putRow C a kind key v hlc n = (Inl e, n') \<Longrightarrow> same_tables (nd_store n) (nd_store n') \<and> nd_clock n' = nd_clock n"
  by (auto simp: putRow_def throw_def on_store_def Put_def split: sum.splits prod.splits dest!: upsert_Inl)

text \<open>
  C12. Draining has hysteresis. Whatever happens in a run of the agent (failing steps and
  membership events included), the agent is draining exactly when the last five consecutive
  samples that agreed were all hot; the row the next successful step publishes under the
  runner's id, with a fresh stamp, carries the status of that verdict with the new sample
  included.
\<close>
theorem draining_hysteresis:
  assumes "int (length ts) < max64"
    and "run_turns C clustered ts (agent_New nodeID b, n) = (res, (a', n'))"
  shows "res = Inr () \<and> isDraining a' = verdict (rev (samples ts)) \<and>
    (\<forall>now snap a'' n''. Step C now snap (a', n') = (Inr (), (a'', n'')) \<longrightarrow> int (length ts) + 1 < max64 \<longrightarrow>
      (\<exists>r. select_row KindRunner (RunnerID snap) (st_rows (nd_store n'')) = Some r \<and>
        Encode C (snap\<lparr>Status := (if verdict (isHot snap # rev (samples ts)) then RunnerDraining else RunnerActive)\<rparr>)
          = Inr (r_payload r) \<and>
        r_hlc r = fst (tick now (nd_clock n')) \<and> \<not> r_tombstone r \<and> r_owner r = agent_owner a'))"
proof -
  have c: "counts_ok (rev (samples ts)) a'" and r: "res = Inr ()"
    using run_turns_counts [OF counts_ok_New, of ts C clustered nodeID b n] assms by auto
  have len: "length (samples ts) \<le> length ts"
    by (induction ts) (auto simp: samples_def split: agent_turn.splits)
  have own: "agent_owner (count_metrics h a') = agent_owner a'" for h
    by (simp add: count_metrics_def agent_owner_def Let_def)
  have "\<exists>r. select_row KindRunner (RunnerID snap) (st_rows (nd_store n'')) = Some r \<and>
      Encode C (snap\<lparr>Status := (if verdict (isHot snap # rev (samples ts)) then RunnerDraining else RunnerActive)\<rparr>)
        = Inr (r_payload r) \<and> r_hlc r = fst (tick now (nd_clock n')) \<and> \<not> r_tombstone r \<and> r_owner r = agent_owner a'"
    if s: "Step C now snap (a', n') = (Inr (), (a'', n''))" "int (length ts) + 1 < max64" for now snap a'' n''
  proof -
    have "counts_ok (isHot snap # rev (samples ts)) (count_metrics (isHot snap) a')"
      using c len s(2) by (intro count_metrics_ok) auto
    then have "isDraining (count_metrics (isHot snap) a') = verdict (isHot snap # rev (samples ts))"
      by (simp add: counts_ok_def)
    then show ?thesis
      using s(1) by (auto simp: Step_def Let_def bindE_Inr clock_tick_def step_runner_def Key_def own row_pk_def
          tbl_select_upsert split: prod.splits dest!: putRow_Inr)
  qed
  then show ?thesis using c r by (simp add: counts_ok_def)
qed


lemma load_limit_eq: "load_limit = Fin (8106479329266893 / 9007199254740992)"
proof -
  have g: "f64_grid (9 / 10) = 8106479329266893 / 9007199254740992" by code_simp
  have "1 < f64_limit" using f64_limit_large [of 0] by simp
  then show ?thesis by (simp add: load_limit_def f64_round_def g)
qed

definition ex_hot :: runner where "ex_hot = ex_runner\<lparr>CPUUtil := PInf\<rparr>"

lemma ex_hot_samples: "isHot ex_hot" "\<not> isHot ex_runner"
  by (simp_all add: isHot_def ex_hot_def ex_runner_def runner_zero_def load_limit_eq)

definition ex_turns :: "agent_turn list" where
  "ex_turns = replicate 5 (Sample 1 ex_hot) @ replicate 4 (Sample 1 ex_runner)"

definition any_codec :: codec where
  "any_codec = \<lparr>marshal = (\<lambda>_. Inr ''x''), unmarshal = (\<lambda>_. Inr JNull)\<rparr>"

lemma ex_step: "\<exists>n''. Step any_codec 5 ex_runner (agent_New ''a'' [], ex_node []) = (Inr (), (count_metrics False (agent_New ''a'' []), n''))"
proof -
  have "\<exists>j. runner_json (step_runner a ex_runner) = Inr j" for a
    by (simp add: runner_json_def step_runner_def ex_runner_def runner_zero_def)
  then obtain j where "runner_json (step_runner (count_metrics False (agent_New ''a'' [])) ex_runner) = Inr j" ..
  then show ?thesis
    by (auto simp: Step_def Let_def bindE_def clock_tick_def putRow_def Encode_def any_codec_def on_store_def ex_hot_samples
        ex_node_def empty_disk_def db_simps healthy_def split: prod.splits sum.splits)
qed

theorem draining_hysteresis_witness:
  "(\<exists>a' n'. run_turns any_codec False ex_turns (agent_New ''a'' [], ex_node []) = (Inr (), (a', n')) \<and> isDraining a') \<and>
   (\<exists>a'' n'' r. Step any_codec 5 ex_runner (agent_New ''a'' [], ex_node []) = (Inr (), (a'', n'')) \<and>
      select_row KindRunner ''r'' (st_rows (nd_store n'')) = Some r \<and> r_hlc r = HLC 5 0 \<and> r_owner r = ''a/'')"
proof
  obtain res a' n' where r: "run_turns any_codec False ex_turns (agent_New ''a'' [], ex_node []) = (res, (a', n'))"
    by (metis surj_pair)
  have "int (length ex_turns) < max64" by (simp add: ex_turns_def max64_def)
  note d = draining_hysteresis [OF this r]
  have "verdict (rev (samples ex_turns))"
    by (simp add: ex_turns_def samples_def ex_hot_samples numeral_eq_Suc verdict.simps)
  then show "\<exists>a' n'. run_turns any_codec False ex_turns (agent_New ''a'' [], ex_node []) = (Inr (), (a', n')) \<and> isDraining a'"
    using d r by simp
next
  obtain n'' where s: "Step any_codec 5 ex_runner (agent_New ''a'' [], ex_node []) = (Inr (), (count_metrics False (agent_New ''a'' []), n''))"
    using ex_step by blast
  have "RunnerID ex_runner = ''r''" "agent_owner (agent_New ''a'' []) = ''a/''" "fst (tick 5 (nd_clock (ex_node []))) = HLC 5 0"
    by (simp_all add: ex_runner_def agent_owner_def agent_New_def hex_def ex_node_def NewClock_def tick_def)
  then show "\<exists>a'' n'' r. Step any_codec 5 ex_runner (agent_New ''a'' [], ex_node []) = (Inr (), (a'', n'')) \<and>
      select_row KindRunner ''r'' (st_rows (nd_store n'')) = Some r \<and> r_hlc r = HLC 5 0 \<and> r_owner r = ''a/''"
    using draining_hysteresis [of "[]" any_codec False "''a''" "[]" "ex_node []" "Inr ()" "agent_New ''a'' []" "ex_node []"] s
    by (fastforce simp: ret_def max64_def)
qed


section \<open>Leaving members\<close>

lemma sql_like_self: "sql_like q t \<Longrightarrow> sql_like (p @ q) (p @ t)"
proof (induction p)
  case (Cons c p)
  have "sql_like (CHR ''%'' # p @ q) (p @ t)" using Cons by (cases "p @ t") (simp_all add: sql_like.simps(2))
  then show ?case using Cons by (auto simp: sql_like.simps(2) utf8_rest_def)
qed simp

definition prune :: "string \<Rightarrow> hlc \<Rightarrow> row list \<Rightarrow> row list" where
  "prune nodeID h = map (\<lambda>r. if sql_like (nodeID @ ''/%'') (r_owner r) \<and> \<not> r_tombstone r
     then r\<lparr>r_tombstone := True, r_hlc := h\<rparr> else r)"

lemma prune_owned:
  assumes "r \<in> set (prune nodeID h t)" "r_owner r = nodeID @ ''/'' @ epoch"
  shows "r_tombstone r"
proof -
  have "sql_like (nodeID @ ''/%'') (nodeID @ ''/'' @ epoch)"
    using sql_like_self [of "''%''" epoch "nodeID @ ''/''"] sql_like_percent [of epoch] by simp
  then show ?thesis using assms by (auto simp: prune_def split: if_splits)
qed

lemma DeleteByNode_prune:
  "DeleteByNode nodeID h s = (Inr u, s') \<Longrightarrow> \<exists>fs. s' = s\<lparr>st_rows := prune nodeID h (st_rows s), st_faults := fs\<rparr>"
  using DeleteByNode_Inr [of nodeID h s u s'] by (simp add: prune_def)

lemma DeleteByNode_Inl: "DeleteByNode nodeID h s = (Inl e, s') \<Longrightarrow> same_tables s s'"
  by (auto simp: DeleteByNode_def Let_def dest: exec_Inl)

lemma DeleteByNode_healthy [db_simps]:
  "healthy s \<Longrightarrow> DeleteByNode nodeID h s = (Inr (), s\<lparr>st_rows := prune nodeID h (st_rows s)\<rparr>)"
  by (simp add: DeleteByNode_def db_simps Let_def prune_def)

lemma log_error_res: "log_error m s = (res, s') \<Longrightarrow> res = Inr () \<and> (\<exists>r. m s = (r, s'))"
  by (auto simp: log_error_def tryE_def ret_def split: prod.splits sum.splits)

lemma log_error_ok [db_simps]: "m s = (Inr (), s') \<Longrightarrow> log_error m s = (Inr (), s')"
  by (simp add: log_error_def tryE_def ret_def)

lemma emit_rows: "emit C a t pl h n = (res, n') \<Longrightarrow> st_rows (nd_store n') = st_rows (nd_store n) \<and> nd_clock n' = nd_clock n"
  by (cases res)
     (auto simp: emit_def on_store_def same_tables_def split: prod.splits dest!: AppendEvent_Inr AppendEvent_Inl)

lemma handle_event_rows:
  assumes "handle_event C now ev a n = (res, n')"
  shows "res = Inr () \<and> nd_clock n' = snd (tick now (nd_clock n)) \<and>
    (st_rows (nd_store n') = st_rows (nd_store n) \<or>
     me_Type ev = EventLeave \<and> st_rows (nd_store n') = prune (me_NodeID ev) (fst (tick now (nd_clock n))) (st_rows (nd_store n)))"
proof -
  obtain h c where t: "tick now (nd_clock n) = (h, c)" by (cases "tick now (nd_clock n)")
  let ?n = "n\<lparr>nd_clock := c\<rparr>"
  have del: "nd_clock n1 = nd_clock ?n \<and> (st_rows (nd_store n1) = st_rows (nd_store n) \<or>
      st_rows (nd_store n1) = prune (me_NodeID ev) h (st_rows (nd_store n)))"
    if "on_store (DeleteByNode (me_NodeID ev) h) ?n = (r, n1)" for r n1
    using that by (cases r) (auto simp: on_store_def same_tables_def split: prod.splits
        dest!: DeleteByNode_prune DeleteByNode_Inl)
  show ?thesis
    using assms by (auto simp: handle_event_def clock_tick_def t ret_def bindE_def split: if_splits prod.splits sum.splits
        dest!: log_error_res emit_rows del)
qed


text \<open>
  C20. When the cluster reports that a node has left, and the database does not fail, the agent
  turns every live row that some run of that node owned into a tombstone stamped with a fresh
  stamp, and appends exactly one \<^verbatim>\<open>RunnerLeft\<close> event with the next number and that stamp to its own
  log. Wherever the database does fail, the agent goes on: the rows are as before or pruned.
\<close>
theorem leave_prunes:
  assumes "handle_event C now ev a n = (res, n')" "me_Type ev = EventLeave"
  shows "res = Inr () \<and>
    st_rows (nd_store n') \<in> {st_rows (nd_store n), prune (me_NodeID ev) (fst (tick now (nd_clock n))) (st_rows (nd_store n))} \<and>
    (healthy (nd_store n) \<and> runner_seqs (ag_nodeID a) (st_events (nd_store n)) = [1..int k] \<and> int k < max64 \<and>
       marshal C (any_map_json (event_payload ev)) = Inr pl \<longrightarrow>
     (\<forall>r \<in> set (st_rows (nd_store n')). \<forall>epoch. r_owner r = me_NodeID ev @ ''/'' @ epoch \<longrightarrow> r_tombstone r) \<and>
     st_events (nd_store n') = st_events (nd_store n) @
       [\<lparr>er_runner_id = ag_nodeID a, er_seq = int k + 1, er_type = EventRunnerLeft, er_payload = pl,
         er_hlc = fst (tick now (nd_clock n))\<rparr>])"
proof -
  obtain h c where t: "tick now (nd_clock n) = (h, c)" by (cases "tick now (nd_clock n)")
  have base: "res = Inr () \<and> st_rows (nd_store n') \<in>
      {st_rows (nd_store n), prune (me_NodeID ev) (fst (tick now (nd_clock n))) (st_rows (nd_store n))}"
    using handle_event_rows [OF assms(1)] by blast
  have "(\<forall>r \<in> set (st_rows (nd_store n')). \<forall>epoch. r_owner r = me_NodeID ev @ ''/'' @ epoch \<longrightarrow> r_tombstone r) \<and>
     st_events (nd_store n') = st_events (nd_store n) @
       [\<lparr>er_runner_id = ag_nodeID a, er_seq = int k + 1, er_type = EventRunnerLeft, er_payload = pl, er_hlc = h\<rparr>]"
    if h: "healthy (nd_store n)" "runner_seqs (ag_nodeID a) (st_events (nd_store n)) = [1..int k]" "int k < max64"
      "marshal C (any_map_json (event_payload ev)) = Inr pl"
  proof -
    let ?e = "\<lparr>ev_seq = 0, ev_type = EventRunnerLeft, ev_runner_id = ag_nodeID a, ev_payload = event_payload ev, ev_hlc = h\<rparr>"
    let ?s = "(nd_store n)\<lparr>st_rows := prune (me_NodeID ev) h (st_rows (nd_store n))\<rparr>"
    have w: "wrap64 (max_seq (ag_nodeID a) (st_events ?s) + 1) = int k + 1"
      using h(2,3) by (simp add: max_seq_upto wrap64_succ in64_def min64_def max64_def)
    have "AppendEvent C ?e ?s = (Inr (), ?s\<lparr>st_events := st_events ?s @ [event_to_row ?e (int k + 1) pl]\<rparr>)"
      using h fresh_seq [of ?e "st_events ?s" k pl] w by (subst AppendEvent_healthy) simp_all
    then have "n' = n\<lparr>nd_clock := c, nd_store := ?s\<lparr>st_events := st_events ?s @ [event_to_row ?e (int k + 1) pl]\<rparr>\<rparr>"
      using assms h(1) by (simp add: handle_event_def clock_tick_def t bindE_def EventLeave_def EventJoin_def emit_def
          log_error_def tryE_def on_store_def ret_def DeleteByNode_healthy)
    then show ?thesis by (auto simp: event_to_row_def dest: prune_owned)
  qed
  then show ?thesis using base t by simp
qed

theorem leave_prunes_witness:
  "\<exists>n'. handle_event any_codec 7 \<lparr>me_Type = EventLeave, me_NodeID = ''b'', me_IP = ''1''\<rparr> (agent_New ''a'' [])
      (ex_node [ex_row ''b'' ''b/ff'' 3]) = (Inr (), n') \<and>
     (\<forall>r \<in> set (st_rows (nd_store n')). \<forall>epoch. r_owner r = ''b/'' @ epoch \<longrightarrow> r_tombstone r) \<and>
     st_events (nd_store n') = [\<lparr>er_runner_id = ''a'', er_seq = 1, er_type = EventRunnerLeft, er_payload = ''x'', er_hlc = HLC 7 0\<rparr>]"
proof -
  let ?ev = "\<lparr>me_Type = EventLeave, me_NodeID = ''b'', me_IP = ''1''\<rparr>"
  let ?n = "ex_node [ex_row ''b'' ''b/ff'' 3]"
  obtain res n' where r: "handle_event any_codec 7 ?ev (agent_New ''a'' []) ?n = (res, n')" by fastforce
  have h: "healthy (nd_store ?n)" "runner_seqs ''a'' (st_events (nd_store ?n)) = [1..int 0]" "int 0 < max64"
    "marshal any_codec (any_map_json (event_payload ?ev)) = Inr ''x''" "fst (tick 7 (nd_clock ?n)) = HLC 7 0"
    "ag_nodeID (agent_New ''a'' []) = ''a''" "st_events (nd_store ?n) = []"
    by (simp_all add: ex_node_def empty_disk_def healthy_def runner_seqs_def max64_def any_codec_def tick_def NewClock_def agent_New_def)
  show ?thesis
    using leave_prunes [OF r, of 0 "''x''"] r h by simp
qed

end
