(* ===== verification/Takld.thy ===== *)
theory Takld
  imports Net_Lib Agent
begin

text \<open>
  \<^verbatim>\<open>internal/config/config.go\<close>, \<^verbatim>\<open>internal/transport/tls.go\<close> (\<^verbatim>\<open>Enabled\<close>, \<^verbatim>\<open>Validate\<close>) and
  \<^verbatim>\<open>cmd/takld/main.go\<close>: the configuration, the flags on top of it, the addresses the daemon
  advertises, the guards that refuse an insecure start, and what is started with which peers.
  The YAML library, the file system, the resolver and the network interfaces are arguments.
\<close>

section \<open>Configuration\<close>

record cluster_cfg =
  cc_NodeID :: string
  cc_Bind :: int
  cc_Join :: "string list"
  cc_Peers :: "string list"
  cc_Profile :: string
  cc_GossipKey :: string

record tls_files =
  tl_CAFile :: string
  tl_CertFile :: string
  tl_KeyFile :: string

record network_cfg =
  nc_HTTPAddr :: string
  nc_SyncAddr :: string
  nc_AdvertiseAddr :: string
  nc_AdminToken :: string
  nc_EnablePprof :: bool
  nc_SyncTLS :: tls_files

record storage_cfg =
  st_DBPath :: string

record execution_cfg =
  ex_Capacity :: int
  ex_Region :: string

record agent_cfg =
  ac_Tick :: int
  ac_SyncInterval :: int

record config =
  cf_Cluster :: cluster_cfg
  cf_Network :: network_cfg
  cf_Storage :: storage_cfg
  cf_Execution :: execution_cfg
  cf_Agent :: agent_cfg

definition second :: int where "second = 1000000000"

definition Default :: config where
  "Default = \<lparr>
     cf_Cluster = \<lparr>cc_NodeID = ''runner-1'', cc_Bind = 7946, cc_Join = [], cc_Peers = [], cc_Profile = ''lan'', cc_GossipKey = []\<rparr>,
     cf_Network = \<lparr>nc_HTTPAddr = ''127.0.0.1:8090'', nc_SyncAddr = ''127.0.0.1:8100'', nc_AdvertiseAddr = [], nc_AdminToken = [],
       nc_EnablePprof = False, nc_SyncTLS = \<lparr>tl_CAFile = [], tl_CertFile = [], tl_KeyFile = []\<rparr>\<rparr>,
     cf_Storage = \<lparr>st_DBPath = ''takl.db''\<rparr>,
     cf_Execution = \<lparr>ex_Capacity = 4, ex_Region = ''us-east-1''\<rparr>,
     cf_Agent = \<lparr>ac_Tick = second, ac_SyncInterval = 2 * second\<rparr>\<rparr>"

datatype file_read = NotExist | ReadError error | Content string

definition Load :: "(string \<Rightarrow> file_read) \<Rightarrow> (string \<Rightarrow> config \<Rightarrow> error + config) \<Rightarrow> string \<Rightarrow> config \<Rightarrow> error + config" where
  "Load fs yaml path base =
     (if path = [] then Inr base
      else (case fs path of
          NotExist \<Rightarrow> Inr base
        | ReadError e \<Rightarrow> Inl e
        | Content b \<Rightarrow> yaml b base))"

section \<open>Flags\<close>

text \<open>A flag that was not given on the command line is \<^const>\<open>None\<close>.\<close>

record flags =
  fl_config :: string
  fl_node_id :: "string option"
  fl_http_addr :: "string option"
  fl_sync_addr :: "string option"
  fl_advertise_addr :: "string option"
  fl_admin_token :: "string option"
  fl_enable_pprof :: "bool option"
  fl_peers :: "string option"
  fl_bind :: "int option"
  fl_join :: "string option"
  fl_cluster_profile :: "string option"
  fl_gossip_key :: "string option"
  fl_tls_ca :: "string option"
  fl_tls_cert :: "string option"
  fl_tls_key :: "string option"
  fl_allow_insecure_sync :: bool
  fl_allow_insecure_gossip :: bool
  fl_db :: "string option"
  fl_capacity :: "int option"
  fl_region :: "string option"
  fl_tick :: "int option"
  fl_sync_interval :: "int option"

definition or_old :: "'a option \<Rightarrow> 'a \<Rightarrow> 'a" where
  "or_old new old = (case new of None \<Rightarrow> old | Some v \<Rightarrow> v)"

definition visit :: "flags \<Rightarrow> config \<Rightarrow> config" where
  "visit f c =
     (let cl = cf_Cluster c; nw = cf_Network c; tl = nc_SyncTLS nw in
      \<lparr>cf_Cluster = \<lparr>cc_NodeID = or_old (fl_node_id f) (cc_NodeID cl), cc_Bind = or_old (fl_bind f) (cc_Bind cl),
         cc_Join = or_old (map_option (Split (CHR '','')) (fl_join f)) (cc_Join cl),
         cc_Peers = or_old (map_option (Split (CHR '','')) (fl_peers f)) (cc_Peers cl),
         cc_Profile = or_old (fl_cluster_profile f) (cc_Profile cl), cc_GossipKey = or_old (fl_gossip_key f) (cc_GossipKey cl)\<rparr>,
       cf_Network = \<lparr>nc_HTTPAddr = or_old (fl_http_addr f) (nc_HTTPAddr nw), nc_SyncAddr = or_old (fl_sync_addr f) (nc_SyncAddr nw),
         nc_AdvertiseAddr = or_old (fl_advertise_addr f) (nc_AdvertiseAddr nw), nc_AdminToken = or_old (fl_admin_token f) (nc_AdminToken nw),
         nc_EnablePprof = or_old (fl_enable_pprof f) (nc_EnablePprof nw),
         nc_SyncTLS = \<lparr>tl_CAFile = or_old (fl_tls_ca f) (tl_CAFile tl), tl_CertFile = or_old (fl_tls_cert f) (tl_CertFile tl),
           tl_KeyFile = or_old (fl_tls_key f) (tl_KeyFile tl)\<rparr>\<rparr>,
       cf_Storage = \<lparr>st_DBPath = or_old (fl_db f) (st_DBPath (cf_Storage c))\<rparr>,
       cf_Execution = \<lparr>ex_Capacity = or_old (fl_capacity f) (ex_Capacity (cf_Execution c)),
         ex_Region = or_old (fl_region f) (ex_Region (cf_Execution c))\<rparr>,
       cf_Agent = \<lparr>ac_Tick = or_old (fl_tick f) (ac_Tick (cf_Agent c)),
         ac_SyncInterval = or_old (fl_sync_interval f) (ac_SyncInterval (cf_Agent c))\<rparr>\<rparr>)"

text \<open>
  The letters are lowered as ASCII: a letter outside ASCII does not become one of the letters
  of the two names that are compared with.
\<close>

definition profile_of :: "string \<Rightarrow> string" where
  "profile_of p =
     (let profile = map ascii_lower (TrimSpace p);
          profile = (if profile = [] then ''lan'' else profile)
      in if profile \<noteq> ''lan'' \<and> profile \<noteq> ''wan'' then ''lan'' else profile)"

definition Enabled :: "tls_files \<Rightarrow> bool" where
  "Enabled t \<longleftrightarrow> tl_CAFile t \<noteq> [] \<or> tl_CertFile t \<noteq> [] \<or> tl_KeyFile t \<noteq> []"

definition Validate :: "tls_files \<Rightarrow> error option" where
  "Validate t =
     (if tl_CAFile t = [] \<or> tl_CertFile t = [] \<or> tl_KeyFile t = []
      then Some (ErrMsg ''sync tls requires ca_file, cert_file, and key_file'') else None)"

fun compactList :: "string list \<Rightarrow> string list" where
  "compactList [] = []"
| "compactList (v # vs) = (let v = TrimSpace v in if v \<noteq> [] then v # compactList vs else compactList vs)"

section \<open>Addresses\<close>

record iface =
  if_up :: bool
  if_loopback :: bool
  if_addrs :: "ip option list option"

record host_net =
  hn_lookup :: "string \<Rightarrow> ip list option"
  hn_ifaces :: "iface list option"

definition advertisedAddr :: "string \<Rightarrow> string \<Rightarrow> string option" where
  "advertisedAddr listenAddr advertiseIP =
     (if listenAddr = [] then Some []
      else (case SplitHostPort listenAddr of
          None \<Rightarrow> None
        | Some (host, port) \<Rightarrow>
            Some (JoinHostPort (if host \<in> {[], ''0.0.0.0'', ''::''} then advertiseIP else host) port)))"

definition usable_ip :: "ip \<Rightarrow> bool" where
  "usable_ip x \<longleftrightarrow> \<not> (IsLoopback x \<or> IsUnspecified x)"

fun first_v4 :: "ip list \<Rightarrow> string option" where
  "first_v4 [] = None"
| "first_v4 (x # xs) =
     (if \<not> usable_ip x then first_v4 xs else (case To4 x of Some b \<Rightarrow> Some (v4_String b) | None \<Rightarrow> first_v4 xs))"

fun first_any :: "ip list \<Rightarrow> string" where
  "first_any [] = []"
| "first_any (x # xs) = (if \<not> usable_ip x then first_any xs else ip_String x)"

definition resolveAdvertiseIP :: "host_net \<Rightarrow> string \<Rightarrow> string" where
  "resolveAdvertiseIP H v =
     (let host = TrimSpace v in
      if host = [] then []
      else (case ParseIP host of
          Some x \<Rightarrow> if \<not> usable_ip x then [] else ip_String x
        | None \<Rightarrow>
            (case hn_lookup H host of
               None \<Rightarrow> []
             | Some ips \<Rightarrow> (case first_v4 ips of Some t \<Rightarrow> t | None \<Rightarrow> first_any ips))))"

text \<open>An address of an interface that is not an IP network is \<^const>\<open>None\<close>.\<close>

fun iface_ip :: "ip option list \<Rightarrow> string option" where
  "iface_ip [] = None"
| "iface_ip (a # as) =
     (case a of
        None \<Rightarrow> iface_ip as
      | Some x \<Rightarrow> if \<not> usable_ip x then iface_ip as else (case To4 x of Some b \<Rightarrow> Some (v4_String b) | None \<Rightarrow> iface_ip as))"

fun ifaces_ip :: "iface list \<Rightarrow> string" where
  "ifaces_ip [] = []"
| "ifaces_ip (i # is) =
     (if \<not> if_up i \<or> if_loopback i then ifaces_ip is
      else (case if_addrs i of
          None \<Rightarrow> ifaces_ip is
        | Some as \<Rightarrow> (case iface_ip as of Some t \<Rightarrow> t | None \<Rightarrow> ifaces_ip is)))"

fun discoverAdvertiseIP :: "host_net \<Rightarrow> string list \<Rightarrow> string" where
  "discoverAdvertiseIP H [] = (case hn_ifaces H of None \<Rightarrow> [] | Some is \<Rightarrow> ifaces_ip is)"
| "discoverAdvertiseIP H (addr # addrs) =
     (case SplitHostPort addr of
        None \<Rightarrow> discoverAdvertiseIP H addrs
      | Some (host, _) \<Rightarrow>
          (let t = resolveAdvertiseIP H host in if t \<noteq> [] then t else discoverAdvertiseIP H addrs))"

definition addrExposed :: "host_net \<Rightarrow> string \<Rightarrow> bool" where
  "addrExposed H addr =
     (case SplitHostPort addr of
        None \<Rightarrow> False
      | Some (host, _) \<Rightarrow>
          (let host = TrimSpace host in
           if host \<in> {[], ''0.0.0.0'', ''::''} then True
           else (case ParseIP host of
               Some x \<Rightarrow> \<not> IsLoopback x
             | None \<Rightarrow>
                 if host = ''localhost'' then False
                 else (case hn_lookup H host of
                     None \<Rightarrow> True
                   | Some ips \<Rightarrow> list_ex (\<lambda>x. \<not> IsLoopback x) ips))))"

section \<open>Starting up\<close>

text \<open>
  What \<^verbatim>\<open>main\<close> has decided when it gets past its guards: the configuration, the profile, the
  addresses and the lists, and whether sync is encrypted.
\<close>

record plan =
  pl_config :: config
  pl_profile :: string
  pl_runnerIP :: string
  pl_advertised :: string
  pl_peers :: "string list"
  pl_seeds :: "string list"
  pl_tls :: tls_files

definition runner_ip :: "host_net \<Rightarrow> config \<Rightarrow> string" where
  "runner_ip H cfg =
     (let nw = cf_Network cfg;
          a = resolveAdvertiseIP H (nc_AdvertiseAddr nw);
          b = (if a = [] then discoverAdvertiseIP H [nc_SyncAddr nw, nc_HTTPAddr nw] else a)
      in if b = [] then ''127.0.0.1'' else b)"

definition refuse_sync :: "host_net \<Rightarrow> flags \<Rightarrow> config \<Rightarrow> bool" where
  "refuse_sync H f cfg \<longleftrightarrow>
     nc_SyncAddr (cf_Network cfg) \<noteq> [] \<and> addrExposed H (nc_SyncAddr (cf_Network cfg)) \<and>
     (length (compactList (cc_Peers (cf_Cluster cfg))) > 0 \<or> cc_Bind (cf_Cluster cfg) > 0) \<and>
     \<not> Enabled (nc_SyncTLS (cf_Network cfg)) \<and> \<not> fl_allow_insecure_sync f"

definition refuse_gossip :: "flags \<Rightarrow> config \<Rightarrow> bool" where
  "refuse_gossip f cfg \<longleftrightarrow>
     cc_Bind (cf_Cluster cfg) > 0 \<and> profile_of (cc_Profile (cf_Cluster cfg)) = ''wan'' \<and>
     TrimSpace (cc_GossipKey (cf_Cluster cfg)) = [] \<and> \<not> fl_allow_insecure_gossip f"

definition refuse_pprof :: "config \<Rightarrow> bool" where
  "refuse_pprof cfg \<longleftrightarrow> nc_EnablePprof (cf_Network cfg) \<and> TrimSpace (nc_AdminToken (cf_Network cfg)) = []"

definition startup ::
  "(string \<Rightarrow> file_read) \<Rightarrow> (string \<Rightarrow> config \<Rightarrow> error + config) \<Rightarrow> host_net \<Rightarrow> flags \<Rightarrow> error + plan" where
  "startup fs yaml H f =
     (case (if fl_config f \<noteq> [] then Load fs yaml (fl_config f) Default else Inr Default) of
        Inl e \<Rightarrow> Inl e
      | Inr base \<Rightarrow>
          (let cfg = visit f base; nw = cf_Network cfg; ip = runner_ip H cfg in
           case advertisedAddr (nc_SyncAddr nw) ip of
             None \<Rightarrow> Inl (ErrMsg ''invalid sync address'')
           | Some adv \<Rightarrow>
               if Enabled (nc_SyncTLS nw) \<and> Validate (nc_SyncTLS nw) \<noteq> None then Inl (ErrMsg ''invalid sync tls config'')
               else if refuse_sync H f cfg then Inl (ErrMsg ''refusing insecure sync on non-loopback address'')
               else if refuse_gossip f cfg then Inl (ErrMsg ''refusing wan gossip without gossip key'')
               else if refuse_pprof cfg then Inl (ErrMsg ''refusing to enable pprof without admin token'')
               else Inr \<lparr>pl_config = cfg, pl_profile = profile_of (cc_Profile (cf_Cluster cfg)), pl_runnerIP = ip,
                         pl_advertised = adv, pl_peers = compactList (cc_Peers (cf_Cluster cfg)),
                         pl_seeds = compactList (cc_Join (cf_Cluster cfg)), pl_tls = nc_SyncTLS nw\<rparr>))"

definition plan_stub :: "plan \<Rightarrow> string \<Rightarrow> string \<Rightarrow> stub_config" where
  "plan_stub p hostname version =
     \<lparr>sc_NodeID = cc_NodeID (cf_Cluster (pl_config p)), sc_Hostname = hostname, sc_IP = pl_runnerIP p,
      sc_Region = ex_Region (cf_Execution (pl_config p)), sc_Version = version, sc_Capacity = ex_Capacity (cf_Execution (pl_config p))\<rparr>"

definition plan_cluster :: "codec \<Rightarrow> memberlist \<Rightarrow> plan \<Rightarrow> error + cluster option" where
  "plan_cluster C ml p =
     (let cl = cf_Cluster (pl_config p) in
      if cc_Bind cl > 0 then
        map_sum id Some (NewCluster C ml (cc_NodeID cl) (cc_Bind cl) (pl_runnerIP p) (pl_advertised p) (pl_profile p)
          (cc_GossipKey cl) (pl_seeds p))
      else Inr None)"

text \<open>
  The sync engine runs when there is someone to sync with; with a cluster the peers are its
  members at the time of a round (\<open>ms\<close>), else the configured ones.
\<close>

definition peer_provider :: "codec \<Rightarrow> plan \<Rightarrow> cluster option \<Rightarrow> (unit \<Rightarrow> ml_node list) \<Rightarrow> (unit \<Rightarrow> string list) option" where
  "peer_provider C p cl ms =
     (if length (pl_peers p) > 0 \<or> cl \<noteq> None then
        Some (case cl of
            Some c \<Rightarrow> (\<lambda>_. map mb_SyncAddr (Members C (mc_Name (cl_config c)) (ms ())))
          | None \<Rightarrow> (\<lambda>_. pl_peers p))
      else None)"


section \<open>Guards\<close>

lemma startup_Inr:
  assumes "startup fs yaml H f = Inr p"
  shows "pl_profile p = profile_of (cc_Profile (cf_Cluster (pl_config p)))"
    "pl_peers p = compactList (cc_Peers (cf_Cluster (pl_config p)))" "pl_seeds p = compactList (cc_Join (cf_Cluster (pl_config p)))"
    "pl_tls p = nc_SyncTLS (cf_Network (pl_config p))" "pl_runnerIP p = runner_ip H (pl_config p)"
    "advertisedAddr (nc_SyncAddr (cf_Network (pl_config p))) (pl_runnerIP p) = Some (pl_advertised p)"
    "Enabled (pl_tls p) \<Longrightarrow> Validate (pl_tls p) = None" "\<not> refuse_sync H f (pl_config p)" "\<not> refuse_gossip f (pl_config p)"
    "\<not> refuse_pprof (pl_config p)"
  using assms unfolding startup_def Let_def
  by (simp_all only: sum.case split: sum.splits option.splits if_splits) auto


definition no_flags :: flags where
  "no_flags = \<lparr>fl_config = ''takl.yaml'', fl_node_id = None, fl_http_addr = None, fl_sync_addr = None, fl_advertise_addr = None,
     fl_admin_token = None, fl_enable_pprof = None, fl_peers = None, fl_bind = None, fl_join = None, fl_cluster_profile = None,
     fl_gossip_key = None, fl_tls_ca = None, fl_tls_cert = None, fl_tls_key = None, fl_allow_insecure_sync = False,
     fl_allow_insecure_gossip = False, fl_db = None, fl_capacity = None, fl_region = None, fl_tick = None, fl_sync_interval = None\<rparr>"

definition offline :: host_net where
  "offline = \<lparr>hn_lookup = (\<lambda>_. None), hn_ifaces = None\<rparr>"

lemma visit_no_flags [simp]: "visit no_flags c = c"
  by (simp add: visit_def no_flags_def or_old_def Let_def)

lemma no_flags_sel [simp]:
  "fl_config no_flags = ''takl.yaml''" "fl_allow_insecure_sync no_flags = False" "fl_allow_insecure_gossip no_flags = False"
  by (simp_all add: no_flags_def)

text \<open>\<^verbatim>\<open>takl.yaml.example\<close>\<close>

definition example_config :: config where
  "example_config = \<lparr>
     cf_Cluster = \<lparr>cc_NodeID = ''node-1'', cc_Bind = 7946, cc_Join = [], cc_Peers = [], cc_Profile = ''lan'', cc_GossipKey = []\<rparr>,
     cf_Network = \<lparr>nc_HTTPAddr = ''0.0.0.0:8090'', nc_SyncAddr = ''0.0.0.0:8100'', nc_AdvertiseAddr = [], nc_AdminToken = [],
       nc_EnablePprof = False, nc_SyncTLS = \<lparr>tl_CAFile = [], tl_CertFile = [], tl_KeyFile = []\<rparr>\<rparr>,
     cf_Storage = \<lparr>st_DBPath = ''takl.db''\<rparr>,
     cf_Execution = \<lparr>ex_Capacity = 4, ex_Region = ''us-east-1''\<rparr>,
     cf_Agent = \<lparr>ac_Tick = second, ac_SyncInterval = 2 * second\<rparr>\<rparr>"

lemma example_split: "SplitHostPort ''0.0.0.0:8100'' = Some (''0.0.0.0'', ''8100'')"
  by (simp add: SplitHostPort_def last_colon_def)

lemma example_exposed: "addrExposed H ''0.0.0.0:8100''"
proof -
  have "TrimSpace ''0.0.0.0'' = ''0.0.0.0''" by (rule TrimSpace_graphic) (auto simp: graphic_def)
  then show ?thesis by (simp add: addrExposed_def example_split)
qed

lemma profile_lan: "profile_of ''lan'' = ''lan''"
proof -
  have "TrimSpace ''lan'' = ''lan''" by (rule TrimSpace_graphic) (auto simp: graphic_def)
  then show ?thesis by (simp add: profile_of_def ascii_lower_def less_eq_char_def)
qed

definition secured_config :: config where
  "secured_config = example_config\<lparr>cf_Network := (cf_Network example_config)\<lparr>
     nc_SyncTLS := \<lparr>tl_CAFile = ''ca'', tl_CertFile = ''crt'', tl_KeyFile = ''key''\<rparr>\<rparr>\<rparr>"

lemma secured_starts:
  "\<exists>p. startup (\<lambda>_. Content []) (\<lambda>_ _. Inr secured_config) offline no_flags = Inr p \<and> pl_config p = secured_config"
proof -
  have "nc_SyncAddr (cf_Network secured_config) = ''0.0.0.0:8100''" "Enabled (nc_SyncTLS (cf_Network secured_config))"
    "Validate (nc_SyncTLS (cf_Network secured_config)) = None" "\<not> refuse_pprof secured_config" "\<not> refuse_gossip no_flags secured_config"
    by (simp_all add: secured_config_def example_config_def Enabled_def Validate_def refuse_pprof_def refuse_gossip_def profile_lan)
  then show ?thesis
    by (simp add: startup_def Load_def Let_def advertisedAddr_def example_split refuse_sync_def)
qed


text \<open>
  The configuration file shipped as an example does not start: it listens for sync on every
  address with gossip on and no TLS files, which the guard refuses.
\<close>
theorem example_config_refused:
  "startup (\<lambda>_. Content b) (\<lambda>_ _. Inr example_config) H no_flags = Inl (ErrMsg ''refusing insecure sync on non-loopback address'')"
proof -
  have c: "nc_SyncAddr (cf_Network example_config) = ''0.0.0.0:8100''" "\<not> Enabled (nc_SyncTLS (cf_Network example_config))"
    "cc_Bind (cf_Cluster example_config) > 0"
    by (simp_all add: example_config_def Enabled_def)
  then show ?thesis
    by (simp add: startup_def Load_def Let_def advertisedAddr_def example_split refuse_sync_def example_exposed)
qed


section \<open>The advertised address\<close>

definition net_wf :: "host_net \<Rightarrow> bool" where
  "net_wf H \<longleftrightarrow> (\<forall>h ips. hn_lookup H h = Some ips \<longrightarrow> (\<forall>x \<in> set ips. ip_wf x)) \<and>
     (\<forall>is i as x. hn_ifaces H = Some is \<and> i \<in> set is \<and> if_addrs i = Some as \<and> Some x \<in> set as \<longrightarrow> ip_wf x)"

lemma To4_host_text: "ip_wf x \<Longrightarrow> usable_ip x \<Longrightarrow> To4 x = Some b \<Longrightarrow> host_text (v4_String b)"
  using ip_host_text [of x] by (auto simp: usable_ip_def ip_String_def)

lemma resolve_host_text:
  assumes "net_wf H" "resolveAdvertiseIP H v \<noteq> []"
  shows "host_text (resolveAdvertiseIP H v)"
proof -
  have v4: "first_v4 ips = Some t \<Longrightarrow> \<forall>x \<in> set ips. ip_wf x \<Longrightarrow> host_text t" for ips t
    by (induction ips) (auto split: if_splits option.splits intro: To4_host_text)
  have any: "first_any ips \<noteq> [] \<Longrightarrow> \<forall>x \<in> set ips. ip_wf x \<Longrightarrow> host_text (first_any ips)" for ips
    by (induction ips) (auto simp: usable_ip_def split: if_splits intro: ip_host_text)
  show ?thesis
  proof (cases "ParseIP (TrimSpace v)")
    case (Some x)
    then show ?thesis
      using assms(2) ParseIP_wf [OF Some] by (auto simp: resolveAdvertiseIP_def Let_def usable_ip_def split: if_splits intro: ip_host_text)
  next
    case None
    then show ?thesis
      using assms v4 any unfolding net_wf_def resolveAdvertiseIP_def Let_def
      by (auto split: if_splits option.splits)
  qed
qed

lemma discover_host_text:
  assumes "net_wf H"
  shows "discoverAdvertiseIP H addrs \<noteq> [] \<Longrightarrow> host_text (discoverAdvertiseIP H addrs)"
proof (induction addrs)
  case Nil
  have one: "iface_ip as = Some t \<Longrightarrow> \<forall>x. Some x \<in> set as \<longrightarrow> ip_wf x \<Longrightarrow> host_text t" for as t
    by (induction as) (auto split: if_splits option.splits intro: To4_host_text)
  have "ifaces_ip is \<noteq> [] \<Longrightarrow> \<forall>i as x. i \<in> set is \<and> if_addrs i = Some as \<and> Some x \<in> set as \<longrightarrow> ip_wf x \<Longrightarrow> host_text (ifaces_ip is)" for "is"
    by (induction "is") (auto split: if_splits option.splits intro: one)
  then show ?case using Nil assms by (auto simp: net_wf_def split: option.splits)
next
  case (Cons a addrs)
  then show ?case using resolve_host_text [OF assms] by (auto simp: Let_def split: option.splits if_splits)
qed

lemma runner_ip_host_text: "net_wf H \<Longrightarrow> host_text (runner_ip H cfg)"
  using resolve_host_text discover_host_text by (auto simp: runner_ip_def Let_def host_text_def [of "''127.0.0.1''"] simp del: discoverAdvertiseIP.simps)

lemma last_colon_Some: "last_colon s = Some (b, p) \<Longrightarrow> s = b @ '':'' @ p \<and> CHR '':'' \<notin> set p"
proof -
  assume "last_colon s = Some (b, p)"
  then have c: "CHR '':'' \<in> set s" and b: "b = rev (drop 1 (dropWhile (\<lambda>c. c \<noteq> CHR '':'') (rev s)))"
    and p: "p = rev (takeWhile (\<lambda>c. c \<noteq> CHR '':'') (rev s))"
    by (auto simp: last_colon_def split: if_splits)
  obtain ys where "dropWhile (\<lambda>c. c \<noteq> CHR '':'') (rev s) = CHR '':'' # ys"
    using c by (cases "dropWhile (\<lambda>c. c \<noteq> CHR '':'') (rev s)") (auto simp: dropWhile_eq_Nil_conv dropWhile_eq_Cons_conv)
  then have "rev s = rev p @ CHR '':'' # rev b" using takeWhile_dropWhile_id [of "\<lambda>c. c \<noteq> CHR '':''" "rev s"] b p by simp
  then have "s = b @ '':'' @ p" by (metis append.assoc append_Cons append_Nil rev.simps(2) rev_append rev_rev_ident)
  then show ?thesis using p by (auto dest: set_takeWhileD)
qed

lemma SplitHostPort_chars:
  assumes "SplitHostPort s = Some (h, p)"
  shows "CHR ''['' \<notin> set h" "CHR '']'' \<notin> set h" "CHR ''['' \<notin> set p" "CHR '']'' \<notin> set p" "CHR '':'' \<notin> set p"
proof -
  obtain b where l: "last_colon s = Some (b, p)"
    using assms by (auto simp: SplitHostPort_def Let_def split: option.splits prod.splits if_splits)
  note s = last_colon_Some [OF l]
  then show "CHR '':'' \<notin> set p" by simp
  show "CHR ''['' \<notin> set h" "CHR '']'' \<notin> set h" "CHR ''['' \<notin> set p" "CHR '']'' \<notin> set p"
    using assms s l by (auto simp: SplitHostPort_def Let_def split: if_splits dest: set_takeWhileD)
qed




end
