(* ===== verification/Pki.thy ===== *)
theory Pki
  imports X509_Lib Takld
begin

text \<open>
  The certificates of the cluster: \<^verbatim>\<open>taklctl ca init\<close> and \<^verbatim>\<open>taklctl ca issue\<close> of
  \<^verbatim>\<open>cmd/taklctl/main.go\<close>, which make them, and \<^verbatim>\<open>internal/transport/tls.go\<close>, which loads them for the
  two sides of a sync connection. The randomness, the time and the refusals of the operating
  system are arguments.
\<close>

section \<open>Making certificates\<close>

record ca_env =
  ce_now :: int
  ce_key :: "error + nat"
  ce_serial :: "error + int"
  ce_utf8 :: "string \<Rightarrow> bool"
  ce_mkdir :: "string \<Rightarrow> error option"
  ce_open :: "string \<Rightarrow> error option"
  ce_write :: "string \<Rightarrow> error option"

definition hour :: int where
  "hour = 3600000000000"

text \<open>\<^verbatim>\<open>time.Duration(days) * 24 * time.Hour\<close>\<close>

definition day_span :: "int \<Rightarrow> int" where
  "day_span days = wrap64 (wrap64 (days * 24) * hour)"

text \<open>
  \<^verbatim>\<open>writePEM\<close> empties the file before it writes; the mode is that of a file which exists already.
\<close>

definition writePEM :: "ca_env \<Rightarrow> string \<Rightarrow> string \<Rightarrow> der \<Rightarrow> nat \<Rightarrow> fsys \<Rightarrow> error option \<times> fsys" where
  "writePEM E path pemType d perm fs =
     (case ce_open E path of
        Some e \<Rightarrow> (Some e, fs)
      | None \<Rightarrow>
          (let mode = (case fs path of None \<Rightarrow> perm | Some f \<Rightarrow> fl_mode f) in
           case ce_write E path of
             Some e \<Rightarrow> (Some e, fs(path \<mapsto> \<lparr>fl_blocks = [], fl_mode = mode\<rparr>))
           | None \<Rightarrow> (None, fs(path \<mapsto> \<lparr>fl_blocks = [(pemType, d)], fl_mode = mode\<rparr>))))"

text \<open>The certificate first, with mode 0644, then the key, with mode 0600; the two paths are printed.\<close>

definition write_pair :: "ca_env \<Rightarrow> string \<Rightarrow> string \<Rightarrow> x509 \<Rightarrow> nat \<Rightarrow> fsys \<Rightarrow> (error + string list) \<times> fsys" where
  "write_pair E certOut keyOut c key fs =
     (case writePEM E certOut ''CERTIFICATE'' (DCert c) 420 fs of
        (Some e, fs1) \<Rightarrow> (Inl e, fs1)
      | (None, fs1) \<Rightarrow>
          (case writePEM E keyOut ''EC PRIVATE KEY'' (DKey key) 384 fs1 of
             (Some e, fs2) \<Rightarrow> (Inl e, fs2)
           | (None, fs2) \<Rightarrow> (Inr [certOut, keyOut], fs2)))"

definition ca_template :: "ca_env \<Rightarrow> int \<Rightarrow> string \<Rightarrow> int \<Rightarrow> template" where
  "ca_template E serial cn days =
     \<lparr>ct_Serial = serial, ct_Subject = \<lparr>nm_CommonName = cn, nm_Organization = [''takl'']\<rparr>,
      ct_NotBefore = ce_now E - hour, ct_NotAfter = ce_now E + day_span days,
      ct_KeyUsage = [CertSign, CRLSign], ct_ExtKeyUsage = [], ct_BasicConstraintsValid = True, ct_IsCA = True,
      ct_IPAddresses = [], ct_DNSNames = []\<rparr>"

definition caInit :: "ca_env \<Rightarrow> string \<Rightarrow> string \<Rightarrow> int \<Rightarrow> fsys \<Rightarrow> (error + string list) \<times> fsys" where
  "caInit E outDir cn days fs =
     (if days \<le> 0 then (Inl (ErrMsg ''days must be > 0''), fs)
      else (case ce_mkdir E outDir of
          Some e \<Rightarrow> (Inl e, fs)
        | None \<Rightarrow>
            (case ce_key E of
               Inl e \<Rightarrow> (Inl e, fs)
             | Inr key \<Rightarrow>
                 (case ce_serial E of
                    Inl e \<Rightarrow> (Inl e, fs)
                  | Inr serial \<Rightarrow>
                      (let tpl = ca_template E serial cn days in
                       case CreateCertificate (ce_utf8 E) tpl (ct_Subject tpl) None key key of
                         Inl e \<Rightarrow> (Inl e, fs)
                       | Inr c \<Rightarrow> write_pair E (Join outDir ''ca.crt'') (Join outDir ''ca.key'') c key fs)))))"

definition loadCA :: "ca_env \<Rightarrow> fsys \<Rightarrow> string \<Rightarrow> string \<Rightarrow> error + x509 \<times> nat" where
  "loadCA E fs caCertPath caKeyPath =
     (case read_file (ce_open E) fs caCertPath of
        Inl e \<Rightarrow> Inl e
      | Inr certPEM \<Rightarrow>
          (case pem_Decode certPEM of
             None \<Rightarrow> Inl (ErrMsg ''invalid ca cert pem'')
           | Some cb \<Rightarrow>
               if fst cb \<noteq> ''CERTIFICATE'' then Inl (ErrMsg ''invalid ca cert pem'')
               else (case ParseCertificate (snd cb) of
                   Inl e \<Rightarrow> Inl e
                 | Inr cert \<Rightarrow>
                     (case read_file (ce_open E) fs caKeyPath of
                        Inl e \<Rightarrow> Inl e
                      | Inr keyPEM \<Rightarrow>
                          (case pem_Decode keyPEM of
                             None \<Rightarrow> Inl (ErrMsg ''invalid ca key pem'')
                           | Some kb \<Rightarrow> map_sum id (\<lambda>k. (cert, k)) (ParseECPrivateKey (snd kb)))))))"

fun parse_ips :: "string list \<Rightarrow> ip list \<Rightarrow> error + ip list" where
  "parse_ips [] out = Inr out"
| "parse_ips (v # vs) out =
     (case ParseIP v of None \<Rightarrow> Inl (ErrMsg (''invalid ip: '' @ v)) | Some x \<Rightarrow> parse_ips vs (out @ [x]))"

definition leaf_template :: "ca_env \<Rightarrow> int \<Rightarrow> string \<Rightarrow> int \<Rightarrow> ip list \<Rightarrow> string list \<Rightarrow> template" where
  "leaf_template E serial node days ips dns =
     \<lparr>ct_Serial = serial, ct_Subject = \<lparr>nm_CommonName = node, nm_Organization = [''takl'']\<rparr>,
      ct_NotBefore = ce_now E - hour, ct_NotAfter = ce_now E + day_span days,
      ct_KeyUsage = [DigitalSignature, KeyEncipherment], ct_ExtKeyUsage = [ServerAuth, ClientAuth],
      ct_BasicConstraintsValid = True, ct_IsCA = False, ct_IPAddresses = ips, ct_DNSNames = dns\<rparr>"

definition caIssue ::
  "ca_env \<Rightarrow> string \<Rightarrow> string \<Rightarrow> string \<Rightarrow> string \<Rightarrow> string list \<Rightarrow> string list \<Rightarrow> int \<Rightarrow> fsys \<Rightarrow> (error + string list) \<times> fsys" where
  "caIssue E caCertPath caKeyPath outDir node ips dns days fs =
     (if days \<le> 0 then (Inl (ErrMsg ''days must be > 0''), fs)
      else (case ce_mkdir E outDir of
          Some e \<Rightarrow> (Inl e, fs)
        | None \<Rightarrow>
            (case loadCA E fs caCertPath caKeyPath of
               Inl e \<Rightarrow> (Inl e, fs)
             | Inr (caCert, caKey) \<Rightarrow>
                 (case ce_key E of
                    Inl e \<Rightarrow> (Inl e, fs)
                  | Inr key \<Rightarrow>
                      (case ce_serial E of
                         Inl e \<Rightarrow> (Inl e, fs)
                       | Inr serial \<Rightarrow>
                           (case parse_ips ips [] of
                              Inl e \<Rightarrow> (Inl e, fs)
                            | Inr xs \<Rightarrow>
                                (case CreateCertificate (ce_utf8 E) (leaf_template E serial node days xs dns)
                                        (ct_Subject caCert) (Some (ct_PublicKey caCert)) key caKey of
                                   Inl e \<Rightarrow> (Inl e, fs)
                                 | Inr c \<Rightarrow> write_pair E (Join outDir (node @ ''.crt'')) (Join outDir (node @ ''.key'')) c key fs)))))))"

text \<open>
  \<^verbatim>\<open>runCA\<close>: what the flag package makes of the arguments after the command is \<open>parse\<close>; a flag that
  was not given is \<^const>\<open>None\<close>.
\<close>

record ca_flags =
  cg_out_dir :: "string option"
  cg_cn :: "string option"
  cg_days :: "int option"
  cg_ca_cert :: "string option"
  cg_ca_key :: "string option"
  cg_node :: "string option"
  cg_ips :: "string option"
  cg_dns :: "string option"

fun csv_loop :: "string list \<Rightarrow> string list \<Rightarrow> string list" where
  "csv_loop [] out = out"
| "csv_loop (p # ps) out = (let p = TrimSpace p in csv_loop ps (if p \<noteq> [] then out @ [p] else out))"

definition splitCSV :: "string \<Rightarrow> string list" where
  "splitCSV s = (if TrimSpace s = [] then [] else csv_loop (Split (CHR '','') s) [])"

definition runCA ::
  "ca_env \<Rightarrow> (string \<Rightarrow> string list \<Rightarrow> error + ca_flags) \<Rightarrow> string list \<Rightarrow> fsys \<Rightarrow> (error + string list) \<times> fsys" where
  "runCA E parse args fs =
     (case args of
        [] \<Rightarrow> (Inl (ErrMsg ''usage: taklctl ca <init|issue>''), fs)
      | a # rest \<Rightarrow>
          if a = ''init'' then
            (case parse a rest of
               Inl e \<Rightarrow> (Inl e, fs)
             | Inr f \<Rightarrow> caInit E (or_old (cg_out_dir f) ''.'') (or_old (cg_cn f) ''takl-ca'') (or_old (cg_days f) 3650) fs)
          else if a = ''issue'' then
            (case parse a rest of
               Inl e \<Rightarrow> (Inl e, fs)
             | Inr f \<Rightarrow>
                 (let cert = or_old (cg_ca_cert f) []; key = or_old (cg_ca_key f) []; node = or_old (cg_node f) [] in
                  if TrimSpace cert = [] \<or> TrimSpace key = [] \<or> TrimSpace node = [] then (Inl (ErrMsg ''usage: taklctl ca issue''), fs)
                  else caIssue E cert key (or_old (cg_out_dir f) ''.'') node (splitCSV (or_old (cg_ips f) []))
                         (splitCSV (or_old (cg_dns f) [])) (or_old (cg_days f) 365) fs))
          else (Inl (ErrMsg (''unknown ca command: '' @ a)), fs))"

section \<open>Loading them\<close>

definition load_pool :: "(string \<Rightarrow> error option) \<Rightarrow> fsys \<Rightarrow> tls_files \<Rightarrow> error + (x509 \<times> nat) \<times> x509 list" where
  "load_pool denied fs files =
     (case Validate files of
        Some e \<Rightarrow> Inl e
      | None \<Rightarrow>
          (case LoadX509KeyPair denied fs (tl_CertFile files) (tl_KeyFile files) of
             Inl e \<Rightarrow> Inl e
           | Inr pair \<Rightarrow>
               (case read_file denied fs (tl_CAFile files) of
                  Inl e \<Rightarrow> Inl e
                | Inr caPEM \<Rightarrow>
                    (let pool = AppendCertsFromPEM caPEM in
                     if pool = [] then Inl (ErrMsg ''failed to parse CA file'') else Inr (pair, pool)))))"

definition LoadServerTLSCredentials :: "(string \<Rightarrow> error option) \<Rightarrow> fsys \<Rightarrow> tls_files \<Rightarrow> error + tls_config" where
  "LoadServerTLSCredentials denied fs files =
     map_sum id (\<lambda>((c, k), pool). \<lparr>tc_MinVersion = 13, tc_Leaf = c, tc_Key = k, tc_RootCAs = [], tc_ClientCAs = pool,
       tc_RequireClient = True\<rparr>) (load_pool denied fs files)"

definition LoadClientTLSCredentials :: "(string \<Rightarrow> error option) \<Rightarrow> fsys \<Rightarrow> tls_files \<Rightarrow> error + tls_config" where
  "LoadClientTLSCredentials denied fs files =
     map_sum id (\<lambda>((c, k), pool). \<lparr>tc_MinVersion = 13, tc_Leaf = c, tc_Key = k, tc_RootCAs = pool, tc_ClientCAs = [],
       tc_RequireClient = False\<rparr>) (load_pool denied fs files)"

text \<open>What \<^verbatim>\<open>main\<close> of the daemon loads: the client's and the server's side, or neither.\<close>

definition plan_creds :: "(string \<Rightarrow> error option) \<Rightarrow> fsys \<Rightarrow> plan \<Rightarrow> error + (tls_config \<times> tls_config) option" where
  "plan_creds denied fs p =
     (if Enabled (pl_tls p) then
        (case LoadClientTLSCredentials denied fs (pl_tls p) of
           Inl e \<Rightarrow> Inl e
         | Inr cli \<Rightarrow> map_sum id (\<lambda>srv. Some (cli, srv)) (LoadServerTLSCredentials denied fs (pl_tls p)))
      else Inr None)"

section \<open>Paths of the files\<close>

lemma join_with_last: "xs \<noteq> [] \<Longrightarrow> last xs \<noteq> [] \<Longrightarrow> last (join_with c xs) = last (last xs) \<and> join_with c xs \<noteq> []"
proof (induction c xs rule: join_with.induct)
  case (3 c x y xs)
  then show ?case by (auto simp: last_append)
qed simp_all

lemma Split_suffix: "c \<notin> set ys \<Longrightarrow> Split c (xs @ ys) = butlast (Split c xs) @ [last (Split c xs) @ ys]"
proof (induction xs)
  case Nil
  then show ?case by (simp add: Split_single)
next
  case (Cons x xs)
  then show ?case by (cases "Split c xs") (auto split: list.splits)
qed

lemma Clean_last:
  assumes "CHR ''/'' \<notin> set e" "length e > 2" "\<exists>p'. p = p' @ e"
  shows "last (Clean p) = last e"
proof -
  obtain p' where p: "p = p' @ e" using assms(3) by blast
  let ?l = "last (Split (CHR ''/'') p') @ e"
  let ?out = "fold (clean_elem (take 1 p = ''/'')) (butlast (Split (CHR ''/'') p')) []"
  have ne: "e \<noteq> []" using assms(2) by auto
  have l: "?l \<noteq> []" "?l \<noteq> ''.''" "?l \<noteq> ''..''" using assms(2) by (auto dest: arg_cong [of _ _ length])
  have "fold (clean_elem (take 1 p = ''/'')) (Split (CHR ''/'') p) [] = ?out @ [?l]"
    using l by (simp add: p Split_suffix [OF assms(1)] clean_elem_def)
  moreover have "last (join_with (CHR ''/'') (?out @ [?l])) = last e \<and> join_with (CHR ''/'') (?out @ [?l]) \<noteq> []"
    using join_with_last [of "?out @ [?l]" "CHR ''/''"] ne by simp
  ultimately show ?thesis by (cases "take 1 p = ''/''") (simp_all add: Clean_def Let_def)
qed

lemma Join_last: "CHR ''/'' \<notin> set e \<Longrightarrow> length e > 2 \<Longrightarrow> last (Join dir (name @ e)) = last e"
  using Clean_last [of e "(if dir = [] then name else dir @ CHR ''/'' # name) @ e"] by (simp add: Join_def split: if_splits)

lemma crt_key_differ [simp]: "Join d (a @ ''.crt'') \<noteq> Join d' (b @ ''.key'')" "Join d (a @ ''.key'') \<noteq> Join d' (b @ ''.crt'')"
  using Join_last [of "''.crt''" d a] Join_last [of "''.key''" d' b] Join_last [of "''.key''" d a] Join_last [of "''.crt''" d' b] by force+


section \<open>What the commands leave on disk\<close>

definition holds :: "fsys \<Rightarrow> string \<Rightarrow> pem_block \<Rightarrow> bool" where
  "holds fs p b \<longleftrightarrow> map_option fl_blocks (fs p) = Some [b]"

lemma write_pair_Inr:
  assumes "write_pair E cf kf c k fs = (Inr out, fs')" "cf \<noteq> kf"
  shows "out = [cf, kf] \<and> holds fs' cf (''CERTIFICATE'', DCert c) \<and> holds fs' kf (''EC PRIVATE KEY'', DKey k) \<and>
    (\<forall>p. p \<notin> set out \<longrightarrow> fs' p = fs p)"
  using assms by (auto simp: write_pair_def writePEM_def holds_def Let_def split: option.splits prod.splits)

lemma CreateCertificate_Inr:
  "CreateCertificate enc t parent pk key signer = Inr c \<Longrightarrow>
     ct_Subject c = ct_Subject t \<and> ct_NotBefore c = cut_seconds (ct_NotBefore t) \<and> ct_NotAfter c = cut_seconds (ct_NotAfter t) \<and>
     ct_KeyUsage c = ct_KeyUsage t \<and> ct_ExtKeyUsage c = ct_ExtKeyUsage t \<and>
     ct_BasicConstraintsValid c = ct_BasicConstraintsValid t \<and> ct_IsCA c = ct_IsCA t \<and>
     ct_IPAddresses c = ct_IPAddresses t \<and> ct_DNSNames c = ct_DNSNames t \<and>
     ct_PublicKey c = key \<and> ct_Issuer c = parent \<and> ct_Signer c = signer"
  by (auto simp: CreateCertificate_def split: if_splits)

definition is_ca :: "ca_env \<Rightarrow> int \<Rightarrow> nat \<Rightarrow> x509 \<Rightarrow> bool" where
  "is_ca E days key c \<longleftrightarrow> ct_NotBefore c = cut_seconds (ce_now E - hour) \<and> ct_NotAfter c = cut_seconds (ce_now E + day_span days) \<and>
     ct_KeyUsage c = [CertSign, CRLSign] \<and> ct_ExtKeyUsage c = [] \<and> ct_BasicConstraintsValid c \<and> ct_IsCA c \<and>
     ct_PublicKey c = key \<and> ct_Signer c = key"

lemma caInit_Inr:
  assumes "caInit E dir cn days fs = (Inr out, fs')"
  shows "\<exists>key c. ce_key E = Inr key \<and> is_ca E days key c \<and> out = [Join dir ''ca.crt'', Join dir ''ca.key''] \<and> 0 < days \<and>
    holds fs' (out ! 0) (''CERTIFICATE'', DCert c) \<and> holds fs' (out ! 1) (''EC PRIVATE KEY'', DKey key) \<and>
    (\<forall>p. p \<notin> set out \<longrightarrow> fs' p = fs p)"
proof -
  obtain key serial c where k: "ce_key E = Inr key" "0 < days"
      "CreateCertificate (ce_utf8 E) (ca_template E serial cn days) (ct_Subject (ca_template E serial cn days)) None key key = Inr c"
      "write_pair E (Join dir ''ca.crt'') (Join dir ''ca.key'') c key fs = (Inr out, fs')"
    using assms by (auto simp: caInit_def Let_def split: if_splits option.splits sum.splits)
  show ?thesis
    using write_pair_Inr [OF k(4)] crt_key_differ(1) [of dir "''ca''" dir "''ca''"] CreateCertificate_Inr [OF k(3)] k(1,2)
    by (auto simp: is_ca_def ca_template_def)
qed

definition is_leaf :: "ca_env \<Rightarrow> int \<Rightarrow> ip list \<Rightarrow> string list \<Rightarrow> nat \<Rightarrow> x509 \<Rightarrow> nat \<Rightarrow> x509 \<Rightarrow> bool" where
  "is_leaf E days xs dns key ca caKey c \<longleftrightarrow>
     ct_NotBefore c = cut_seconds (ce_now E - hour) \<and> ct_NotAfter c = cut_seconds (ce_now E + day_span days) \<and>
     ct_ExtKeyUsage c = [ServerAuth, ClientAuth] \<and> ct_IPAddresses c = xs \<and> ct_DNSNames c = dns \<and>
     ct_PublicKey c = key \<and> ct_Issuer c = ct_Subject ca \<and> ct_Signer c = caKey"

lemma loadCA_holds:
  assumes "loadCA E fs cf kf = Inr r" "holds fs cf (''CERTIFICATE'', DCert ca)" "holds fs kf (''EC PRIVATE KEY'', DKey k)"
  shows "r = (ca, k)"
  using assms
  by (auto simp: loadCA_def holds_def read_file_def pem_Decode_def ParseCertificate_def ParseECPrivateKey_def
      split: option.splits sum.splits if_splits)

lemma caIssue_Inr:
  assumes "caIssue E cf kf dir node ips dns days fs = (Inr out, fs')"
    and "holds fs cf (''CERTIFICATE'', DCert ca)" "holds fs kf (''EC PRIVATE KEY'', DKey caKey)"
  shows "\<exists>key c xs. parse_ips ips [] = Inr xs \<and> is_leaf E days xs dns key ca caKey c \<and>
    out = [Join dir (node @ ''.crt''), Join dir (node @ ''.key'')] \<and>
    holds fs' (out ! 0) (''CERTIFICATE'', DCert c) \<and> holds fs' (out ! 1) (''EC PRIVATE KEY'', DKey key) \<and>
    (\<forall>p. p \<notin> set out \<longrightarrow> fs' p = fs p)"
proof -
  obtain r where r: "loadCA E fs cf kf = Inr r"
    using assms(1) by (auto simp: caIssue_def split: if_splits option.splits sum.splits)
  note l = r [unfolded loadCA_holds [OF r assms(2,3)]]
  obtain key serial xs c where k: "parse_ips ips [] = Inr xs"
      "CreateCertificate (ce_utf8 E) (leaf_template E serial node days xs dns) (ct_Subject ca) (Some (ct_PublicKey ca)) key caKey = Inr c"
      "write_pair E (Join dir (node @ ''.crt'')) (Join dir (node @ ''.key'')) c key fs = (Inr out, fs')"
    using assms(1) l by (auto simp: caIssue_def split: if_splits option.splits sum.splits)
  show ?thesis
    using write_pair_Inr [OF k(3)] CreateCertificate_Inr [OF k(2)] k(1) by (auto simp: is_leaf_def leaf_template_def)
qed


section \<open>The two sides trust each other\<close>

lemma Join_ne [simp]: "Join d n \<noteq> []"
  by (simp add: Join_def Clean_def Let_def)

lemma load_pool_holds:
  assumes "holds fs cf (''CERTIFICATE'', DCert c)" "holds fs kf (''EC PRIVATE KEY'', DKey (ct_PublicKey c))"
    and "holds fs caf (''CERTIFICATE'', DCert ca)" "cf \<noteq> []" "kf \<noteq> []" "caf \<noteq> []"
    and "denied cf = None" "denied kf = None" "denied caf = None"
  shows "load_pool denied fs \<lparr>tl_CAFile = caf, tl_CertFile = cf, tl_KeyFile = kf\<rparr> = Inr ((c, ct_PublicKey c), [ca])"
  using assms
  by (auto simp: load_pool_def Validate_def LoadX509KeyPair_def read_file_def holds_def key_block_def starts_with_def
      ParseCertificate_def ParseECPrivateKey_def AppendCertsFromPEM_def split: option.splits)

lemma cut_seconds_le: "cut_seconds t \<le> t"
  by (simp add: cut_seconds_def minus_mod_eq_div_mult [symmetric])

lemma Verify_leaf:
  assumes "is_ca E days caKey ca" "is_leaf E' days' xs dns key ca caKey c" "in_time t ca" "in_time t c"
  shows "Verify [ca] t u c"
  using assms by (cases u) (auto simp: Verify_def is_ca_def is_leaf_def eku_ok_def CheckSignatureFrom_def)

definition valid_span :: "ca_env \<Rightarrow> int \<Rightarrow> int \<Rightarrow> bool" where
  "valid_span E days t \<longleftrightarrow> ce_now E - hour \<le> t \<and> t \<le> cut_seconds (ce_now E + day_span days)"

lemma in_time_span:
  "valid_span E days t \<Longrightarrow> ct_NotBefore c = cut_seconds (ce_now E - hour) \<Longrightarrow>
     ct_NotAfter c = cut_seconds (ce_now E + day_span days) \<Longrightarrow> in_time t c"
  using cut_seconds_le [of "ce_now E - hour"] by (simp add: valid_span_def in_time_def)

text \<open>
  C14. Certificates made with \<^verbatim>\<open>taklctl ca\<close> secure the sync connections. Let \<^verbatim>\<open>ca init\<close> and then
  \<^verbatim>\<open>ca issue\<close> for two nodes succeed, with no file written twice. Then the daemon of the first node
  loads its files as a server and that of the second as a client, and at any time in the validity
  of the three certificates their handshake succeeds exactly if the first certificate names the
  host that was dialled; so it never does when the certificate was issued without addresses and
  names. Whoever the server accepts has a certificate signed with the key of this authority.
\<close>
theorem ca_handshake:
  assumes "caInit E dir cn days fs0 = (Inr out, fs1)"
    and "caIssue Ea (out ! 0) (out ! 1) da na ips dns daysa fs1 = (Inr outa, fs2)"
    and "caIssue Eb (out ! 0) (out ! 1) db nb ipsb dnsb daysb fs2 = (Inr outb, fs3)"
    and "distinct (out @ outa @ outb)" "\<forall>p \<in> set (out @ outa @ outb). denied p = None"
    and "valid_span E days t" "valid_span Ea daysa t" "valid_span Eb daysb t"
  shows "\<exists>srv cli. LoadServerTLSCredentials denied fs3
        \<lparr>tl_CAFile = out ! 0, tl_CertFile = outa ! 0, tl_KeyFile = outa ! 1\<rparr> = Inr srv \<and>
      LoadClientTLSCredentials denied fs3 \<lparr>tl_CAFile = out ! 0, tl_CertFile = outb ! 0, tl_KeyFile = outb ! 1\<rparr> = Inr cli \<and>
      parse_ips ips [] = Inr (ct_IPAddresses (tc_Leaf srv)) \<and> ct_DNSNames (tc_Leaf srv) = dns \<and>
      (handshake t srv cli host \<longleftrightarrow> VerifyHostname (tc_Leaf srv) host) \<and>
      (ips = [] \<and> dns = [] \<longrightarrow> \<not> handshake t srv cli host) \<and>
      (\<forall>cli'. handshake t srv cli' host \<longrightarrow> Inr (ct_Signer (tc_Leaf cli')) = ce_key E)"
proof -
  obtain caKey ca where ca: "ce_key E = Inr caKey" "is_ca E days caKey ca" "out = [Join dir ''ca.crt'', Join dir ''ca.key'']"
      "holds fs1 (out ! 0) (''CERTIFICATE'', DCert ca)" "holds fs1 (out ! 1) (''EC PRIVATE KEY'', DKey caKey)"
    using caInit_Inr [OF assms(1)] by blast
  obtain ka a xs where a: "parse_ips ips [] = Inr xs" "is_leaf Ea daysa xs dns ka ca caKey a"
      "outa = [Join da (na @ ''.crt''), Join da (na @ ''.key'')]"
      "holds fs2 (outa ! 0) (''CERTIFICATE'', DCert a)" "holds fs2 (outa ! 1) (''EC PRIVATE KEY'', DKey ka)"
      "\<forall>p. p \<notin> set outa \<longrightarrow> fs2 p = fs1 p"
    using caIssue_Inr [OF assms(2) ca(4,5)] by blast
  have "holds fs2 (out ! 0) (''CERTIFICATE'', DCert ca)" "holds fs2 (out ! 1) (''EC PRIVATE KEY'', DKey caKey)"
    using ca(3-5) a(6) assms(4) by (auto simp: holds_def)
  from caIssue_Inr [OF assms(3) this] obtain kb b xsb where b: "is_leaf Eb daysb xsb dnsb kb ca caKey b"
      "outb = [Join db (nb @ ''.crt''), Join db (nb @ ''.key'')]"
      "holds fs3 (outb ! 0) (''CERTIFICATE'', DCert b)" "holds fs3 (outb ! 1) (''EC PRIVATE KEY'', DKey kb)"
      "\<forall>p. p \<notin> set outb \<longrightarrow> fs3 p = fs2 p"
    by blast
  have fs3: "holds fs3 (out ! 0) (''CERTIFICATE'', DCert ca)" "holds fs3 (outa ! 0) (''CERTIFICATE'', DCert a)"
      "holds fs3 (outa ! 1) (''EC PRIVATE KEY'', DKey ka)"
    using ca(3,4) a(3-6) b(5) assms(4) by (auto simp: holds_def)
  have key: "ct_PublicKey a = ka" "ct_PublicKey b = kb" using a(2) b(1) by (simp_all add: is_leaf_def)
  define srv where "srv = \<lparr>tc_MinVersion = 13, tc_Leaf = a, tc_Key = ka, tc_RootCAs = [], tc_ClientCAs = [ca], tc_RequireClient = True\<rparr>"
  define cli where "cli = \<lparr>tc_MinVersion = 13, tc_Leaf = b, tc_Key = kb, tc_RootCAs = [ca], tc_ClientCAs = [], tc_RequireClient = False\<rparr>"
  have load: "LoadServerTLSCredentials denied fs3 \<lparr>tl_CAFile = out ! 0, tl_CertFile = outa ! 0, tl_KeyFile = outa ! 1\<rparr> = Inr srv"
      "LoadClientTLSCredentials denied fs3 \<lparr>tl_CAFile = out ! 0, tl_CertFile = outb ! 0, tl_KeyFile = outb ! 1\<rparr> = Inr cli"
    unfolding LoadServerTLSCredentials_def LoadClientTLSCredentials_def
    by (subst load_pool_holds; use fs3 ca(3) a(3) b(2-4) key assms(5) in \<open>simp add: srv_def cli_def\<close>)+
  have "in_time t ca" "in_time t a" "in_time t b"
    using in_time_span assms(6-8) ca(2) a(2) b(1) unfolding is_ca_def is_leaf_def by blast+
  then have "Verify [ca] t ServerAuth a" "Verify [ca] t ClientAuth b"
    using Verify_leaf [OF ca(2)] a(2) b(1) by blast+
  then have shake: "handshake t srv cli host \<longleftrightarrow> VerifyHostname a host"
    using key b(1) by (auto simp: handshake_def srv_def cli_def is_leaf_def)
  have "ct_Signer (tc_Leaf cli') = caKey" if "handshake t srv cli' host" for cli'
    using that ca(2) by (auto simp: handshake_def srv_def Verify_def CheckSignatureFrom_def is_ca_def)
  moreover have "\<not> VerifyHostname a host" if "ips = []" "dns = []"
    using that a(1,2) by (auto simp: VerifyHostname_def is_leaf_def Let_def split: option.splits)
  ultimately show ?thesis
    using load shake a(1,2) ca(1) by (intro exI [of _ srv] exI [of _ cli]) (auto simp: srv_def is_leaf_def)
qed


definition ex_env :: "nat \<Rightarrow> ca_env" where
  "ex_env key = \<lparr>ce_now = 0, ce_key = Inr key, ce_serial = Inr 1, ce_utf8 = (\<lambda>_. True), ce_mkdir = (\<lambda>_. None),
     ce_open = (\<lambda>_. None), ce_write = (\<lambda>_. None)\<rparr>"

definition ex_pki :: "(error + string list) \<times> fsys" where
  "ex_pki = caInit (ex_env 1) ''pki'' ''takl-ca'' 30 (\<lambda>_. None)"

definition ex_issued :: "nat \<Rightarrow> string \<Rightarrow> fsys \<Rightarrow> (error + string list) \<times> fsys" where
  "ex_issued key node fs = caIssue (ex_env key) ''pki/ca.crt'' ''pki/ca.key'' ''pki'' node [''127.0.0.1''] [''localhost''] 30 fs"

lemma ex_pki_out: "fst ex_pki = Inr [''pki/ca.crt'', ''pki/ca.key'']"
  "fst (ex_issued 2 ''a'' (snd ex_pki)) = Inr [''pki/a.crt'', ''pki/a.key'']"
  "fst (ex_issued 3 ''b'' (snd (ex_issued 2 ''a'' (snd ex_pki)))) = Inr [''pki/b.crt'', ''pki/b.key'']"
  by code_simp+

lemma ex_localhost: "ct_DNSNames c = [''localhost''] \<Longrightarrow> VerifyHostname c ''localhost''"
proof -
  assume c: "ct_DNSNames c = [''localhost'']"
  have "ParseIP ''localhost'' = None" "map ascii_lower ''localhost'' = ''localhost''" "valid_host False ''localhost''"
    "valid_host True ''localhost''" "match_hosts ''localhost'' ''localhost''"
    by code_simp+
  then show ?thesis by (simp add: VerifyHostname_def c)
qed

theorem ca_handshake_witness:
  "let fs3 = snd (ex_issued 3 ''b'' (snd (ex_issued 2 ''a'' (snd ex_pki)))) in
   \<exists>srv cli. LoadServerTLSCredentials (\<lambda>_. None) fs3
        \<lparr>tl_CAFile = ''pki/ca.crt'', tl_CertFile = ''pki/a.crt'', tl_KeyFile = ''pki/a.key''\<rparr> = Inr srv \<and>
      LoadClientTLSCredentials (\<lambda>_. None) fs3
        \<lparr>tl_CAFile = ''pki/ca.crt'', tl_CertFile = ''pki/b.crt'', tl_KeyFile = ''pki/b.key''\<rparr> = Inr cli \<and>
      handshake 5 srv cli ''localhost''"
proof -
  let ?out = "[''pki/ca.crt'', ''pki/ca.key'']"
  obtain fs1 where 1: "caInit (ex_env 1) ''pki'' ''takl-ca'' 30 (\<lambda>_. None) = (Inr ?out, fs1)" "snd ex_pki = fs1"
    using ex_pki_out(1) by (metis ex_pki_def prod.collapse)
  obtain fs2 where 2: "caIssue (ex_env 2) (?out ! 0) (?out ! 1) ''pki'' ''a'' [''127.0.0.1''] [''localhost''] 30 fs1
      = (Inr [''pki/a.crt'', ''pki/a.key''], fs2)" "snd (ex_issued 2 ''a'' fs1) = fs2"
    using ex_pki_out(2) unfolding 1(2) ex_issued_def by (simp add: prod_eq_iff)
  obtain fs3 where 3: "caIssue (ex_env 3) (?out ! 0) (?out ! 1) ''pki'' ''b'' [''127.0.0.1''] [''localhost''] 30 fs2
      = (Inr [''pki/b.crt'', ''pki/b.key''], fs3)" "snd (ex_issued 3 ''b'' fs2) = fs3"
    using ex_pki_out(3) unfolding 1(2) ex_issued_def 2(2) [unfolded ex_issued_def] by (simp add: prod_eq_iff)
  have "valid_span (ex_env k) 30 5" for k
    by (simp add: valid_span_def ex_env_def hour_def day_span_def wrap64_def cut_seconds_def)
  then show ?thesis
    using ca_handshake [OF 1(1) 2(1) 3(1), of "\<lambda>_. None" 5 "''localhost''"] ex_localhost
    unfolding 1(2) 2(2) 3(2) Let_def by fastforce
qed

section \<open>Too many days\<close>

lemma wrap64_high: "9223372036854775808 \<le> x \<Longrightarrow> x < 18446744073709551616 \<Longrightarrow> wrap64 x = x - 18446744073709551616"
  using mod_pos_pos_trivial [of "x - 9223372036854775808" 18446744073709551616]
    mod_add_self2 [of "x - 9223372036854775808" "18446744073709551616"]
  by (simp add: wrap64_def algebra_simps)

lemma day_span_exact:
  assumes "0 < days" "days \<le> 213503"
  shows "day_span days = (if days \<le> 106751 then days * 86400000000000 else days * 86400000000000 - 18446744073709551616)"
proof -
  have "wrap64 (days * 24) = days * 24" using assms by (intro wrap64_id) (simp add: in64_def min64_def max64_def)
  then have "day_span days = wrap64 (days * 86400000000000)" by (simp add: day_span_def hour_def mult.commute)
  then show ?thesis
    using assms wrap64_high [of "days * 86400000000000"] wrap64_id [of "days * 86400000000000"]
    by (simp add: in64_def min64_def max64_def)
qed

lemma cut_seconds_mono: "s \<le> t \<Longrightarrow> cut_seconds s \<le> cut_seconds t"
  by (simp add: cut_seconds_def zdiv_mono1)

lemma cut_seconds_gap: "s + 1000000000 \<le> t \<Longrightarrow> cut_seconds s < cut_seconds t"
  using zdiv_mono1 [of "s + 1000000000" t 1000000000] by (simp add: cut_seconds_def)

text \<open>
  The number of days overflows. \<^verbatim>\<open>ca init\<close> accepts any positive number of days; the product with
  the nanoseconds of a day wraps. Up to twice the range of the type, the certificate of the
  authority that it reports to have made is valid at some time exactly if the number is at most
  106751; with more days it has expired before it begins, though the command succeeds.
\<close>
theorem ca_days_overflow:
  assumes "caInit E dir cn days fs = (Inr out, fs')" "days \<le> 213503"
  shows "\<exists>c f. fs' (out ! 0) = Some f \<and> fl_blocks f = [(''CERTIFICATE'', DCert c)] \<and>
    ((\<exists>t. in_time t c) \<longleftrightarrow> days \<le> 106751)"
proof -
  obtain key c where c: "is_ca E days key c" "0 < days" "holds fs' (out ! 0) (''CERTIFICATE'', DCert c)"
    using caInit_Inr [OF assms(1)] by blast
  have "(\<exists>t. in_time t c) \<longleftrightarrow> cut_seconds (ce_now E - hour) \<le> cut_seconds (ce_now E + day_span days)"
    using c(1) by (auto simp: in_time_def is_ca_def)
  also have "\<dots> \<longleftrightarrow> days \<le> 106751"
  proof (cases "days \<le> 106751")
    case True
    then show ?thesis using c(2) assms(2) by (auto simp: day_span_exact hour_def intro: cut_seconds_mono)
  next
    case False
    then have "ce_now E + day_span days + 1000000000 \<le> ce_now E - hour"
      using c(2) assms(2) by (simp add: day_span_exact hour_def)
    then show ?thesis using False cut_seconds_gap by (simp add: not_le)
  qed
  finally show ?thesis using c(3) by (auto simp: holds_def)
qed

theorem ca_days_overflow_witness:
  "\<exists>fs' c f. caInit (ex_env 1) ''pki'' ''takl-ca'' 200000 (\<lambda>_. None) = (Inr [''pki/ca.crt'', ''pki/ca.key''], fs') \<and>
     fs' ''pki/ca.crt'' = Some f \<and> fl_blocks f = [(''CERTIFICATE'', DCert c)] \<and> (\<forall>t. \<not> in_time t c)"
proof -
  have "fst (caInit (ex_env 1) ''pki'' ''takl-ca'' 200000 (\<lambda>_. None)) = Inr [''pki/ca.crt'', ''pki/ca.key'']" by code_simp
  then obtain fs' where "caInit (ex_env 1) ''pki'' ''takl-ca'' 200000 (\<lambda>_. None) = (Inr [''pki/ca.crt'', ''pki/ca.key''], fs')"
    by (metis prod.collapse)
  then show ?thesis using ca_days_overflow [of "ex_env 1"] by fastforce
qed

end
