(* ===== verification/Taklctl.thy ===== *)
theory Taklctl
  imports Api Pki
begin

text \<open>
  \<^verbatim>\<open>cmd/taklctl/main.go\<close>: the path a command asks for, and the tables made of an
  answer, as the rows of values that are printed; how a value is written is the library's.
\<close>

section \<open>Commands\<close>

datatype ctl = Usage | Ask string

definition ctl_path :: "int \<Rightarrow> string list \<Rightarrow> ctl" where
  "ctl_path limit args =
     (case args of
        [] \<Rightarrow> Usage
      | cmd # rest \<Rightarrow>
          if cmd = ''runners'' then Ask ''api/v1/runners''
          else if cmd = ''runner'' then
            (case rest of [x] \<Rightarrow> Ask (''api/v1/runners/'' @ x) | _ \<Rightarrow> Usage)
          else if cmd = ''events'' then Ask (''api/v1/events?limit='' @ dec_int limit)
          else if cmd = ''summary'' then Ask ''api/v1/summary''
          else if cmd = ''cluster'' then Ask ''api/v1/cluster''
          else Usage)"

section \<open>Tables\<close>

text \<open>
  \<^verbatim>\<open>json.Unmarshal(body, &items)\<close> into a slice of maps, the error ignored: an element that is not
  an object is a nil map.
\<close>

definition item_map :: "json \<Rightarrow> json gomap" where
  "item_map j = (case fst (json_any_map j None) of None \<Rightarrow> [] | Some m \<Rightarrow> m)"

definition items_of :: "json \<Rightarrow> json gomap list" where
  "items_of j = (case j of JArr js \<Rightarrow> map item_map js | _ \<Rightarrow> [])"

text \<open>
  A cell is printed with \<^verbatim>\<open>%v\<close>, \<^verbatim>\<open>%.2f\<close> or \<^verbatim>\<open>%d\<close>; a value the map does not have is \<^const>\<open>None\<close>, printed as nil.
\<close>

datatype cell = Val "json option" | Fixed2 "json option" | Dec int

definition runners_table :: "json \<Rightarrow> cell list list" where
  "runners_table body =
     map (\<lambda>r. map (\<lambda>k. Val (gm_get r k)) [''runner_id'', ''hostname'', ''status'', ''worker_capacity'', ''active_builds''] @
       map (\<lambda>k. Fixed2 (gm_get r k)) [''cpu_util'', ''mem_util'']) (items_of body)"

text \<open>
  \<^verbatim>\<open>int64(hlc["ts"].(float64))\<close>: the assertion panics unless the entry is a number. The conversion
  cuts off the fraction; a number outside the range becomes the smallest integer, as on amd64.
\<close>

definition f64_int64 :: "rat \<Rightarrow> int" where
  "f64_int64 x = (let i = (if x < 0 then \<lceil>x\<rceil> else \<lfloor>x\<rfloor>) in if in64 i then i else min64)"

definition ts_of :: "json gomap \<Rightarrow> error + int" where
  "ts_of e =
     (let hlc = (case gm_get e ''hlc'' of Some (JObj m) \<Rightarrow> m | _ \<Rightarrow> []) in
      case gm_get hlc ''ts'' of
        Some (JNum x) \<Rightarrow> Inr (f64_int64 x)
      | _ \<Rightarrow> Inl (Panic ''interface conversion''))"

fun events_loop_rows :: "json gomap list \<Rightarrow> cell list list \<Rightarrow> error + cell list list" where
  "events_loop_rows [] out = Inr out"
| "events_loop_rows (e # es) out =
     (case ts_of e of
        Inl p \<Rightarrow> Inl p
      | Inr ts \<Rightarrow> events_loop_rows es (out @ [map (\<lambda>k. Val (gm_get e k)) [''runner_id'', ''seq'', ''type''] @ [Dec ts]]))"

definition events_table :: "json \<Rightarrow> error + cell list list" where
  "events_table body = events_loop_rows (items_of body) []"

definition or_zero :: "json option \<Rightarrow> json option" where
  "or_zero v = (case v of Some (JNum x) \<Rightarrow> Some (JNum x) | _ \<Rightarrow> Some (JNum 0))"

definition cluster_table :: "json \<Rightarrow> cell list list" where
  "cluster_table body =
     (let c = item_map body in
      [map (\<lambda>k. Val (gm_get c k)) [''active_runners'', ''worker_capacity'', ''available_workers'', ''active_builds''] @
       map (\<lambda>k. Fixed2 (or_zero (gm_get c k))) [''avg_cpu_util'', ''avg_mem_util'']])"

text \<open>An error of \<^verbatim>\<open>json.Unmarshal\<close> is ignored; a text that is not JSON leaves the variable at its zero value.\<close>

datatype shown = Raw string | Table "string list" "cell list list"

definition parsed :: "codec \<Rightarrow> string \<Rightarrow> json" where
  "parsed C body = (case unmarshal C body of Inl _ \<Rightarrow> JNull | Inr j \<Rightarrow> j)"

definition printTable :: "codec \<Rightarrow> string \<Rightarrow> string \<Rightarrow> error + shown" where
  "printTable C cmd body =
     (if cmd = ''runners'' then
        Inr (Table [''ID'', ''HOSTNAME'', ''STATUS'', ''CAPACITY'', ''ACTIVE'', ''CPU%'', ''MEM%''] (runners_table (parsed C body)))
      else if cmd = ''events'' then
        map_sum id (Table [''RUNNER'', ''SEQ'', ''TYPE'', ''HLC'']) (events_table (parsed C body))
      else if cmd = ''cluster'' then
        Inr (Table [''ACTIVE RUNNERS'', ''WORKER CAPACITY'', ''AVAILABLE'', ''ACTIVE BUILDS'', ''AVG CPU%'', ''AVG MEM%'']
          (cluster_table (parsed C body)))
      else Inr (Raw (body @ [CHR 0x0A])))"

section \<open>The program\<close>

text \<open>
  What \<^verbatim>\<open>http.Get\<close> returns for a URL is an argument: an error, or the status code, the status line
  and what reading the body gives.
\<close>

record http_answer =
  ha_StatusCode :: int
  ha_Status :: string
  ha_Body :: "error + string"

definition ctl_get :: "(string \<Rightarrow> error + http_answer) \<Rightarrow> string \<Rightarrow> string \<Rightarrow> error + string" where
  "ctl_get fetch addr path =
     (case fetch (addr @ ''/'' @ path) of
        Inl e \<Rightarrow> Inl e
      | Inr resp \<Rightarrow>
          (case ha_Body resp of
             Inl e \<Rightarrow> Inl e
           | Inr body \<Rightarrow>
               if ha_StatusCode resp \<noteq> 200 then Inl (ErrMsg (ha_Status resp @ '': '' @ body)) else Inr body))"

datatype ctl_end = Exit int | Shown shown | Crashed error

definition ctl_query ::
  "codec \<Rightarrow> (string \<Rightarrow> error + http_answer) \<Rightarrow> string \<Rightarrow> int \<Rightarrow> bool \<Rightarrow> string list \<Rightarrow> ctl_end" where
  "ctl_query C fetch addr limit jsonOut args =
     (case ctl_path limit args of
        Usage \<Rightarrow> Exit 2
      | Ask path \<Rightarrow>
          (case ctl_get fetch addr path of
             Inl _ \<Rightarrow> Exit 1
           | Inr body \<Rightarrow>
               if jsonOut then Shown (Raw (body @ [CHR 0x0A]))
               else (case printTable C (hd args) body of Inl p \<Rightarrow> Crashed p | Inr t \<Rightarrow> Shown t)))"

text \<open>
  \<^verbatim>\<open>main\<close>: the commands that need no server first, then the flags and the query. The build sets the
  three strings of \<^verbatim>\<open>internal/version/version.go\<close>; what the flag package reads is \<open>flags\<close>, or nothing when
  it has refused the arguments and left with status 2.
\<close>

definition Info :: "string \<Rightarrow> string \<Rightarrow> string \<Rightarrow> string" where
  "Info version gitCommit buildDate = ''takl '' @ version @ '' ('' @ gitCommit @ '') built '' @ buildDate"

definition printed :: "string list \<Rightarrow> shown" where
  "printed ls = Raw (concat (map (\<lambda>l. l @ [CHR 0x0A]) ls))"

definition ctl_main ::
  "string \<times> string \<times> string \<Rightarrow> (error + string) \<Rightarrow> ca_env \<Rightarrow> (string \<Rightarrow> string list \<Rightarrow> error + ca_flags) \<Rightarrow>
   (string list \<Rightarrow> (string \<times> int \<times> bool \<times> string list) option) \<Rightarrow> codec \<Rightarrow> (string \<Rightarrow> error + http_answer) \<Rightarrow>
   string list \<Rightarrow> fsys \<Rightarrow> ctl_end \<times> fsys" where
  "ctl_main build rand E caFlags flags C fetch args fs =
     (if args \<noteq> [] \<and> hd args = ''version'' then
        (case build of (v, g, d) \<Rightarrow> (Shown (printed [Info v g d]), fs))
      else if length args > 1 \<and> hd args = ''keygen'' then
        (case runKeygen rand (tl args) of Inl _ \<Rightarrow> (Exit 1, fs) | Inr t \<Rightarrow> (Shown (Raw t), fs))
      else if length args > 1 \<and> hd args = ''ca'' then
        (case runCA E caFlags (tl args) fs of (Inl _, fs') \<Rightarrow> (Exit 1, fs') | (Inr ps, fs') \<Rightarrow> (Shown (printed ps), fs'))
      else
        (case flags args of
           None \<Rightarrow> (Exit 2, fs)
         | Some (addr, limit, jsonOut, rest) \<Rightarrow> (ctl_query C fetch addr limit jsonOut rest, fs)))"

section \<open>Properties\<close>

lemma csv_loop_compact: "csv_loop ps out = out @ compactList ps"
  by (induction ps arbitrary: out) (auto simp: Let_def)

lemma splitCSV_compact: "TrimSpace s \<noteq> [] \<Longrightarrow> splitCSV s = compactList (Split (CHR '','') s)"
  by (simp add: splitCSV_def csv_loop_compact)

lemma any_members_last:
  "fst (json_any_members (kvs @ [(k, j)]) m) = gm_put k (fst (json_any j)) (fst (json_any_members kvs m))"
proof (induction kvs arbitrary: m)
  case (Cons kv kvs)
  obtain k' j' where kv: "kv = (k', j')" by (cases kv)
  obtain x b where "json_any j' = (x, b)" by fastforce
  then show ?case using Cons.IH [of "gm_put k' x m"] by (auto simp: kv Let_def split: prod.splits)
qed (auto simp: Let_def split: prod.splits)

lemma item_map_event:
  assumes "event_json e = Inr j"
  shows "\<exists>m. gm_get (item_map j) ''hlc'' = Some (JObj m) \<and> gm_get m ''ts'' = None"
proof -
  obtain kvs where j: "j = JObj (kvs @ [(''hlc'', hlc_json (ev_hlc e))])"
    using assms by (auto simp: event_json_def append_assoc [symmetric] simp del: append_assoc append_Cons)
  have "gm_get (item_map j) ''hlc'' = Some (fst (json_any (hlc_json (ev_hlc e))))"
    by (auto simp: j item_map_def json_any_map_def any_members_last Let_def split: prod.splits) (metis fst_conv any_members_last gm_get_put)
  then show ?thesis
    by (auto simp: hlc_json_def Let_def gm_get_def [of "_ # _"] split: prod.splits)
qed

lemma events_table_panics:
  assumes "evs \<noteq> []" "events_json evs = Inr j"
  shows "events_table j = Inl (Panic ''interface conversion'')"
proof -
  obtain e es where evs: "evs = e # es" using assms by (cases evs) auto
  obtain x xs where b: "j = JArr (x # xs)" "event_json e = Inr x"
    using assms evs by (auto simp: events_json_def split: sum.splits)
  obtain m where "gm_get (item_map x) ''hlc'' = Some (JObj m)" "gm_get m ''ts'' = None"
    using item_map_event [OF b(2)] by blast
  then have "ts_of (item_map x) = Inl (Panic ''interface conversion'')" by (simp add: ts_of_def)
  then show ?thesis using b(1) by (simp add: events_table_def items_of_def)
qed

text \<open>
  C40. \<^verbatim>\<open>taklctl events\<close> cannot print what the server sends. The API writes the stamp of an event under
  the names of Go's fields, while the client looks for \<^verbatim>\<open>ts\<close> and asserts that it is a number:
  if the node has events and its answer reaches the client and is read back as it was written,
  the client panics.
\<close>
theorem taklctl_events_panic:
  assumes "Events (hl_codec L) (events_limit r) (nd_store n) = (Inr evs, s')" "evs \<noteq> []" "q_get r ''runner'' = []"
    and "handleEvents L r n = (Inr resp, n')"
    and "\<And>j. events_json evs = Inr j \<Longrightarrow> marshal (hl_codec L) j = Inr b \<and> unmarshal C (b @ [CHR 0x0A]) = Inr j"
    and "fetch (addr @ ''/api/v1/events?limit='' @ dec_int limit) =
      Inr \<lparr>ha_StatusCode = rs_status resp, ha_Status = st, ha_Body = Inr (rs_body resp)\<rparr>"
  shows "\<exists>m. ctl_query C fetch addr limit False [''events''] = Crashed (Panic m)"
proof -
  have "\<exists>js. json_list event_json es = Inr js" for es
    by (induction es) (auto simp: event_json_def)
  then obtain j where j: "events_json evs = Inr j" by (metis events_json_def map_sum.simps(2))
  have "resp = \<lparr>rs_status = 200, rs_body = b @ [CHR 0x0A]\<rparr>"
    using assms(1-4) assms(5) [OF j] j by (simp add: handleEvents_def orError_def tryE_def on_store_def ret_def writeJSON_def)
  then show ?thesis
    using assms(6) assms(5) [OF j] events_table_panics [OF assms(2) j]
    by (simp add: ctl_query_def ctl_path_def ctl_get_def printTable_def parsed_def)
qed

theorem taklctl_events_panic_witness:
  "let ev = ex_event ''r'' 1 7;
       n = (ex_node [])\<lparr>nd_store := empty_disk\<lparr>st_events := [event_to_row ev 1 []]\<rparr>\<rparr>;
       L = (ex_lib JNull)\<lparr>hl_codec := any_codec\<rparr>; r = ex_request ''GET'' [''api'', ''v1'', ''events''];
       C = \<lparr>marshal = (\<lambda>_. Inl ErrJson), unmarshal = (\<lambda>_. events_json [ev])\<rparr>
   in \<exists>resp n' m. handleEvents L r n = (Inr resp, n') \<and>
        ctl_query C (\<lambda>_. Inr \<lparr>ha_StatusCode = rs_status resp, ha_Status = [], ha_Body = Inr (rs_body resp)\<rparr>) [] 100 False [''events'']
          = Crashed (Panic m)"
proof -
  let ?ev = "ex_event ''r'' 1 7"
  let ?s = "empty_disk\<lparr>st_events := [event_to_row ?ev 1 []]\<rparr>"
  let ?n = "(ex_node [])\<lparr>nd_store := ?s\<rparr>" and ?r = "ex_request ''GET'' [''api'', ''v1'', ''events'']"
  let ?L = "(ex_lib JNull)\<lparr>hl_codec := any_codec\<rparr>"
  let ?C = "\<lparr>marshal = (\<lambda>_. Inl ErrJson), unmarshal = (\<lambda>_. events_json [?ev])\<rparr>"
  have h: "healthy ?s" by (simp add: healthy_def empty_disk_def)
  obtain s' where e: "Events (hl_codec ?L) (events_limit ?r) ?s = (Inr [?ev], s')"
    using h by (simp add: Events_def Let_def db_simps decode_events_healthy [where es = "[?ev]"] decodes_def decode_payload_def
        row_to_event_def event_to_row_def ex_event_def swap_loop_rev events_limit_def q_get_def ex_request_def gm_get_def
        del: decode_events.simps)
  obtain resp n' where a: "handleEvents ?L ?r ?n = (Inr resp, n')"
    using e by (simp add: handleEvents_def orError_def tryE_def on_store_def ret_def Let_def)
  have "q_get ?r ''runner'' = []" by (simp add: q_get_def ex_request_def gm_get_def)
  then show ?thesis
    using taklctl_events_panic [of ?L ?r ?n "[?ev]" s' resp n' "''x''" ?C
        "\<lambda>_. Inr \<lparr>ha_StatusCode = rs_status resp, ha_Status = [], ha_Body = Inr (rs_body resp)\<rparr>" "[]" 100 "[]"] e a
    by (simp add: Let_def any_codec_def)
qed

end
