(* ===== verification/Node_Run.thy ===== *)
theory Node_Run
  imports Sync Taklctl
begin

text \<open>
  A node as a whole: its goroutines (the agent, the membership handler, the sync engine, the
  server of the pull protocol, the HTTP handlers) work on one store and one clock, each
  operation as a step of the relation \<open>node_step\<close>. The invariant of a run is that the clock is
  never behind a stamp in the store; it makes every local write the newest version of its key.
\<close>

section \<open>Steps\<close>

text \<open>
  An operation that takes a stamp finds a clock whose counter has not reached the end of its
  range; the network may answer anything.
\<close>

definition clock_usable :: "clock \<Rightarrow> bool" where
  "clock_usable c \<longleftrightarrow> clock_ok c \<and> clock_room c"

inductive node_step :: "codec \<Rightarrow> http_lib \<Rightarrow> server \<Rightarrow> node \<Rightarrow> node \<Rightarrow> bool" for C L s where
  step_start: "clock_usable (nd_clock n) \<Longrightarrow> Start C now snap a n = (res, n') \<Longrightarrow> node_step C L s n n'"
| step_sample: "clock_usable (nd_clock n) \<Longrightarrow> Step C now snap (a, n) = (res, (a', n')) \<Longrightarrow> node_step C L s n n'"
| step_member: "clock_usable (nd_clock n) \<Longrightarrow> handle_event C now ev a n = (res, n') \<Longrightarrow> node_step C L s n n'"
| step_round: "RoundOnce C N peer n = (res, n') \<Longrightarrow> node_step C L s n n'"
| step_collect: "clock_usable (nd_clock n) \<Longrightarrow> gcTombstones now n = (res, n') \<Longrightarrow> node_step C L s n n'"
| step_pull: "server_Pull C pid req n = (res, n') \<Longrightarrow> node_step C L s n n'"
| step_http: "clock_usable (nd_clock n) \<Longrightarrow> Handler L s rd r n = (res, n') \<Longrightarrow> node_step C L s n n'"

inductive_cases node_stepE: "node_step C L s n n'"

section \<open>What a step does to the rows\<close>

definition keeps :: "node \<Rightarrow> node \<Rightarrow> bool" where
  "keeps n n' \<longleftrightarrow> st_rows (nd_store n') = st_rows (nd_store n) \<and> nd_clock n' = nd_clock n"

definition local_write :: "hlc \<Rightarrow> row list \<Rightarrow> row list \<Rightarrow> bool" where
  "local_write h t t' \<longleftrightarrow> t' = t \<or> (\<exists>r. r_hlc r = h \<and> t' = upsert_row r t) \<or> (\<exists>m. t' = prune m h t) \<or>
     (\<exists>m. t' = filter (\<lambda>r. \<not> gc_drops m r) t)"

definition ticks :: "int \<Rightarrow> node \<Rightarrow> node \<Rightarrow> bool" where
  "ticks now n n' \<longleftrightarrow> nd_clock n' = snd (tick now (nd_clock n)) \<and>
     local_write (fst (tick now (nd_clock n))) (st_rows (nd_store n)) (st_rows (nd_store n'))"

text \<open>
  A table has advanced to another when every key still has its row or a newer one; only a
  tombstone may have gone.
\<close>

definition advanced :: "row list \<Rightarrow> row list \<Rightarrow> bool" where
  "advanced t t' \<longleftrightarrow> (\<forall>k r. tbl_select row_pk k t = Some r \<longrightarrow>
     (case tbl_select row_pk k t' of None \<Rightarrow> r_tombstone r | Some r' \<Rightarrow> r' = r \<or> newer r' r))"

definition stamps_below :: "node \<Rightarrow> bool" where
  "stamps_below n \<longleftrightarrow> (\<forall>r \<in> set (st_rows (nd_store n)). r_hlc r \<le> reading (nd_clock n))"

definition node_inv :: "node \<Rightarrow> bool" where
  "node_inv n \<longleftrightarrow> tbl_wf row_pk (st_rows (nd_store n)) \<and> stamps_below n"

lemma advanced_refl [simp]: "advanced t t"
  by (auto simp: advanced_def split: option.splits)

lemma prune_select:
  "tbl_select row_pk k (prune m h t) = map_option (\<lambda>r. if sql_like (m @ ''/%'') (r_owner r) \<and> \<not> r_tombstone r
     then r\<lparr>r_tombstone := True, r_hlc := h\<rparr> else r) (tbl_select row_pk k t)"
  unfolding prune_def by (rule tbl_select_map) (simp add: row_pk_def)

lemma prune_wf: "tbl_wf row_pk (prune m h t) = tbl_wf row_pk t"
  unfolding prune_def by (rule tbl_wf_map) (auto simp: row_pk_def)

lemma prune_stamps: "r \<in> set (prune m h t) \<Longrightarrow> r_hlc r = h \<or> (\<exists>r0 \<in> set t. r_hlc r = r_hlc r0)"
  by (auto simp: prune_def split: if_splits)

lemma local_write_advanced:
  assumes "tbl_wf row_pk t" "\<forall>r \<in> set t. r_hlc r < h" "local_write h t t'"
  shows "advanced t t' \<and> tbl_wf row_pk t' \<and> (\<forall>r \<in> set t'. r_hlc r \<le> h)"
proof -
  have mem: "tbl_select row_pk k t = Some r \<Longrightarrow> r_hlc r < h" for k r using assms(2) by (auto dest: tbl_select_Some)
  consider "t' = t" | r where "r_hlc r = h" "t' = upsert_row r t" | m where "t' = prune m h t"
    | m where "t' = filter (\<lambda>r. \<not> gc_drops m r) t"
    using assms(3) by (auto simp: local_write_def)
  then show ?thesis
  proof cases
    case 1
    then show ?thesis using assms by auto
  next
    case 2
    then show ?thesis
      using assms mem by (auto simp: advanced_def tbl_select_upsert newer_iff set_upsert intro: order.strict_implies_order split: option.splits)
  next
    case 3
    have "advanced t t'" using mem by (auto simp: 3 advanced_def prune_select newer_iff)
    moreover have "tbl_wf row_pk t'" using 3 assms(1) by (simp add: prune_wf)
    moreover have "\<forall>r \<in> set t'. r_hlc r \<le> h" using prune_stamps [of _ m h t] assms(2) 3 by fastforce
    ultimately show ?thesis by blast
  next
    case 4
    then show ?thesis
      using assms by (auto simp: advanced_def tbl_select_filter gc_drops_def split: option.splits intro: order.strict_implies_order)
  qed
qed

lemma ticks_inv:
  assumes "node_inv n" "clock_usable (nd_clock n)" "ticks now n n'"
  shows "node_inv n' \<and> advanced (st_rows (nd_store n)) (st_rows (nd_store n'))"
proof -
  let ?h = "fst (tick now (nd_clock n))"
  have "reading (nd_clock n) < ?h" using assms(2) by (simp add: clk.issue_newer clock_usable_def)
  then have "\<forall>r \<in> set (st_rows (nd_store n)). r_hlc r < ?h"
    using assms(1) by (auto simp: node_inv_def stamps_below_def intro: le_less_trans)
  then show ?thesis
    using local_write_advanced [of "st_rows (nd_store n)" ?h "st_rows (nd_store n')"] assms
    by (auto simp: node_inv_def stamps_below_def ticks_def)
qed

lemma keeps_inv: "node_inv n \<Longrightarrow> keeps n n' \<Longrightarrow> node_inv n' \<and> advanced (st_rows (nd_store n)) (st_rows (nd_store n'))"
  by (simp add: keeps_def node_inv_def stamps_below_def)


section \<open>Rounds\<close>

lemma merge_row_stamps: "r \<in> set (merge_row x t) \<Longrightarrow> r = x \<or> r \<in> set t"
  using set_upsert_subset [of row_pk x t] by (auto simp: merge_row_def split: option.splits if_splits)

lemma merge_rows_stamps: "r \<in> set (merge_rows rs t) \<Longrightarrow> r \<in> set rs \<or> r \<in> set t"
  by (induction rs arbitrary: t) (auto dest: merge_row_stamps)

lemma merge_rows_select:
  "tbl_select row_pk k t = Some r \<Longrightarrow> \<exists>r'. tbl_select row_pk k (merge_rows rs t) = Some r' \<and> (r' = r \<or> newer r' r)"
proof (induction rs arbitrary: t r)
  case (Cons x rs)
  obtain r1 where 1: "tbl_select row_pk k (merge_row x t) = Some r1" "r1 = r \<or> newer r1 r"
    using Cons.prems by (cases "k = row_pk x \<and> newer x r") (auto simp: select_merge_row)
  obtain r2 where "tbl_select row_pk k (merge_rows rs (merge_row x t)) = Some r2" "r2 = r1 \<or> newer r2 r1"
    using Cons.IH [OF 1(1)] by blast
  then show ?case using 1(2) rows_lww.beats_trans [of r2 r1 r] by auto
qed simp

lemma RoundOnce_inv:
  assumes "node_inv n" "RoundOnce C N peer n = (res, n')"
  shows "node_inv n' \<and> advanced (st_rows (nd_store n)) (st_rows (nd_store n'))"
  using assms(2)
proof (cases rule: RoundOnce_shape)
  case (failed e)
  then have "keeps n n'" by (simp add: keeps_def same_data_def same_tables_def)
  then show ?thesis using assms(1) by (rule keeps_inv [rotated])
next
  case (answered cc m m' resp n0 n1)
  note r = round_rows_Inr [OF answered(4)] and e = round_events_frame [OF answered(5)]
  have 0: "st_rows (nd_store n0) = st_rows (nd_store n)" "nd_clock n0 = nd_clock n"
    using answered(3) by (simp_all add: same_data_def same_tables_def)
  have rows: "st_rows (nd_store n') = merge_rows (resp_rows resp) (st_rows (nd_store n))"
    using r e 0 by (simp add: log_grows_def)
  have up: "reading (nd_clock n) \<le> reading (nd_clock n1)" "reading (nd_clock n1) \<le> reading (nd_clock n')"
    using r e 0 by (simp_all add: log_grows_def)
  have "r_hlc x \<le> reading (nd_clock n')" if "x \<in> set (st_rows (nd_store n'))" for x
    using merge_rows_stamps [of x "resp_rows resp" "st_rows (nd_store n)"] that rows r up assms(1)
    by (auto simp: node_inv_def stamps_below_def intro: order_trans)
  moreover have "advanced (st_rows (nd_store n)) (st_rows (nd_store n'))"
    using merge_rows_select [of _ "st_rows (nd_store n)" _ "resp_rows resp"] rows by (fastforce simp: advanced_def split: option.splits)
  ultimately show ?thesis using assms(1) rows by (auto simp: node_inv_def stamps_below_def)
qed

section \<open>Operations that leave the rows and the clock\<close>

definition reads_db :: "'a op \<Rightarrow> bool" where
  "reads_db q \<longleftrightarrow> (\<forall>s. same_tables s (snd (q s)))"

definition reads :: "'a node_op \<Rightarrow> bool" where
  "reads m \<longleftrightarrow> (\<forall>n. keeps n (snd (m n)))"

lemma reads_dbI: "(\<And>s r s'. q s = (r, s') \<Longrightarrow> same_tables s s') \<Longrightarrow> reads_db q"
  by (metis prod.collapse reads_db_def)

lemma reads_db_bindE: "reads_db m \<Longrightarrow> (\<And>x. reads_db (f x)) \<Longrightarrow> reads_db (bindE m f)"
  unfolding reads_db_def bindE_def by (auto split: prod.splits sum.splits) (metis same_tables_trans snd_conv)+

lemma reads_db_tryE: "reads_db m \<Longrightarrow> (\<And>e. reads_db (h e)) \<Longrightarrow> (\<And>x. reads_db (f x)) \<Longrightarrow> reads_db (tryE m h f)"
  unfolding reads_db_def tryE_def by (auto split: prod.splits sum.splits) (metis same_tables_trans snd_conv)+

lemma reads_db_ret [simp]: "reads_db (ret x)" "reads_db (throw e)"
  by (simp_all add: reads_db_def ret_def throw_def)

lemma reads_db_query [simp]: "reads_db (query f)" "reads_db (query_row g)" "reads_db (query_rows h)" "reads_db db_call"
  by (auto intro!: reads_dbI dest: query_same query_row_same query_rows_same db_call_same)

lemmas reads_db_rules = reads_db_bindE reads_db_tryE reads_db_ret reads_db_query

lemma reads_db_store:
  "reads_db (Get k key)" "reads_db (Checksum k)" "reads_db ChecksumEvents" "reads_db (ChangesSince k h)"
proof -
  show "reads_db (Get k key)" unfolding Get_def store_get_def by (intro reads_db_rules) auto
  show "reads_db (Checksum k)" "reads_db ChecksumEvents"
    by (auto intro!: reads_dbI dest: Checksum_same ChecksumEvents_same)
  show "reads_db (ChangesSince k h)" unfolding ChangesSince_def by (intro reads_db_rules)
qed

lemma reads_db_list_loop: "reads_db (list_loop fn rs acc)"
  by (induction rs arbitrary: acc) (auto simp: Let_def split: prod.splits intro!: reads_db_rules)

lemma reads_db_listRunners: "reads_db (listRunners C limit offset)"
  unfolding listRunners_def List_rows_def
  by (auto split: option.splits sum.splits intro!: reads_db_rules reads_db_list_loop)

lemma reads_db_decode: "reads_db (decode_events C rs acc)"
  by (induction rs arbitrary: acc) (auto simp: Let_def split: sum.splits intro!: reads_db_rules)

lemma reads_db_events: "reads_db (Events C limit)" "reads_db (EventsSince C h)"
  unfolding Events_def EventsSince_def by (auto intro!: reads_db_rules reads_db_decode)

lemma reads_db_merge: "reads_db (mergeMetaLabelsOne C r)" "reads_db (mergeMetaLabels C rs)"
proof -
  show one: "reads_db (mergeMetaLabelsOne C r)" for r
    unfolding mergeMetaLabelsOne_def by (intro reads_db_tryE reads_db_store) (auto split: option.splits prod.splits)
  show "reads_db (mergeMetaLabels C rs)" by (induction rs) (auto intro!: reads_db_rules one)
qed


lemma keeps_refl [simp]: "keeps n n"
  by (simp add: keeps_def)

lemma keeps_trans: "keeps a b \<Longrightarrow> keeps b c \<Longrightarrow> keeps a c"
  by (simp add: keeps_def)

lemma reads_on_store: "reads_db q \<Longrightarrow> reads (on_store q)"
  by (auto simp: reads_def reads_db_def on_store_def keeps_def same_tables_def split: prod.splits) (metis snd_conv)

lemma reads_on_metrics [simp]: "reads (on_metrics f)"
  by (simp add: reads_def on_metrics_def keeps_def)

lemma reads_ret [simp]: "reads (ret x)" "reads (throw e)"
  by (simp_all add: reads_def ret_def throw_def)

lemma reads_bindE: "reads m \<Longrightarrow> (\<And>x. reads (f x)) \<Longrightarrow> reads (bindE m f)"
  unfolding reads_def bindE_def by (auto split: prod.splits sum.splits) (metis keeps_trans snd_conv)+

lemma reads_tryE: "reads m \<Longrightarrow> (\<And>e. reads (h e)) \<Longrightarrow> (\<And>x. reads (f x)) \<Longrightarrow> reads (tryE m h f)"
  unfolding reads_def tryE_def by (auto split: prod.splits sum.splits) (metis keeps_trans snd_conv)+

lemma reads_orError: "reads m \<Longrightarrow> (\<And>x. reads (f x)) \<Longrightarrow> reads (orError L m f)"
  by (simp add: orError_def reads_tryE)

lemmas reads_store = reads_db_store [THEN reads_on_store] reads_db_listRunners [THEN reads_on_store]
  reads_db_events [THEN reads_on_store] reads_db_merge [THEN reads_on_store]

lemmas reads_rules = reads_bindE reads_tryE reads_orError reads_ret reads_on_metrics reads_store

lemma server_Pull_reads: "reads (server_Pull C pid req)"
proof -
  have "reads (pull_kind req k resp)" for k resp
    unfolding pull_kind_def Let_def by (auto intro!: reads_rules)
  then have "reads (pull_kinds req ks resp)" for ks resp
    by (induction ks arbitrary: resp) (auto intro!: reads_rules)
  moreover have "reads (pull_events C req resp)" for resp
    unfolding pull_events_def Let_def by (auto intro!: reads_rules)
  ultimately show ?thesis unfolding server_Pull_def Let_def by (auto intro!: reads_rules)
qed

lemma handlers_read:
  "reads (handleHealth L s)" "reads (handleRunners L r)" "reads (handleRunner L rid)" "reads (handleGetLabels L rid)"
  "reads (handleEvents L r)" "reads (handleSummary L s)" "reads (handleCluster L)"
proof -
  show "reads (handleHealth L s)" by (simp add: handleHealth_def)
  show "reads (handleRunners L r)"
    by (cases "parsePagination r") (auto simp: handleRunners_def Let_def intro!: reads_rules)
  show "reads (handleRunner L rid)"
    unfolding handleRunner_def by (intro reads_orError reads_store) (auto split: sum.splits intro!: reads_rules)
  show "reads (handleGetLabels L rid)"
    unfolding handleGetLabels_def Let_def by (intro reads_orError reads_store) (auto intro!: reads_rules)
  show "reads (handleEvents L r)"
    unfolding handleEvents_def Let_def by (intro reads_orError reads_store) auto
  show "reads (handleSummary L s)"
    unfolding handleSummary_def by (intro reads_rules)
  show "reads (handleCluster L)"
    unfolding handleCluster_def by (intro reads_rules)
qed

lemma handleMetrics_reads: "reads (handleMetrics L)"
proof -
  have "reads (tryE (on_store (listRunners (hl_codec L) (-1) 0))
        (\<lambda>_. ret \<lparr>rs_status = 200, rs_body = head @ line ''takl_metrics_store_error 1''\<rparr>)
        (\<lambda>runners. ret \<lparr>rs_status = 200, rs_body = head @ runners_page runners\<rparr>))" for head
    by (intro reads_rules)
  then show ?thesis by (simp add: reads_def handleMetrics_def Let_def)
qed

lemma handleBestRunner_reads: "reads (handleBestRunner L u elapsed r)"
  unfolding handleBestRunner_def best_body_def
  by (intro reads_rules) (auto split: option.splits intro!: reads_rules)

section \<open>Operations that take a stamp\<close>

definition writes :: "(hlc \<Rightarrow> 'a node_op) \<Rightarrow> bool" where
  "writes m \<longleftrightarrow> (\<forall>h n. nd_clock (snd (m h n)) = nd_clock n \<and>
     local_write h (st_rows (nd_store n)) (st_rows (nd_store (snd (m h n)))))"

definition tickwise :: "int \<Rightarrow> 'a node_op \<Rightarrow> bool" where
  "tickwise now m \<longleftrightarrow> (\<forall>n. ticks now n (snd (m n)) \<or> keeps n (snd (m n)))"

lemma tickwise_tick:
  assumes "writes m"
  shows "tickwise now (bindE (clock_tick now) m)"
proof -
  have "ticks now n (snd (bindE (clock_tick now) m n))" for n
  proof (cases "tick now (nd_clock n)")
    case (Pair h c)
    show ?thesis
      using assms [unfolded writes_def, rule_format, of h "n\<lparr>nd_clock := c\<rparr>"] Pair
      by (simp add: ticks_def bindE_def clock_tick_def)
  qed
  then show ?thesis by (simp add: tickwise_def)
qed

lemma tickwise_reads: "reads m \<Longrightarrow> tickwise now m"
  by (simp add: reads_def tickwise_def)

lemma keeps_ticks: "keeps a b \<Longrightarrow> ticks now b c \<Longrightarrow> ticks now a c" "ticks now a b \<Longrightarrow> keeps b c \<Longrightarrow> ticks now a c"
  by (simp_all add: keeps_def ticks_def)

lemma tickwise_after: "reads m \<Longrightarrow> (\<And>x. tickwise now (f x)) \<Longrightarrow> tickwise now (orError L m f)"
  unfolding reads_def tickwise_def orError_def tryE_def ret_def
  by (auto split: prod.splits sum.splits) (metis keeps_trans keeps_ticks(1) snd_conv)+

lemma writes_reads: "(\<And>h. reads (m h)) \<Longrightarrow> writes m"
  by (auto simp: writes_def reads_def keeps_def local_write_def)

lemma writes_put: "(\<And>h. r_hlc (r h) = h) \<Longrightarrow> writes (\<lambda>h. on_store (Put (r h)))"
proof -
  assume r: "\<And>h. r_hlc (r h) = h"
  have "local_write h (st_rows s) (st_rows s')" if "upsert (r h) s = (res, s')" for h s res s'
    using that r [of h] by (cases res) (auto simp: local_write_def same_tables_def dest!: upsert_Inr upsert_Inl)
  then show ?thesis by (auto simp: writes_def on_store_def Put_def split: prod.splits)
qed

lemma writes_delete: "writes (\<lambda>h. on_store (Delete k key w h))"
proof -
  have "local_write h (st_rows s) (st_rows s')" if "Delete k key w h s = (res, s')" for h s res s'
  proof (cases res)
    case (Inl e)
    then show ?thesis using that by (auto simp: local_write_def same_tables_def dest: Delete_Inl)
  next
    case (Inr u)
    have "r_hlc (deleted_row k key w h (st_rows s)) = h" by (simp add: deleted_row_def)
    then show ?thesis using that Inr by (auto simp: local_write_def dest!: Delete_Inr)
  qed
  then show ?thesis by (auto simp: writes_def on_store_def split: prod.splits)
qed

lemma writes_orError: "writes m \<Longrightarrow> (\<And>h x. reads (f h x)) \<Longrightarrow> writes (\<lambda>h. orError L (m h) (f h))"
  unfolding writes_def reads_def keeps_def orError_def tryE_def ret_def
  by (auto split: prod.splits sum.splits) (metis snd_conv)+

lemma handleDeleteLabels_ticks: "tickwise now (handleDeleteLabels L s now rid)"
  unfolding handleDeleteLabels_def by (intro tickwise_tick writes_orError writes_delete reads_ret)

lemma handleUpdateLabels_ticks: "tickwise now (handleUpdateLabels L s now rid r)"
proof -
  have "tickwise now (put_labels L s now rid ex)" for ex
    unfolding put_labels_def Let_def by (intro tickwise_tick writes_orError writes_put reads_ret) (simp add: meta_row_def)
  then have "tickwise now (merge_labels L s now rid inc)" for inc
    unfolding merge_labels_def by (intro tickwise_after reads_store) (auto split: sum.splits intro: tickwise_reads)
  then show ?thesis
    unfolding handleUpdateLabels_def
    by (intro tickwise_after reads_store) (auto split: prod.splits option.splits intro: tickwise_reads)
qed


lemma api_route_ticks: "api_route L s rd r = Some (Some h) \<Longrightarrow> tickwise (rd_now rd) h"
  using handlers_read [THEN tickwise_reads] handleMetrics_reads [THEN tickwise_reads] handleBestRunner_reads [THEN tickwise_reads]
    handleUpdateLabels_ticks handleDeleteLabels_ticks
  by (auto simp: api_route_def Let_def split: list.splits if_splits)

lemma mux_ticks: "tickwise (rd_now rd) (mux L s rd r)"
proof (cases "if sv_enablePprof s then pprof_route r else None")
  case (Some b)
  then show ?thesis by (auto simp: mux_def adminOnly_def intro!: tickwise_reads split: bool.splits)
next
  case None
  then show ?thesis using api_route_ticks [of L s rd r] by (auto simp: mux_def intro!: tickwise_reads split: option.splits)
qed

lemma tickwise_then: "tickwise now m \<Longrightarrow> (\<And>x. reads (f x)) \<Longrightarrow> tickwise now (bindE m f)"
  unfolding reads_def tickwise_def bindE_def
  by (auto split: prod.splits sum.splits) (metis keeps_trans keeps_ticks(2) snd_conv)+

lemma Handler_ticks: "tickwise (rd_now rd) (Handler L s rd r)"
  unfolding Handler_def observeHTTP_def Let_def by (intro tickwise_then mux_ticks reads_rules)

lemma emit_reads: "reads (emit C a t p h)"
  using emit_rows by (metis keeps_def prod.collapse reads_def)

lemma writes_then: "writes m \<Longrightarrow> (\<And>h x. reads (f h x)) \<Longrightarrow> writes (\<lambda>h. bindE (m h) (f h))"
  unfolding writes_def reads_def keeps_def bindE_def
  by (auto split: prod.splits sum.splits) (metis snd_conv)+

lemma writes_putRow: "writes (\<lambda>h. putRow C a k key v h)"
  using writes_put [of "\<lambda>h. \<lparr>r_kind = k, r_key = key, r_owner = agent_owner a, r_hlc = h, r_tombstone = False, r_payload = p\<rparr>" for p]
  by (cases "Encode C v") (auto simp: putRow_def intro: writes_reads)

lemma writes_log_error: "writes m \<Longrightarrow> writes (\<lambda>h. log_error (m h))"
  unfolding writes_def log_error_def tryE_def ret_def by (auto split: prod.splits sum.splits) (metis snd_conv)+

lemma writes_GCTombstones: "writes (\<lambda>h. on_store (GCTombstones (m h)))"
proof -
  have "local_write h (st_rows s) (st_rows s')" if "GCTombstones (m h) s = (res, s')" for h s res s'
    using that by (cases res) (auto simp: local_write_def same_tables_def dest!: GCTombstones_Inr GCTombstones_Inl)
  then show ?thesis by (auto simp: writes_def on_store_def split: prod.splits)
qed

lemma Start_ticks: "tickwise now (Start C now snap a)"
  unfolding Start_def Let_def by (intro tickwise_tick writes_then writes_putRow emit_reads)

lemma handle_event_ticks: "tickwise now (handle_event C now ev a)"
proof -
  have "ticks now n n'" if "handle_event C now ev a n = (res, n')" for n res n'
    using handle_event_rows [OF that] by (auto simp: ticks_def local_write_def)
  then show ?thesis by (metis prod.collapse tickwise_def)
qed

lemma gcTombstones_ticks: "tickwise now (gcTombstones now)"
proof -
  have "gcTombstones now = bindE (clock_tick now) (\<lambda>h. bindE (log_error (bindE (on_store (GCTombstones
          (HLC (if TS h > gc_grace then TS h - gc_grace else 0) 0))) (\<lambda>_. ret ()))) ret)"
    by (rule ext) (auto simp: gcTombstones_def Let_def log_error_def bindE_def tryE_def ret_def split: prod.splits sum.splits)
  then show ?thesis
    by (simp only:) (intro tickwise_tick writes_then writes_log_error writes_GCTombstones reads_ret)
qed

lemma Step_ticks:
  assumes "Step C now snap (a, n) = (res, (a', n'))"
  shows "ticks now n n' \<or> keeps n n'"
proof -
  let ?a = "count_metrics (isHot snap) a"
  have "tickwise now (bindE (clock_tick now) (\<lambda>h. putRow C ?a KindRunner (Key (step_runner ?a snap)) (step_runner ?a snap) h))"
    by (intro tickwise_tick writes_putRow)
  then show ?thesis using assms by (auto simp: tickwise_def Step_def Let_def split: prod.splits) (metis snd_conv)
qed

section \<open>The contract of the operations\<close>

text \<open>
  What a run relies on: an operation takes at most one stamp and writes with it. An operation
  that leaves the rows and the clock is a special case.
\<close>

locale stamped_op =
  fixes now :: int and m :: "'a node_op"
  assumes stamped: "tickwise now m"
begin

lemma step_inv:
  assumes "node_inv n" "clock_usable (nd_clock n)" "m n = (res, n')"
  shows "node_inv n' \<and> advanced (st_rows (nd_store n)) (st_rows (nd_store n'))"
  using stamped assms ticks_inv keeps_inv by (metis snd_conv tickwise_def)

end

locale reading_op =
  fixes m :: "'a node_op"
  assumes leaves: "reads m"
begin

lemma read_inv: "node_inv n \<Longrightarrow> m n = (res, n') \<Longrightarrow> node_inv n' \<and> advanced (st_rows (nd_store n)) (st_rows (nd_store n'))"
  using leaves keeps_inv by (metis reads_def snd_conv)

end

sublocale reading_op < writing: stamped_op now m for now
  by unfold_locales (rule tickwise_reads [OF leaves])

interpretation agent_start: stamped_op now "Start C now snap a" for C now snap a
  by unfold_locales (rule Start_ticks)

interpretation agent_member: stamped_op now "handle_event C now ev a" for C now ev a
  by unfold_locales (rule handle_event_ticks)

interpretation engine_collect: stamped_op now "gcTombstones now" for now
  by unfold_locales (rule gcTombstones_ticks)

interpretation api_handler: stamped_op "rd_now rd" "Handler L s rd r" for L s rd r
  by unfold_locales (rule Handler_ticks)

interpretation pull_server: reading_op "server_Pull C pid req" for C pid req
  by unfold_locales (rule server_Pull_reads)

lemma node_step_inv:
  assumes "node_inv n" "node_step C L s n n'"
  shows "node_inv n' \<and> advanced (st_rows (nd_store n)) (st_rows (nd_store n'))"
  using assms(2)
proof cases
  case (step_start now snap a res)
  then show ?thesis using assms(1) by (intro agent_start.step_inv)
next
  case (step_sample now snap a res a')
  then show ?thesis using Step_ticks assms(1) ticks_inv keeps_inv by blast
next
  case (step_member now ev a res)
  then show ?thesis using assms(1) by (intro agent_member.step_inv)
next
  case (step_round N peer res)
  then show ?thesis using RoundOnce_inv assms(1) by blast
next
  case (step_collect now res)
  then show ?thesis using assms(1) by (intro engine_collect.step_inv)
next
  case (step_pull pid req res)
  then show ?thesis using assms(1) by (intro pull_server.read_inv)
next
  case (step_http rd r res)
  then show ?thesis using assms(1) by (intro api_handler.step_inv)
qed

section \<open>Runs\<close>

lemma node_run_inv: "(node_step C L s)\<^sup>*\<^sup>* n0 n \<Longrightarrow> node_inv n0 \<Longrightarrow> node_inv n"
  by (induction rule: rtranclp_induct) (auto dest: node_step_inv)


lemma ex_Start:
  "\<exists>n' p. Start any_codec now ex_runner (agent_New ''a'' []) (ex_node rs) = (Inr (), n') \<and>
     st_rows (nd_store n') = upsert_row \<lparr>r_kind = KindRunner, r_key = ''r'', r_owner = ''a/'', r_hlc = fst (tick now NewClock),
       r_tombstone = False, r_payload = p\<rparr> rs"
proof -
  let ?r = "ex_runner\<lparr>Status := RunnerActive\<rparr>" and ?a = "agent_New ''a'' []"
  obtain h c where t: "tick now NewClock = (h, c)" by fastforce
  let ?n = "(ex_node rs)\<lparr>nd_clock := c\<rparr>"
  obtain j where "runner_json ?r = Inr j" by (simp add: runner_json_def ex_runner_def runner_zero_def)
  then obtain n1 where p: "putRow any_codec ?a KindRunner (Key ?r) ?r h ?n = (Inr (), n1)"
      and n1: "healthy (nd_store n1)" "st_events (nd_store n1) = []"
    by (auto simp: putRow_def Encode_def any_codec_def on_store_def ex_node_def empty_disk_def db_simps healthy_def)
  obtain n2 where e: "emit any_codec ?a EventRunnerJoined None h n1 = (Inr (), n2)"
    using n1 by (simp add: emit_def on_store_def AppendEvent_healthy [of _ _ _ "''x''"] any_codec_def)
  show ?thesis
    using t p e emit_rows [OF e] putRow_Inr [OF p]
    by (auto simp: Start_def Let_def bindE_def clock_tick_def ex_node_def Key_def agent_owner_def agent_New_def hex_def ex_runner_def)
qed



text \<open>
  C32. A restart may go back. \<^verbatim>\<open>main\<close> opens the store that earlier runs of the node have filled and
  gives it a clock at zero. If the wall clock now shows less than the stamp of the runner's own
  stored row (it was set back, or the stamp came from a peer whose clock is ahead), the method
  \<^verbatim>\<open>Start\<close> overwrites that row with an older version: replicas that hold the old version drop the new one
  when it reaches them, and the old one comes back when the node pulls from them.
\<close>
theorem restart_regresses:
  assumes "Start C now snap a n = (Inr (), n')" "nd_clock n = NewClock"
    and "select_row KindRunner (RunnerID snap) (st_rows (nd_store n)) = Some old" "fst (tick now NewClock) < r_hlc old"
  shows "\<exists>new. select_row KindRunner (RunnerID snap) (st_rows (nd_store n')) = Some new \<and> r_hlc new < r_hlc old \<and>
    r_owner new = agent_owner a \<and>
    (\<forall>peer s s'. select_row KindRunner (RunnerID snap) (st_rows s) = Some old \<longrightarrow> ApplyRemote peer [new] s = (Inr (), s') \<longrightarrow>
      select_row KindRunner (RunnerID snap) (st_rows s') = Some old) \<and>
    (\<forall>peer s'. ApplyRemote peer [old] (nd_store n') = (Inr (), s') \<longrightarrow>
      select_row KindRunner (RunnerID snap) (st_rows s') = Some old)"
proof -
  let ?k = "(KindRunner, RunnerID snap)"
  obtain p where rows: "st_rows (nd_store n') = upsert_row \<lparr>r_kind = KindRunner, r_key = RunnerID snap, r_owner = agent_owner a,
      r_hlc = fst (tick now NewClock), r_tombstone = False, r_payload = p\<rparr> (st_rows (nd_store n))"
    using assms(1,2) by (auto simp: Start_def Let_def bindE_Inr clock_tick_def Key_def split: prod.splits
        dest!: emit_rows putRow_Inr)
  then obtain new where new: "tbl_select row_pk ?k (st_rows (nd_store n')) = Some new" "r_hlc new < r_hlc old"
      "r_owner new = agent_owner a" "row_pk new = ?k"
    using assms(4) by (simp add: tbl_select_upsert row_pk_def)
  have old: "row_pk old = ?k" using assms(3) by (auto dest: tbl_select_Some)
  have lost: "newer old new" "\<not> newer new old" using new(2) by (auto simp: newer_iff)
  have "tbl_select row_pk ?k (st_rows s') = Some old"
    if "tbl_select row_pk ?k (st_rows s) = Some old" "ApplyRemote peer [new] s = (Inr (), s')" for peer s s'
    using ApplyRemote_Inr [OF that(2)] that(1) lost(2) by (simp add: select_merge_row)
  moreover have "tbl_select row_pk ?k (st_rows s') = Some old" if "ApplyRemote peer [old] (nd_store n') = (Inr (), s')" for peer s'
    using ApplyRemote_Inr [OF that] new(1) lost(1) old by (simp add: select_merge_row)
  ultimately show ?thesis using new by (intro exI [of _ new]) auto
qed

theorem restart_regresses_witness:
  "\<exists>n' new. Start any_codec 5 ex_runner (agent_New ''a'' []) (ex_node [ex_row ''r'' ''a/ff'' 9]) = (Inr (), n') \<and>
     select_row KindRunner ''r'' (st_rows (nd_store n')) = Some new \<and> r_hlc new < HLC 9 0"
proof -
  let ?n = "ex_node [ex_row ''r'' ''a/ff'' 9]"
  obtain n' where n': "Start any_codec 5 ex_runner (agent_New ''a'' []) ?n = (Inr (), n')" using ex_Start by blast
  have "nd_clock ?n = NewClock" "select_row KindRunner (RunnerID ex_runner) (st_rows (nd_store ?n)) = Some (ex_row ''r'' ''a/ff'' 9)"
    "fst (tick 5 NewClock) < r_hlc (ex_row ''r'' ''a/ff'' 9)"
    by (simp_all add: ex_node_def ex_row_def ex_runner_def tick_def NewClock_def row_pk_def tbl_select_def less_hlc_def)
  then show ?thesis using restart_regresses [OF n'] n' by (auto simp: ex_row_def ex_runner_def)
qed


section \<open>The profiler\<close>

text \<open>The server \<^verbatim>\<open>main\<close> makes of its configuration.\<close>

definition plan_server :: "plan \<Rightarrow> server" where
  "plan_server p = api_New (cc_NodeID (cf_Cluster (pl_config p)))
     [\<lparr>op_AdminToken = nc_AdminToken (cf_Network (pl_config p)), op_EnablePprof = nc_EnablePprof (cf_Network (pl_config p))\<rparr>]"

lemma plan_server_eq:
  "plan_server p = \<lparr>sv_nodeID = cc_NodeID (cf_Cluster (pl_config p)), sv_adminToken = nc_AdminToken (cf_Network (pl_config p)),
     sv_enablePprof = nc_EnablePprof (cf_Network (pl_config p))\<rparr>"
  by (simp add: plan_server_def api_New_def)

lemma pprof_not_api: "take 2 (rq_path r) = [''debug'', ''pprof''] \<Longrightarrow> api_route L s rd r = None"
proof -
  assume p: "take 2 (rq_path r) = [''debug'', ''pprof'']"
  have "rq_path r = take 2 (rq_path r) @ drop 2 (rq_path r)" by simp
  then obtain rest where "rq_path r = ''debug'' # ''pprof'' # rest" using p by simp
  then show ?thesis by (simp add: api_route_def split: list.split)
qed

lemma mux_pprof:
  assumes "take 2 (rq_path r) = [''debug'', ''pprof'']" "mux L s rd r n = (Inr resp, n')" "rs_status resp \<notin> {401, 404, 405}"
  shows "sv_enablePprof s \<and> authorized s r"
proof (cases "sv_enablePprof s")
  case True
  then show ?thesis
    using assms by (auto simp: mux_def pprof_route_def adminOnly_def ret_def text_response_def writeJSON_def split: bool.splits if_splits)
next
  case False
  then show ?thesis using assms by (auto simp: mux_def pprof_not_api ret_def text_response_def)
qed

text \<open>
  C18. The profiler is behind the admin token. Take a daemon that has passed the guards of \<^verbatim>\<open>main\<close> and a
  request for a path of the profiler. If the answer is anything but 401, 404 or 405 then the
  profiler was enabled, the configured token is not blank, and the request carries that token,
  in the header for it or, when that header is empty, as the bearer of the authorization header.
\<close>
theorem pprof_guarded:
  assumes "startup fs yaml H f = Inr p" "take 2 (rq_path r) = [''debug'', ''pprof'']"
    and "Handler L (plan_server p) rd r n = (Inr resp, n')" "rs_status resp \<notin> {401, 404, 405}"
  shows "nc_EnablePprof (cf_Network (pl_config p)) \<and> TrimSpace (nc_AdminToken (cf_Network (pl_config p))) \<noteq> [] \<and>
    (let token = nc_AdminToken (cf_Network (pl_config p)); own = rq_header r ''X-Takl-Admin-Token'' in
     own = token \<or> own = [] \<and> TrimPrefix (rq_header r ''Authorization'') ''Bearer '' = token)"
proof -
  obtain resp0 n0 where m: "mux L (plan_server p) rd r n = (Inr resp0, n0)" and s: "rs_status resp = (if rs_status resp0 = 0 then 200 else rs_status resp0)"
    using assms(3) by (auto simp: Handler_def observeHTTP_def bindE_Inr Let_def on_metrics_def ret_def)
  have "rs_status resp0 \<notin> {401, 404, 405}" using s assms(4) by auto
  then have "sv_enablePprof (plan_server p)" "authorized (plan_server p) r" using mux_pprof [OF assms(2) m] by simp_all
  then show ?thesis
    using startup_Inr(10) [OF assms(1)]
    by (auto simp: plan_server_eq authorized_def refuse_pprof_def Let_def split: if_splits)
qed


definition pprof_config :: config where
  "pprof_config = secured_config\<lparr>cf_Network := (cf_Network secured_config)\<lparr>nc_AdminToken := ''t'', nc_EnablePprof := True\<rparr>\<rparr>"

lemma pprof_starts:
  "\<exists>p. startup (\<lambda>_. Content []) (\<lambda>_ _. Inr pprof_config) offline no_flags = Inr p \<and> pl_config p = pprof_config"
proof -
  have "TrimSpace ''t'' = ''t''" by (rule TrimSpace_graphic) (auto simp: graphic_def)
  then have "nc_SyncAddr (cf_Network pprof_config) = ''0.0.0.0:8100''" "Enabled (nc_SyncTLS (cf_Network pprof_config))"
    "Validate (nc_SyncTLS (cf_Network pprof_config)) = None" "\<not> refuse_pprof pprof_config" "\<not> refuse_gossip no_flags pprof_config"
    by (simp_all add: pprof_config_def secured_config_def example_config_def Enabled_def Validate_def refuse_pprof_def
        refuse_gossip_def profile_lan)
  then show ?thesis by (simp add: startup_def Load_def Let_def advertisedAddr_def example_split refuse_sync_def)
qed

theorem pprof_guarded_witness:
  "\<exists>p resp n'. startup (\<lambda>_. Content []) (\<lambda>_ _. Inr pprof_config) offline no_flags = Inr p \<and>
     Handler (ex_lib JNull) (plan_server p) \<lparr>rd_now = 1, rd_elapsed = 1, rd_rand = (\<lambda>_. Fin 0)\<rparr>
       ((ex_request ''GET'' [''debug'', ''pprof'', ''heap''])\<lparr>rq_header := (\<lambda>k. if k = ''X-Takl-Admin-Token'' then ''t'' else [])\<rparr>) (ex_node [])
       = (Inr resp, n') \<and> rs_status resp = 200 \<and> nc_EnablePprof (cf_Network (pl_config p))"
proof -
  let ?r = "(ex_request ''GET'' [''debug'', ''pprof'', ''heap''])\<lparr>rq_header := (\<lambda>k. if k = ''X-Takl-Admin-Token'' then ''t'' else [])\<rparr>"
  obtain p where p: "startup (\<lambda>_. Content []) (\<lambda>_ _. Inr pprof_config) offline no_flags = Inr p" "pl_config p = pprof_config"
    using pprof_starts by blast
  have s: "plan_server p = \<lparr>sv_nodeID = ''node-1'', sv_adminToken = ''t'', sv_enablePprof = True\<rparr>"
    by (simp add: plan_server_eq p(2) pprof_config_def secured_config_def example_config_def)
  obtain resp n' where h: "Handler (ex_lib JNull) (plan_server p) \<lparr>rd_now = 1, rd_elapsed = 1, rd_rand = (\<lambda>_. Fin 0)\<rparr> ?r (ex_node [])
      = (Inr resp, n')" "rs_status resp = 200"
    by (simp add: s Handler_def observeHTTP_def mux_def pprof_route_def adminOnly_def authorized_def ex_request_def ex_lib_def
        bindE_def ret_def on_metrics_def Let_def)
  have "take 2 (rq_path ?r) = [''debug'', ''pprof'']" by (simp add: ex_request_def)
  then show ?thesis using pprof_guarded [OF p(1) _ h(1)] p h by auto
qed


section \<open>Interleaving within an operation\<close>

text \<open>
  The steps above are whole operations. Between the stamp and the write of an operation another
  goroutine may merge a newer version of the same key; \<^verbatim>\<open>Put\<close> does not look at the stored stamp
  and replaces it with the older one. Here the operation is the update of a runner's labels.
\<close>

lemma put_after_merge:
  assumes "clock_tick now n = (Inr h, n1)" "RoundOnce C N peer n1 = (Inr (), n2)"
    and "select_row KindMeta rid (st_rows (nd_store n2)) = Some r" "h < r_hlc r"
    and "on_store (Put (meta_row s rid h payload)) n2 = (Inr (), n3)"
  shows "select_row KindMeta rid (st_rows (nd_store n3)) = Some (meta_row s rid h payload) \<and>
    newer r (meta_row s rid h payload) \<and> \<not> advanced (st_rows (nd_store n2)) (st_rows (nd_store n3))"
proof -
  let ?w = "meta_row s rid h payload"
  have "st_rows (nd_store n3) = upsert_row ?w (st_rows (nd_store n2))"
    using assms(5) by (auto simp: on_store_def Put_def split: prod.splits dest!: upsert_Inr)
  then have sel: "tbl_select row_pk (KindMeta, rid) (st_rows (nd_store n3)) = Some ?w"
    by (simp add: tbl_select_upsert row_pk_def meta_row_def)
  moreover have "newer r ?w" "\<not> newer ?w r" "?w \<noteq> r" using assms(4) by (auto simp: newer_iff meta_row_def)
  ultimately show ?thesis
    using assms(3) by (force simp: advanced_def)
qed

end
