(* ===== verification/Mailbox.thy ===== *)
theory Mailbox
  imports Agent "HOL-Library.Sublist"
begin

text \<open>
  The way of a membership event: \<^verbatim>\<open>memberlist\<close> calls the delegate, which posts the event to a
  channel of 256 places without waiting (\<^verbatim>\<open>trySend\<close>), and the goroutine of the agent
  (\<^verbatim>\<open>handleMembershipEvents\<close>) takes the events one by one.
\<close>

section \<open>The channel between cluster and agent\<close>

text \<open>Posting and taking in the order they happen; taking from an empty channel waits.\<close>

datatype mail_op = Post m_event | Take

fun mail :: "mail_op list \<Rightarrow> m_event list \<Rightarrow> m_event list \<Rightarrow> m_event list \<times> m_event list" where
  "mail [] queue taken = (queue, taken)"
| "mail (Post e # ops) queue taken = mail ops (trySend e queue) taken"
| "mail (Take # ops) [] taken = mail ops [] taken"
| "mail (Take # ops) (e # queue) taken = mail ops queue (taken @ [e])"

definition posts :: "mail_op list \<Rightarrow> m_event list" where
  "posts ops = concat (map (\<lambda>x. case x of Post e \<Rightarrow> [e] | Take \<Rightarrow> []) ops)"

lemma posts_simps [simp]: "posts [] = []" "posts (Post e # ops) = e # posts ops" "posts (Take # ops) = posts ops"
  by (simp_all add: posts_def)

lemma mail_subseq:
  "mail ops q t = (q', t') \<Longrightarrow> length q \<le> chan_cap \<Longrightarrow> length q' \<le> chan_cap \<and> subseq (t' @ q') (t @ q @ posts ops)"
proof (induction ops q t rule: mail.induct)
  case (2 e ops q t)
  have "subseq (t' @ q') (t @ trySend e q @ posts ops)" "length q' \<le> chan_cap" using 2 by (simp_all add: trySend_bound)
  moreover have "subseq (t @ trySend e q @ posts ops) (t @ q @ e # posts ops)"
    by (auto simp: trySend_def intro!: list_emb_append_mono)
  ultimately show ?case using subseq_order.order_trans by fastforce
qed simp_all

text \<open>Whenever an event is posted there is a place for it.\<close>

fun roomy :: "mail_op list \<Rightarrow> m_event list \<Rightarrow> bool" where
  "roomy [] queue = True"
| "roomy (Post e # ops) queue = (length queue < chan_cap \<and> roomy ops (trySend e queue))"
| "roomy (Take # ops) queue = roomy ops (tl queue)"

lemma mail_roomy: "mail ops q t = (q', t') \<Longrightarrow> roomy ops q \<Longrightarrow> t' @ q' = t @ q @ posts ops"
  by (induction ops q t rule: mail.induct) (auto simp: trySend_def)



section \<open>The goroutine of the agent\<close>

text \<open>Each event comes with the wall clock at the time it is taken.\<close>

primrec handleMembershipEvents :: "codec \<Rightarrow> agent \<Rightarrow> (int \<times> m_event) list \<Rightarrow> unit node_op" where
  "handleMembershipEvents C a [] = ret ()"
| "handleMembershipEvents C a (x # xs) =
     bindE (handle_event C (fst x) (snd x) a) (\<lambda>_. handleMembershipEvents C a xs)"

lemma handle_spares:
  assumes "handle_event C now ev a n = (res, n')" "r \<in> set (st_rows (nd_store n))"
    and "me_Type ev = EventLeave \<Longrightarrow> \<not> sql_like (me_NodeID ev @ ''/%'') (r_owner r)"
  shows "r \<in> set (st_rows (nd_store n'))"
  using handle_event_rows [OF assms(1)] assms(2,3) by (force simp: prune_def)

lemma handleMembershipEvents_spares:
  "handleMembershipEvents C a xs n = (res, n') \<Longrightarrow> r \<in> set (st_rows (nd_store n)) \<Longrightarrow>
     \<forall>(now, ev) \<in> set xs. me_Type ev = EventLeave \<longrightarrow> \<not> sql_like (me_NodeID ev @ ''/%'') (r_owner r) \<Longrightarrow>
     res = Inr () \<and> r \<in> set (st_rows (nd_store n'))"
proof (induction xs arbitrary: n)
  case (Cons x xs)
  obtain res1 n1 where 1: "handle_event C (fst x) (snd x) a n = (res1, n1)" by fastforce
  have "res1 = Inr ()" using handle_event_rows [OF 1] by simp
  moreover have "r \<in> set (st_rows (nd_store n1))"
    using Cons.prems(2,3) by (intro handle_spares [OF 1]) (auto simp: case_prod_beta)
  ultimately show ?case using Cons 1 by (simp add: bindE_def)
qed (simp add: ret_def)

text \<open>
  C33. A node that leaves can be overlooked. If 256 events are waiting when the cluster reports that a
  node has left, the report is dropped without a trace: the agent handles all that is waiting,
  and every live row of that node is still there and live, unless one of the waiting events
  prunes it.
\<close>
theorem leave_lost:
  assumes "length queue = 256" "length clocks = 256"
    and "handleMembershipEvents C a (zip clocks (NotifyLeave node queue)) n = (res, n')"
    and "r \<in> set (st_rows (nd_store n))" "r_owner r = ml_Name node @ ''/'' @ epoch" "\<not> r_tombstone r"
    and "\<forall>ev \<in> set queue. me_Type ev = EventLeave \<longrightarrow> \<not> sql_like (me_NodeID ev @ ''/%'') (r_owner r)"
  shows "NotifyLeave node queue = queue \<and> res = Inr () \<and> r \<in> set (st_rows (nd_store n'))"
proof -
  have q: "NotifyLeave node queue = queue" using assms(1) by (simp add: NotifyLeave_def trySend_def chan_cap_def)
  have "\<forall>(now, ev) \<in> set (zip clocks (NotifyLeave node queue)). me_Type ev = EventLeave \<longrightarrow> \<not> sql_like (me_NodeID ev @ ''/%'') (r_owner r)"
    using assms(7) q by (auto dest: set_zip_rightD)
  from handleMembershipEvents_spares [OF assms(3,4) this] q show ?thesis by simp
qed

theorem leave_lost_witness:
  "let queue = replicate 256 \<lparr>me_Type = EventUpdate, me_NodeID = ''c'', me_IP = ''3''\<rparr>;
       n = ex_node [ex_row ''b'' ''b/ff'' 3]; node = \<lparr>ml_Name = ''b'', ml_Addr = ''2'', ml_Meta = []\<rparr>
   in ex_row ''b'' ''b/ff'' 3 \<in> set (st_rows (nd_store
        (snd (handleMembershipEvents any_codec (agent_New ''a'' []) (zip (replicate 256 7) (NotifyLeave node queue)) n))))"
proof -
  let ?q = "replicate 256 \<lparr>me_Type = EventUpdate, me_NodeID = ''c'', me_IP = ''3''\<rparr>"
  let ?r = "ex_row ''b'' ''b/ff'' 3" and ?node = "\<lparr>ml_Name = ''b'', ml_Addr = ''2'', ml_Meta = []\<rparr>"
  have "\<forall>ev \<in> set ?q. me_Type ev = EventLeave \<longrightarrow> \<not> sql_like (me_NodeID ev @ ''/%'') (r_owner ?r)"
    by (simp add: EventUpdate_def EventLeave_def)
  then show ?thesis
    unfolding Let_def
    by (intro leave_lost [OF length_replicate length_replicate surjective_pairing, of ?r "ex_node [?r]" ?node "''ff''", THEN conjunct2, THEN conjunct2])
       simp_all
qed

end
