(* ===== verification/Daemon.thy ===== *)
theory Daemon
  imports Node_Run Mailbox
begin

text \<open>
  The life of the process (\<^verbatim>\<open>cmd/takld/main.go\<close> from the opening of the store on): what \<^verbatim>\<open>main\<close>
  acquires and starts, in its order, the calls it defers, what ends it, and how it shuts down.
  The files, the gossip library, the listener and the time things take are arguments.
\<close>

section \<open>The process\<close>

datatype deferred = Close_store | Shutdown_cluster | Stop_signals | Close_client | Stop_server | Cancel_timeout

datatype goroutine = Run_agent | Serve_sync | Run_engine | Serve_http

text \<open>What the process holds; the deferred calls, the last one first; the calls that have run.\<close>

record proc =
  pr_store :: "store option"
  pr_cluster :: "cluster option"
  pr_signals :: bool
  pr_listener :: "string option"
  pr_client :: bool
  pr_started :: "goroutine list"
  pr_defers :: "deferred list"
  pr_ran :: "deferred list"

definition proc_start :: proc where
  "proc_start = \<lparr>pr_store = None, pr_cluster = None, pr_signals = False, pr_listener = None, pr_client = False,
     pr_started = [], pr_defers = [], pr_ran = []\<rparr>"

record host =
  ho_denied :: "string \<Rightarrow> error option"
  ho_files :: fsys
  ho_disk :: "string \<Rightarrow> store"
  ho_gossip :: memberlist
  ho_listen :: "string \<Rightarrow> error option"

definition upd :: "(proc \<Rightarrow> proc) \<Rightarrow> (proc, unit) st_op" where
  "upd f pr = (Inr (), f pr)"

definition defers :: "deferred \<Rightarrow> (proc, unit) st_op" where
  "defers d = upd (\<lambda>pr. pr\<lparr>pr_defers := d # pr_defers pr\<rparr>)"

definition go :: "goroutine \<Rightarrow> (proc, unit) st_op" where
  "go g = upd (\<lambda>pr. pr\<lparr>pr_started := pr_started pr @ [g]\<rparr>)"

section \<open>Starting\<close>

definition open_store :: "host \<Rightarrow> plan \<Rightarrow> (proc, unit) st_op" where
  "open_store h p =
     (case Open (ho_disk h (st_DBPath (cf_Storage (pl_config p)))) (cc_NodeID (cf_Cluster (pl_config p))) of
        Inl e \<Rightarrow> throw e
      | Inr st \<Rightarrow> bindE (upd (\<lambda>pr. pr\<lparr>pr_store := Some st\<rparr>)) (\<lambda>_. defers Close_store))"

definition join_cluster :: "codec \<Rightarrow> host \<Rightarrow> plan \<Rightarrow> (proc, unit) st_op" where
  "join_cluster C h p =
     (case plan_cluster C (ho_gossip h) p of
        Inl e \<Rightarrow> throw e
      | Inr None \<Rightarrow> ret ()
      | Inr (Some c) \<Rightarrow> bindE (upd (\<lambda>pr. pr\<lparr>pr_cluster := Some c\<rparr>)) (\<lambda>_. defers Shutdown_cluster))"

definition start_sync :: "host \<Rightarrow> plan \<Rightarrow> (proc, unit) st_op" where
  "start_sync h p =
     (let addr = nc_SyncAddr (cf_Network (pl_config p)) in
      if addr \<noteq> [] then
        (case ho_listen h addr of
           Some e \<Rightarrow> throw e
         | None \<Rightarrow> bindE (upd (\<lambda>pr. pr\<lparr>pr_listener := Some addr\<rparr>)) (\<lambda>_.
                   bindE (go Serve_sync) (\<lambda>_. defers Stop_server)))
      else ret ())"

definition start_engine :: "plan \<Rightarrow> (proc, unit) st_op" where
  "start_engine p pr =
     (if length (pl_peers p) > 0 \<or> pr_cluster pr \<noteq> None then
        bindE (upd (\<lambda>pr. pr\<lparr>pr_client := True\<rparr>)) (\<lambda>_. go Run_engine) pr
      else ret () pr)"

text \<open>An error on the way is \<^verbatim>\<open>os.Exit(1)\<close>, which runs no deferred call.\<close>

definition boot :: "codec \<Rightarrow> host \<Rightarrow> plan \<Rightarrow> (proc, unit) st_op" where
  "boot C h p =
     bindE (case plan_creds (ho_denied h) (ho_files h) p of Inl e \<Rightarrow> throw e | Inr _ \<Rightarrow> ret ()) (\<lambda>_.
     bindE (open_store h p) (\<lambda>_.
     bindE (join_cluster C h p) (\<lambda>_.
     bindE (upd (\<lambda>pr. pr\<lparr>pr_signals := True\<rparr>)) (\<lambda>_.
     bindE (defers Stop_signals) (\<lambda>_.
     bindE (go Run_agent) (\<lambda>_.
     bindE (defers Close_client) (\<lambda>_.
     bindE (start_sync h p) (\<lambda>_.
     bindE (start_engine p) (\<lambda>_.
     go Serve_http)))))))))"

section \<open>Ending\<close>

text \<open>
  Waiting for something that takes \<open>t\<close> milliseconds, or forever, for \<open>limit\<close> milliseconds at most:
  the time spent, and whether it came to an end.
\<close>

definition limited :: "nat \<Rightarrow> nat option \<Rightarrow> nat \<times> bool" where
  "limited limit t = (case t of None \<Rightarrow> (limit, False) | Some t \<Rightarrow> if t \<le> limit then (t, True) else (limit, False))"

record waits =
  wt_requests :: "nat option"
  wt_pulls :: "nat option"
  wt_leave :: "nat \<times> error option"
  wt_gossip :: "error option"

text \<open>\<^verbatim>\<open>Cluster.Shutdown\<close>: a cluster that cannot be left in time is not shut down either.\<close>

definition cluster_Shutdown :: "waits \<Rightarrow> error option" where
  "cluster_Shutdown w = (case snd (wt_leave w) of Some e \<Rightarrow> Some e | None \<Rightarrow> wt_gossip w)"

definition run_deferred :: "waits \<Rightarrow> deferred \<Rightarrow> proc \<Rightarrow> nat \<times> proc" where
  "run_deferred w d pr =
     (let pr = pr\<lparr>pr_ran := pr_ran pr @ [d]\<rparr> in
      case d of
        Close_store \<Rightarrow> (0, pr\<lparr>pr_store := None\<rparr>)
      | Shutdown_cluster \<Rightarrow> (fst (wt_leave w), if cluster_Shutdown w = None then pr\<lparr>pr_cluster := None\<rparr> else pr)
      | Stop_signals \<Rightarrow> (0, pr\<lparr>pr_signals := False\<rparr>)
      | Close_client \<Rightarrow> (0, if pr_client pr then pr\<lparr>pr_client := False\<rparr> else pr)
      | Stop_server \<Rightarrow> (fst (limited 5000 (wt_pulls w)), pr\<lparr>pr_listener := None\<rparr>)
      | Cancel_timeout \<Rightarrow> (0, pr))"

primrec run_defers :: "waits \<Rightarrow> deferred list \<Rightarrow> proc \<Rightarrow> nat \<times> proc" where
  "run_defers w [] pr = (0, pr)"
| "run_defers w (d # ds) pr =
     (case run_deferred w d pr of (t, pr1) \<Rightarrow> (case run_defers w ds pr1 of (t', pr2) \<Rightarrow> (t + t', pr2)))"

text \<open>After \<^verbatim>\<open>ctx.Done\<close>: the HTTP server gets five seconds, then \<^verbatim>\<open>main\<close> returns.\<close>

definition shutdown :: "waits \<Rightarrow> proc \<Rightarrow> nat \<times> proc" where
  "shutdown w pr =
     (let t = fst (limited 5000 (wt_requests w));
          (t', pr') = run_defers w (Cancel_timeout # pr_defers pr) (pr\<lparr>pr_defers := []\<rparr>)
      in (t + t', pr'))"

text \<open>
  What ends a running daemon: a signal, a goroutine that returns an error, which cancels the
  context like a signal does, or a panic in a goroutine, which ends the process on the spot.
\<close>

datatype cause = Signalled | Failed goroutine error | Crashed goroutine string

datatype ending = Printed string | Exited int

definition takld_main ::
  "string \<times> string \<times> string \<Rightarrow> (string list \<Rightarrow> flags option) \<Rightarrow> (string \<Rightarrow> file_read) \<Rightarrow> (string \<Rightarrow> config \<Rightarrow> error + config) \<Rightarrow>
   host_net \<Rightarrow> codec \<Rightarrow> host \<Rightarrow> cause \<Rightarrow> waits \<Rightarrow> string list \<Rightarrow> ending \<times> nat \<times> proc" where
  "takld_main build parse fs yaml H C h why w args =
     (if args \<noteq> [] \<and> hd args = ''version'' then
        (case build of (v, g, d) \<Rightarrow> (Printed (Info v g d), 0, proc_start))
      else
        (case parse args of
           None \<Rightarrow> (Exited 2, 0, proc_start)
         | Some f \<Rightarrow>
             (case startup fs yaml H f of
                Inl _ \<Rightarrow> (Exited 1, 0, proc_start)
              | Inr p \<Rightarrow>
                  (case boot C h p proc_start of
                     (Inl _, pr) \<Rightarrow> (Exited 1, 0, pr)
                   | (Inr _, pr) \<Rightarrow>
                       (case why of
                          Crashed _ _ \<Rightarrow> (Exited 2, 0, pr)
                        | _ \<Rightarrow> (Exited 0, shutdown w pr))))))"


section \<open>What a start leaves behind\<close>

lemmas proc_ops = upd_def defers_def go_def bindE_def ret_def throw_def

text \<open>The calls \<^verbatim>\<open>main\<close> has deferred when it waits, in the order they will run.\<close>

definition cleanup :: "proc \<Rightarrow> deferred list" where
  "cleanup pr = (if pr_listener pr \<noteq> None then [Stop_server] else []) @ [Close_client, Stop_signals] @
     (if pr_cluster pr \<noteq> None then [Shutdown_cluster] else []) @ [Close_store]"

lemma boot_Inr:
  assumes "boot C h p proc_start = (Inr u, pr)"
  shows "pr_defers pr = cleanup pr" "pr_ran pr = []" "pr_store pr \<noteq> None"
  using assms unfolding boot_def
  by (auto simp: proc_ops open_store_def join_cluster_def start_sync_def start_engine_def cleanup_def proc_start_def Let_def
      split: sum.splits option.splits if_splits)

lemma boot_Inl:
  assumes "boot C h p proc_start = (Inl e, pr)"
  shows "pr_ran pr = []"
  using assms unfolding boot_def
  by (auto simp: proc_ops open_store_def join_cluster_def start_sync_def start_engine_def proc_start_def Let_def
      split: sum.splits option.splits if_splits)

lemma limited_le: "fst (limited l t) \<le> l"
  by (simp add: limited_def split: option.splits)

lemma run_defers_cleanup:
  assumes "run_defers w (Cancel_timeout # cleanup pr) pr = (t, pr')" "fst (wt_leave w) \<le> 1000"
  shows "t \<le> 6000 \<and> pr_ran pr' = pr_ran pr @ Cancel_timeout # cleanup pr \<and> pr_store pr' = None \<and> pr_listener pr' = None \<and>
    \<not> pr_client pr' \<and> \<not> pr_signals pr' \<and> (pr_cluster pr' \<noteq> None \<longrightarrow> cluster_Shutdown w \<noteq> None)"
  using assms limited_le [of 5000 "wt_pulls w"]
  by (auto simp: cleanup_def run_deferred_def Let_def split: if_splits)



text \<open>A goroutine that fails ends the daemon like a signal does, with status 0.\<close>

lemma failure_like_signal:
  "takld_main build parse fs yaml H C h (Failed g e) w args = takld_main build parse fs yaml H C h Signalled w args"
  by (simp add: takld_main_def split: option.splits sum.splits prod.splits)

text \<open>
  C35. A daemon that cannot listen does not clean up. If the address for sync is taken, the process
  exits with status 1 while it holds the open store, is a member of the cluster and has its agent
  running: the deferred calls that close the store and leave the cluster are pending and never run,
  so that the other nodes are not told that this one is gone.
\<close>
theorem listen_failure_abandons:
  assumes "args = [] \<or> hd args \<noteq> ''version''" "parse args = Some f" "startup fs yaml H f = Inr p"
    and "plan_creds (ho_denied h) (ho_files h) p = Inr creds"
    and "Open (ho_disk h (st_DBPath (cf_Storage (pl_config p)))) (cc_NodeID (cf_Cluster (pl_config p))) = Inr st"
    and "plan_cluster C (ho_gossip h) p = Inr (Some c)"
    and "nc_SyncAddr (cf_Network (pl_config p)) \<noteq> []" "ho_listen h (nc_SyncAddr (cf_Network (pl_config p))) = Some e"
  shows "takld_main build parse fs yaml H C h why w args =
    (Exited 1, 0, \<lparr>pr_store = Some st, pr_cluster = Some c, pr_signals = True, pr_listener = None, pr_client = False,
       pr_started = [Run_agent], pr_defers = [Close_client, Stop_signals, Shutdown_cluster, Close_store], pr_ran = []\<rparr>)"
proof -
  have "boot C h p proc_start = (Inl e, \<lparr>pr_store = Some st, pr_cluster = Some c, pr_signals = True, pr_listener = None,
      pr_client = False, pr_started = [Run_agent], pr_defers = [Close_client, Stop_signals, Shutdown_cluster, Close_store], pr_ran = []\<rparr>)"
    using assms(4-8) by (simp add: boot_def proc_ops open_store_def join_cluster_def start_sync_def proc_start_def Let_def)
  then show ?thesis using assms(1-3) by (auto simp: takld_main_def)
qed


section \<open>A host to start on\<close>

definition ex_host :: "error option \<Rightarrow> host" where
  "ex_host listen = \<lparr>ho_denied = (\<lambda>_. None), ho_files = Map.empty, ho_disk = (\<lambda>_. empty_disk), ho_gossip = ex_ml,
     ho_listen = (\<lambda>_. listen)\<rparr>"

definition ex_flags :: flags where
  "ex_flags = no_flags\<lparr>fl_allow_insecure_sync := True\<rparr>"

lemma ex_host_sel [simp]:
  "ho_denied (ex_host l) = (\<lambda>_. None)" "ho_files (ex_host l) = Map.empty" "ho_disk (ex_host l) q = empty_disk"
  "ho_gossip (ex_host l) = ex_ml" "ho_listen (ex_host l) a = l"
  by (simp_all add: ex_host_def)

lemma visit_ex_flags [simp]: "visit ex_flags c = c"
  using visit_no_flags [of c] by (simp add: visit_def ex_flags_def)

lemma ex_starts:
  "\<exists>p. startup (\<lambda>_. Content []) (\<lambda>_ _. Inr example_config) offline ex_flags = Inr p \<and> pl_config p = example_config"
proof -
  have "nc_SyncAddr (cf_Network example_config) = ''0.0.0.0:8100''" "\<not> Enabled (nc_SyncTLS (cf_Network example_config))"
    "\<not> refuse_pprof example_config" "\<not> refuse_gossip ex_flags example_config" "\<not> refuse_sync offline ex_flags example_config"
    by (simp_all add: example_config_def Enabled_def refuse_pprof_def refuse_gossip_def refuse_sync_def ex_flags_def profile_lan)
  then show ?thesis
    by (simp add: startup_def Load_def Let_def advertisedAddr_def example_split) (simp add: ex_flags_def)
qed

lemma ex_boot:
  assumes "startup (\<lambda>_. Content []) (\<lambda>_ _. Inr example_config) offline ex_flags = Inr p" "pl_config p = example_config"
  shows "plan_creds (\<lambda>_. None) Map.empty p = Inr None" "\<exists>st. Open empty_disk (cc_NodeID (cf_Cluster (pl_config p))) = Inr st"
    "\<exists>c. plan_cluster null_codec ex_ml p = Inr (Some c)" "nc_SyncAddr (cf_Network (pl_config p)) = ''0.0.0.0:8100''"
proof -
  show "plan_creds (\<lambda>_. None) Map.empty p = Inr None"
    using startup_Inr(4) [OF assms(1)] assms(2) by (simp add: plan_creds_def example_config_def Enabled_def)
  have "healthy (empty_disk\<lparr>st_node_id := i\<rparr>)" for i by (simp add: healthy_def empty_disk_def)
  then show "\<exists>st. Open empty_disk (cc_NodeID (cf_Cluster (pl_config p))) = Inr st"
    by (simp add: Open_def store_init_def db_simps)
  show "\<exists>c. plan_cluster null_codec ex_ml p = Inr (Some c)" "nc_SyncAddr (cf_Network (pl_config p)) = ''0.0.0.0:8100''"
    using assms(2) by (simp_all add: plan_cluster_def example_config_def NewCluster_def ex_ml_def Let_def)
qed

theorem listen_failure_abandons_witness:
  "\<exists>st c. takld_main (''v'', ''g'', ''d'') (\<lambda>_. Some ex_flags) (\<lambda>_. Content []) (\<lambda>_ _. Inr example_config) offline null_codec
      (ex_host (Some (ErrMsg ''address already in use''))) Signalled
      \<lparr>wt_requests = None, wt_pulls = None, wt_leave = (0, None), wt_gossip = None\<rparr> [] =
    (Exited 1, 0, \<lparr>pr_store = Some st, pr_cluster = Some c, pr_signals = True, pr_listener = None, pr_client = False,
       pr_started = [Run_agent], pr_defers = [Close_client, Stop_signals, Shutdown_cluster, Close_store], pr_ran = []\<rparr>)"
proof -
  obtain p where p: "startup (\<lambda>_. Content []) (\<lambda>_ _. Inr example_config) offline ex_flags = Inr p" "pl_config p = example_config"
    using ex_starts by blast
  note b = ex_boot [OF p]
  obtain st c where s: "Open empty_disk (cc_NodeID (cf_Cluster (pl_config p))) = Inr st" "plan_cluster null_codec ex_ml p = Inr (Some c)"
    using b(2,3) by blast
  show ?thesis
    by (intro exI [of _ st] exI [of _ c] listen_failure_abandons [where f = ex_flags and p = p and st = st and c = c]) (simp_all add: p(1) b(1,4) s)
qed



section \<open>The sampling interval\<close>

lemma startup_tick:
  assumes "startup fs yaml H f = Inr p"
  shows "startup fs yaml H (f\<lparr>fl_tick := Some t\<rparr>) =
    Inr (p\<lparr>pl_config := (pl_config p)\<lparr>cf_Agent := (cf_Agent (pl_config p))\<lparr>ac_Tick := t\<rparr>\<rparr>\<rparr>)"
proof -
  have v: "visit (f\<lparr>fl_tick := Some t\<rparr>) c = (visit f c)\<lparr>cf_Agent := (cf_Agent (visit f c))\<lparr>ac_Tick := t\<rparr>\<rparr>" for c
    by (simp add: visit_def Let_def or_old_def)
  have same: "runner_ip H (c\<lparr>cf_Agent := g\<rparr>) = runner_ip H c" "refuse_sync H (f\<lparr>fl_tick := Some t\<rparr>) (c\<lparr>cf_Agent := g\<rparr>) = refuse_sync H f c"
    "refuse_gossip (f\<lparr>fl_tick := Some t\<rparr>) (c\<lparr>cf_Agent := g\<rparr>) = refuse_gossip f c" "refuse_pprof (c\<lparr>cf_Agent := g\<rparr>) = refuse_pprof c" for c g
    by (simp_all add: runner_ip_def refuse_sync_def refuse_gossip_def refuse_pprof_def)
  obtain base where base: "(if fl_config f \<noteq> [] then Load fs yaml (fl_config f) Default else Inr Default) = Inr base"
    using assms by (auto simp: startup_def split: sum.splits)
  obtain adv where adv: "advertisedAddr (nc_SyncAddr (cf_Network (visit f base))) (runner_ip H (visit f base)) = Some adv"
    using assms unfolding startup_def base by (auto simp: Let_def split: option.splits)
  have base': "(if fl_config (f\<lparr>fl_tick := Some t\<rparr>) \<noteq> [] then Load fs yaml (fl_config (f\<lparr>fl_tick := Some t\<rparr>)) Default else Inr Default) = Inr base"
    using base by (simp split: if_splits)
  let ?c = "visit f base"
  have "Enabled (nc_SyncTLS (cf_Network ?c)) \<longrightarrow> Validate (nc_SyncTLS (cf_Network ?c)) = None" "\<not> refuse_sync H f ?c" "\<not> refuse_gossip f ?c" "\<not> refuse_pprof ?c"
    using assms unfolding startup_def base sum.case Let_def adv option.case by (auto split: if_splits)
  then show ?thesis
    using assms unfolding startup_def base base' sum.case Let_def v by (auto simp: same adv)
qed

text \<open>
  A sampling interval that is not positive brings the daemon down. No guard of \<^verbatim>\<open>main\<close> looks at the
  interval: a start that succeeds does so with any value of the flag. With zero or less the agent
  first publishes its runner as alive, and then the ticker panics, which ends the process; the row
  stays in the store.
\<close>
theorem tick_panics:
  assumes "startup fs yaml H f = Inr p" "t \<le> 0" "Start C now snap a n = (Inr (), n')"
  shows "\<exists>p' r. startup fs yaml H (f\<lparr>fl_tick := Some t\<rparr>) = Inr p' \<and>
    agent_Run C clustered (ac_Tick (cf_Agent (pl_config p'))) now snap turns (a, n) =
      (Inl (Panic ''non-positive interval for NewTicker''), (a, n')) \<and>
    select_row KindRunner (Key snap) (st_rows (nd_store n')) = Some r \<and> r_owner r = agent_owner a \<and> \<not> r_tombstone r"
proof -
  have "\<exists>r. select_row KindRunner (Key snap) (st_rows (nd_store n')) = Some r \<and> r_owner r = agent_owner a \<and> \<not> r_tombstone r"
    using assms(3)
    by (auto simp: Start_def bindE_Inr clock_tick_def Let_def Key_def tbl_select_upsert row_pk_def dest!: putRow_Inr emit_rows)
  then show ?thesis using startup_tick [OF assms(1), of t] assms(2,3) by (auto simp: agent_Run_def)
qed


theorem tick_panics_witness:
  "\<exists>p n'. startup (\<lambda>_. Content []) (\<lambda>_ _. Inr example_config) offline (ex_flags\<lparr>fl_tick := Some 0\<rparr>) = Inr p \<and>
     agent_Run any_codec True (ac_Tick (cf_Agent (pl_config p))) 7 ex_runner [] (agent_New ''a'' [], ex_node []) =
       (Inl (Panic ''non-positive interval for NewTicker''), (agent_New ''a'' [], n')) \<and> st_rows (nd_store n') \<noteq> []"
proof -
  obtain p where p: "startup (\<lambda>_. Content []) (\<lambda>_ _. Inr example_config) offline ex_flags = Inr p"
    using ex_starts by blast
  obtain n' where n': "Start any_codec 7 ex_runner (agent_New ''a'' []) (ex_node []) = (Inr (), n')"
    using ex_Start [of 7 "[]"] by blast
  from tick_panics [OF p order_refl n', of True "[]"] show ?thesis by fastforce
qed

end
