(* ===== verification/Repair.thy ===== *)
theory Repair
  imports Sync
begin

text \<open>
  What repeated rounds achieve whatever the watermarks were before: a peer may come by rows that
  are older than what it has sent already, which its watermark hides. Two rounds with a peer that
  does not change are enough to find this out from the checksums and to repair it, except where
  the checksum is zero, which the server takes for a checksum that was not sent.
\<close>

section \<open>Watermarks only rise\<close>

lemma batch_max_nonneg: "gm_get (batch_max rs) k = Some h \<Longrightarrow> hlc_zero \<le> h"
  using fold_max_ge [of hlc_zero r_hlc "filter (\<lambda>r. r_kind r = k) rs"]
  by (auto simp: batch_max_def batch_max_get split: if_splits)

lemma raised_mono:
  "st_watermarks s' = raise_watermarks peer (batch_max rs) (st_watermarks s) \<Longrightarrow> wm_of s peer k \<le> wm_of s' peer k"
  using batch_max_nonneg [of rs k] by (auto simp: wm_of_def raise_watermarks_def split: option.splits)

lemma round_events_mono:
  assumes "round_events C peer wm resp n = (Inr u, n')"
  shows "wm_of (nd_store n) peer KindEvent \<le> wm_of (nd_store n') peer KindEvent"
proof (cases "rs_events resp = []")
  case True
  then show ?thesis using assms by (simp add: round_events_def ret_def)
next
  case False
  then obtain inc evWm mx s1 s2 where 1: "ApplyEvents C inc (nd_store n) = (Inr (), s1)"
      and 2: "SetWatermark peer KindEvent evWm s1 = (Inr (), s2)" "nd_store n' = s2"
    using assms by (auto simp: round_events_def bindE_Inr on_store_Inr on_metrics_def on_clock_def throw_def split: sum.splits)
  have "wm_of s1 = wm_of (nd_store n)" using ApplyEvents_Inr [OF 1] by (auto simp: wm_of_def fun_eq_iff)
  then show ?thesis using SetWatermark_Inr [OF 2(1)] 2(2) by simp
qed

text \<open>After a round nothing of the peer is later than the watermarks the node has for it.\<close>

definition no_news :: "store \<Rightarrow> string \<Rightarrow> store \<Rightarrow> bool" where
  "no_news s peer q \<longleftrightarrow> (\<forall>r \<in> set (st_rows q). r_kind r \<in> set Kinds \<longrightarrow> r_hlc r \<le> wm_of s peer (r_kind r)) \<and>
     (\<forall>e \<in> set (st_events q). er_hlc e \<le> wm_of s peer KindEvent)"

lemma round_no_news:
  assumes "RoundOnce C N peer n = (Inr (), n')" "connected C N peer pid p"
    and "\<forall>r \<in> set (st_events (nd_store p)). canonical C r"
  shows "no_news (nd_store n') peer (nd_store p)"
  using assms(1,2)
proof (cases rule: RoundOnce_connected)
  case (answered n1 evs)
  let ?req = "round_request (nd_store n) peer" and ?t = "st_rows (nd_store p)" and ?e = "st_events (nd_store p)"
  have wm: "wm_of (nd_store n') peer k = wm_of (nd_store n1) peer k" if "k \<in> set Kinds" for k
    using answered(6) that by (auto simp: log_grows_def wm_of_def Kinds_def)
  have ev1: "wm_of (nd_store n1) peer KindEvent = wm_of (nd_store n) peer KindEvent"
    using raised_other [OF answered(2), of KindEvent] answer_subset [of ?req ?t] by (force simp: Kinds_def)
  obtain resp where resp: "rs_events resp = map (event_to_pb C) evs"
      "round_events C peer (wm_of (nd_store n) peer KindEvent) resp n1 = (Inr (), n')"
    using answered(8) by blast
  have canon: "\<forall>r \<in> set (answer_events ?req ?e). canonical C r" using assms(3) answer_events_subset by blast
  note log = round_events_Inr [OF resp(2,1) answered(7) canon]
  have "r_hlc r \<le> wm_of (nd_store n') peer (r_kind r)" if r: "r \<in> set ?t" "r_kind r \<in> set Kinds" for r
  proof (cases "wm_of (nd_store n) peer (r_kind r) < r_hlc r")
    case True
    then have "r \<in> set (answer ?req ?t)" using r by (intro answer_covers) (simp_all add: round_request_watermark)
    then show ?thesis using raised_covers [OF answered(2)] r by (simp add: wm)
  next
    case False
    then show ?thesis using raised_mono [OF answered(2), of "r_kind r"] r by (simp add: wm not_less)
  qed
  moreover have "er_hlc e \<le> wm_of (nd_store n') peer KindEvent" if "e \<in> set ?e" for e
  proof (cases "wm_of (nd_store n) peer KindEvent < er_hlc e")
    case True
    then have "e \<in> set (answer_events ?req ?e)"
      using that by (intro answer_events_covers) (simp_all add: req_event_wm_def round_request_def)
    then show ?thesis using log ev1 by simp
  next
    case False
    then show ?thesis using round_events_mono [OF resp(2)] ev1 by simp
  qed
  ultimately show ?thesis by (simp add: no_news_def)
qed simp

section \<open>A round without news\<close>

lemma changes_no_news: "no_news s peer q \<Longrightarrow> k \<in> set Kinds \<Longrightarrow> changes k (wm_of s peer k) (st_rows q) = []"
  by (subst set_empty [symmetric], subst set_changes) (auto simp: no_news_def not_less)

lemma event_changes_no_news: "no_news s peer q \<Longrightarrow> event_changes (wm_of s peer KindEvent) (st_events q) = []"
  by (subst set_empty [symmetric], subst set_event_changes) (auto simp: no_news_def not_less)

lemma answer_kind: "k \<in> set Kinds \<Longrightarrow> {r \<in> set (answer req t). r_kind r = k} = set (answer_rows req t k)"
  by (auto simp: answer_def answer_rows_def split: if_splits)

lemma answer_no_news:
  assumes "no_news s peer q" "k \<in> set Kinds"
  shows "{r \<in> set (answer (round_request s peer) (st_rows q)). r_kind r = k} =
    (if xor_loop (live_stamps k (st_rows s)) 0 \<in> {0, xor_loop (live_stamps k (st_rows q)) 0} then {}
     else {r \<in> set (st_rows q). r_kind r = k \<and> hlc_zero < r_hlc r})"
  using assms by (simp add: answer_kind answer_rows_def round_request_watermark round_request_checksum changes_no_news)

lemma answer_events_no_news:
  assumes "no_news s peer q"
  shows "set (answer_events (round_request s peer) (st_events q)) =
    (if xor_loop (event_stamps (st_events s)) 0 \<in> {0, xor_loop (event_stamps (st_events q)) 0} then {}
     else {e \<in> set (st_events q). hlc_zero < er_hlc e})"
  using assms event_changes_no_news [OF assms]
  by (simp add: answer_events_def req_event_wm_def round_request_def)

lemma RoundOnce_result:
  assumes "RoundOnce C N peer n = (Inr (), n')" "connected C N peer pid p"
    and "\<forall>r \<in> set (st_events (nd_store p)). canonical C r"
  shows "st_rows (nd_store n') = merge_rows (answer (round_request (nd_store n) peer) (st_rows (nd_store p))) (st_rows (nd_store n)) \<and>
    st_events (nd_store n') = evlog.ins_all (answer_events (round_request (nd_store n) peer) (st_events (nd_store p))) (st_events (nd_store n))"
  using assms(1,2)
proof (cases rule: RoundOnce_connected)
  case (answered n1 evs)
  have canon: "\<forall>r \<in> set (answer_events (round_request (nd_store n) peer) (st_events (nd_store p))). canonical C r"
    using assms(3) answer_events_subset by blast
  show ?thesis
    using answered(1,3,6,8) round_events_Inr [OF _ _ answered(7) canon] by (auto simp: log_grows_def)
qed simp


section \<open>Two rounds\<close>

text \<open>
  C10. Divergence is repaired. Whatever watermarks the node has kept for a peer, two rounds with it
  while it does not change, with databases that do not fail, succeed; afterwards the node holds
  every row of the peer, in that version or a newer one, for each kind whose checksums the
  second round found different, unless the node's own checksum was zero. The same goes for the
  events, up to numbers that are taken.
\<close>
theorem two_rounds_repair:
  assumes "replicable C (nd_store n)" "replicable C (nd_store p)" "connected C N peer pid p" "net_dial N peer = Inr c"
  shows "\<exists>n1 n2. RoundOnce C N peer n = (Inr (), n1) \<and> RoundOnce C N peer n1 = (Inr (), n2) \<and>
    (\<forall>k \<in> set Kinds. fst (Checksum k (nd_store n1)) \<in> {Inr 0, fst (Checksum k (nd_store p))} \<or>
       (\<forall>r \<in> set (st_rows (nd_store p)). r_kind r = k \<longrightarrow> has_version r (st_rows (nd_store n2)))) \<and>
    (fst (ChecksumEvents (nd_store n1)) \<in> {Inr 0, fst (ChecksumEvents (nd_store p))} \<or>
       (\<forall>e \<in> set (st_events (nd_store p)). event_pk e \<in> event_pk ` set (st_events (nd_store n2))))"
proof -
  have hp: "healthy (nd_store p)" and canon: "\<forall>r \<in> set (st_events (nd_store p)). canonical C r"
    using assms(2) by (simp_all add: replicable_def)
  obtain n1 where 1: "RoundOnce C N peer n = (Inr (), n1)" "healthy (nd_store n1)"
    using RoundOnce_healthy [OF _ hp assms(3,4) canon, of n] assms(1) by (auto simp: replicable_def)
  obtain n2 where 2: "RoundOnce C N peer n1 = (Inr (), n2)"
    using RoundOnce_healthy [OF 1(2) hp assms(3,4) canon] by blast
  note quiet = round_no_news [OF 1(1) assms(3) canon]
  note res1 = RoundOnce_result [OF 1(1) assms(3) canon] and res2 = RoundOnce_result [OF 2 assms(3) canon]
  have wf: "tbl_wf row_pk (st_rows (nd_store n1))" "tbl_wf event_pk (st_events (nd_store n1))"
    using res1 assms(1) by (auto simp: replicable_def store_wf_def)
  have "has_version r (st_rows (nd_store n2))"
    if "r \<in> set (st_rows (nd_store p))" "r_kind r \<in> set Kinds"
      "fst (Checksum (r_kind r) (nd_store n1)) \<notin> {Inr 0, fst (Checksum (r_kind r) (nd_store p))}" for r
  proof -
    have "r \<in> set (answer (round_request (nd_store n1) peer) (st_rows (nd_store p)))"
      using that answer_no_news [OF quiet that(2)] assms(2) 1(2) hp
      by (auto simp: db_simps replicable_def split: if_splits)
    then show ?thesis using res2 wf(1) by (simp add: has_version_merge)
  qed
  moreover have "event_pk e \<in> event_pk ` set (st_events (nd_store n2))"
    if "e \<in> set (st_events (nd_store p))"
      "fst (ChecksumEvents (nd_store n1)) \<notin> {Inr 0, fst (ChecksumEvents (nd_store p))}" for e
  proof -
    have "e \<in> set (answer_events (round_request (nd_store n1) peer) (st_events (nd_store p)))"
      using that answer_events_no_news [OF quiet] assms(2) 1(2) hp
      by (auto simp: db_simps replicable_def split: if_splits)
    then have "tbl_select event_pk (event_pk e) (st_events (nd_store n2)) \<noteq> None"
      using res2 evlog.ins_all_has by metis
    then show ?thesis by (simp add: tbl_select_None)
  qed
  ultimately show ?thesis using 1(1) 2 by blast
qed


theorem two_rounds_repair_witness:
  "let p = ex_node [ex_row ''a'' ''x'' 9, ex_row ''b'' ''y'' 5];
       n = (ex_node [ex_row ''c'' ''z'' 3])\<lparr>nd_store := empty_disk\<lparr>st_rows := [ex_row ''c'' ''z'' 3],
             st_watermarks := Map.empty((''p'', KindRunner) \<mapsto> HLC 7 0)\<rparr>\<rparr>
   in \<exists>n1 n2. RoundOnce null_codec (ex_net p) ''p'' n = (Inr (), n1) \<and> RoundOnce null_codec (ex_net p) ''p'' n1 = (Inr (), n2) \<and>
        (fst (Checksum KindRunner (nd_store n1)) \<in> {Inr 0, fst (Checksum KindRunner (nd_store p))} \<or>
         has_version (ex_row ''b'' ''y'' 5) (st_rows (nd_store n2)))"
proof -
  let ?p = "ex_node [ex_row ''a'' ''x'' 9, ex_row ''b'' ''y'' 5]"
  let ?n = "(ex_node [ex_row ''c'' ''z'' 3])\<lparr>nd_store := empty_disk\<lparr>st_rows := [ex_row ''c'' ''z'' 3],
             st_watermarks := Map.empty((''p'', KindRunner) \<mapsto> HLC 7 0)\<rparr>\<rparr>"
  have "replicable null_codec (nd_store ?n)" "replicable null_codec (nd_store ?p)"
    by (simp_all add: replicable_def store_wf_def Kinds_def hlc_zero_def healthy_def empty_disk_def ex_node_def)
  from two_rounds_repair [OF this ex_connected] show ?thesis
    by (fastforce simp: Let_def Kinds_def)
qed

section \<open>Replicas without live rows\<close>

lemma filter_upsert_other:
  "(\<And>x. P x \<Longrightarrow> pk x \<noteq> pk r) \<Longrightarrow> \<not> P r \<Longrightarrow> filter P (tbl_upsert pk r t) = filter P t"
  by (induction t) auto

lemma filter_merge_other:
  "\<forall>r \<in> set rs. r_kind r \<noteq> k \<Longrightarrow> filter (\<lambda>r. r_kind r = k) (merge_rows rs t) = filter (\<lambda>r. r_kind r = k) t"
proof (induction rs arbitrary: t)
  case (Cons r rs)
  have "filter (\<lambda>r. r_kind r = k) (merge_row r t) = filter (\<lambda>r. r_kind r = k) t"
    using Cons.prems by (auto simp: merge_row_def row_pk_def split: option.splits intro!: filter_upsert_other)
  then show ?case using Cons by simp
qed simp

text \<open>What a round leaves alone when the peer has no news of a kind and the node no live row of it.\<close>

definition overlooked :: "kind \<Rightarrow> string \<Rightarrow> store \<Rightarrow> node \<Rightarrow> bool" where
  "overlooked k peer q n \<longleftrightarrow> (\<forall>r \<in> set (st_rows q). r_kind r = k \<longrightarrow> r_hlc r \<le> wm_of (nd_store n) peer k) \<and>
     (\<forall>r \<in> set (st_rows (nd_store n)). r_kind r = k \<longrightarrow> r_tombstone r)"

lemma overlooked_answer:
  assumes "overlooked k peer (nd_store p) n" "k \<in> set Kinds"
  shows "answer_rows (round_request (nd_store n) peer) (st_rows (nd_store p)) k = []"
proof -
  have "changes k (wm_of (nd_store n) peer k) (st_rows (nd_store p)) = []"
    by (subst set_empty [symmetric], subst set_changes) (use assms in \<open>auto simp: overlooked_def not_less\<close>)
  moreover have "live_stamps k (st_rows (nd_store n)) = []"
    using assms(1) by (auto simp: overlooked_def live_stamps_def filter_empty_conv)
  ultimately show ?thesis
    using assms(2) by (simp add: answer_rows_def round_request_watermark round_request_checksum)
qed

lemma overlooked_step:
  assumes "overlooked k peer (nd_store p) n" "k \<in> set Kinds" "connected C N peer pid p" "RoundOnce C N peer n = (res, n')"
  shows "overlooked k peer (nd_store p) n' \<and>
    filter (\<lambda>r. r_kind r = k) (st_rows (nd_store n')) = filter (\<lambda>r. r_kind r = k) (st_rows (nd_store n))"
  using assms(4,3)
proof (cases rule: RoundOnce_connected)
  case (failed e)
  then show ?thesis using assms(1) by (simp add: overlooked_def same_data_def same_tables_def wm_of_def)
next
  case (answered n1 evs)
  let ?ans = "answer (round_request (nd_store n) peer) (st_rows (nd_store p))"
  have none: "\<forall>r \<in> set ?ans. r_kind r \<noteq> k"
    using overlooked_answer [OF assms(1,2)] answer_kind [OF assms(2), of "round_request (nd_store n) peer" "st_rows (nd_store p)"]
    by auto
  have rows: "st_rows (nd_store n') = merge_rows ?ans (st_rows (nd_store n))"
    using answered(1,6) by (simp add: log_grows_def)
  have same: "filter (\<lambda>r. r_kind r = k) (st_rows (nd_store n')) = filter (\<lambda>r. r_kind r = k) (st_rows (nd_store n))"
    unfolding rows using none by (rule filter_merge_other)
  then have "{r \<in> set (st_rows (nd_store n')). r_kind r = k} = {r \<in> set (st_rows (nd_store n)). r_kind r = k}"
    by (metis set_filter)
  moreover have "wm_of (nd_store n') peer k = wm_of (nd_store n) peer k"
    using raised_other [OF answered(2) none] answered(6) assms(2) by (auto simp: log_grows_def wm_of_def Kinds_def)
  ultimately show ?thesis using assms(1) same by (auto simp: overlooked_def)
qed

text \<open>
  C34. A replica without live rows is not repaired. If a node has no live row of a kind, for instance
  only tombstones, and its watermark for a peer is at or past all the peer has of that kind, then
  no number of rounds with that peer changes its rows of the kind, whatever live rows the peer
  holds: the checksum of the node is zero, which the server takes for a checksum that was not sent.
\<close>
theorem empty_replica_stuck:
  assumes "connected C N peer pid p" "k \<in> set Kinds"
    and "\<forall>r \<in> set (st_rows (nd_store p)). r_kind r = k \<longrightarrow> r_hlc r \<le> wm_of (nd_store n) peer k"
    and "\<forall>r \<in> set (st_rows (nd_store n)). r_kind r = k \<longrightarrow> r_tombstone r"
  shows "filter (\<lambda>r. r_kind r = k) (st_rows (nd_store (((\<lambda>m. snd (RoundOnce C N peer m)) ^^ i) n))) =
    filter (\<lambda>r. r_kind r = k) (st_rows (nd_store n))"
proof -
  let ?n = "\<lambda>i. ((\<lambda>m. snd (RoundOnce C N peer m)) ^^ i) n"
  have "overlooked k peer (nd_store p) (?n i) \<and>
    filter (\<lambda>r. r_kind r = k) (st_rows (nd_store (?n i))) = filter (\<lambda>r. r_kind r = k) (st_rows (nd_store n))"
  proof (induction i)
    case 0
    then show ?case using assms(3,4) by (simp add: overlooked_def)
  next
    case (Suc i)
    then show ?case using overlooked_step [OF _ assms(2,1) surjective_pairing, of "?n i"] by simp
  qed
  then show ?thesis by simp
qed

theorem empty_replica_stuck_witness:
  "let gone = (ex_row ''a'' ''x'' 9)\<lparr>r_tombstone := True\<rparr>; p = ex_node [gone, ex_row ''b'' ''y'' 5];
       n = (ex_node [gone])\<lparr>nd_store := empty_disk\<lparr>st_rows := [gone],
             st_watermarks := Map.empty((''p'', KindRunner) \<mapsto> HLC 9 0)\<rparr>\<rparr>
   in \<forall>i. filter (\<lambda>r. r_kind r = KindRunner)
        (st_rows (nd_store (((\<lambda>m. snd (RoundOnce null_codec (ex_net p) ''p'' m)) ^^ i) n))) = [gone]"
proof -
  let ?gone = "(ex_row ''a'' ''x'' 9)\<lparr>r_tombstone := True\<rparr>"
  let ?p = "ex_node [?gone, ex_row ''b'' ''y'' 5]"
  let ?n = "(ex_node [?gone])\<lparr>nd_store := empty_disk\<lparr>st_rows := [?gone],
             st_watermarks := Map.empty((''p'', KindRunner) \<mapsto> HLC 9 0)\<rparr>\<rparr>"
  have "\<forall>r \<in> set (st_rows (nd_store ?p)). r_kind r = KindRunner \<longrightarrow> r_hlc r \<le> wm_of (nd_store ?n) ''p'' KindRunner"
    "\<forall>r \<in> set (st_rows (nd_store ?n)). r_kind r = KindRunner \<longrightarrow> r_tombstone r" "KindRunner \<in> set Kinds"
    by (simp_all add: wm_of_def ex_row_def less_eq_hlc_def less_hlc_def Kinds_def)
  then show ?thesis
    using empty_replica_stuck [OF ex_connected(1), of KindRunner ?p ?n "''p''"] by (simp add: Let_def ex_row_def)
qed

end
