(* ===== verification/Gossip.thy ===== *)
theory Gossip
  imports Repair
begin

text \<open>
  A cluster of any number of nodes that pull from each other. A schedule says who pulls from whom
  and which of the pulls are lost; the rounds of the nodes interleave in its order. The invariant
  below says what each node holds of the others after a prefix of the schedule.
\<close>

section \<open>Pulls along a schedule\<close>

text \<open>
  The network between a node and the peer \<open>p\<close>: the peer's server answers, or the call fails on
  the way.
\<close>

definition peer_net :: "codec \<Rightarrow> node \<Rightarrow> bool \<Rightarrow> net" where
  "peer_net C p ok = \<lparr>net_state = (\<lambda>_. Ready), net_dial = (\<lambda>_. Inr 0), net_close = (\<lambda>_. None),
     net_call = (\<lambda>_ req. if ok then fst (server_Pull C (st_node_id (nd_store p)) req p) else Inl (ErrRpc ''unreachable''))\<rparr>"

text \<open>The nodes by their addresses; an entry \<open>(a, b, ok)\<close> is a round of \<open>a\<close> with \<open>b\<close>.\<close>

type_synonym pull = "string \<times> string \<times> bool"

definition pull_step :: "codec \<Rightarrow> pull \<Rightarrow> (string \<Rightarrow> node) \<Rightarrow> string \<Rightarrow> node" where
  "pull_step C = (\<lambda>(a, b, ok) S. S(a := snd (RoundOnce C (peer_net C (S b) ok) b (S a))))"

definition pulls :: "codec \<Rightarrow> pull list \<Rightarrow> (string \<Rightarrow> node) \<Rightarrow> string \<Rightarrow> node" where
  "pulls C ps S = fold (pull_step C) ps S"

lemma peer_net_connected: "connected C (peer_net C p True) peer (st_node_id (nd_store p)) p" "net_dial (peer_net C p ok) peer = Inr 0"
  by (simp_all add: connected_def peer_net_def)

lemma peer_net_lost: "net_call (peer_net C p False) cc req = Inl (ErrRpc ''unreachable'')"
  by (simp add: peer_net_def)

lemma pull_lost:
  assumes "healthy (nd_store n)"
  shows "nd_store (snd (RoundOnce C (peer_net C p False) peer n)) = nd_store n"
proof -
  obtain w ch where k: "round_kinds peer Kinds [] [] n = (Inr (w, ch), n)"
    using round_kinds_healthy [OF assms] by blast
  obtain cc cs where "client_conn (peer_net C p False) peer n = (Inr cc, n\<lparr>nd_conns := cs\<rparr>)"
    using client_conn_ok [OF peer_net_connected(2)] by blast
  then show ?thesis
    using assms k by (simp add: RoundOnce_def db_simps client_Pull_def Let_def peer_net_lost bindE_def)
qed

section \<open>One round\<close>

lemma RoundOnce_other_peers:
  assumes "RoundOnce C N peer n = (Inr (), n')" "connected C N peer pid p" "q \<noteq> peer"
  shows "wm_of (nd_store n') q k = wm_of (nd_store n) q k"
  using assms(1,2)
proof (cases rule: RoundOnce_connected)
  case (answered n1 evs)
  then show ?thesis using assms(3) by (simp add: log_grows_def wm_of_def raise_watermarks_def)
qed simp

lemma has_version_grows:
  assumes "tbl_wf row_pk t" "has_version r t"
  shows "has_version r (merge_rows rs t)"
  using has_version_merge assms by blast

lemma has_version_via:
  assumes "has_version r t" "\<forall>c \<in> set t. has_version c u"
  shows "has_version r u"
proof -
  obtain c where c: "tbl_select row_pk (row_pk r) t = Some c" "\<not> newer r c"
    using assms(1) by (auto simp: has_version_def)
  then have "c \<in> set t" "row_pk c = row_pk r" by (auto dest: tbl_select_Some)
  then obtain d where "tbl_select row_pk (row_pk r) u = Some d" "\<not> newer c d"
    using assms(2) by (auto simp: has_version_def)
  then show ?thesis using c(2) not_newer_trans by (auto simp: has_version_def)
qed

text \<open>What a round that is answered does to a node of the cluster.\<close>

lemma pull_answered:
  fixes peer :: string
  assumes "replicable C (nd_store n)" "replicable C (nd_store p)"
    and "inj_on event_pk (set (st_events (nd_store p)) \<union> set (st_events (nd_store n)))"
  defines "n' \<equiv> snd (RoundOnce C (peer_net C p True) peer n)"
  shows "replicable C (nd_store n')"
    and "set (st_rows (nd_store n')) \<subseteq> set (st_rows (nd_store n)) \<union> set (st_rows (nd_store p))"
    and "set (st_events (nd_store n')) \<subseteq> set (st_events (nd_store n)) \<union> set (st_events (nd_store p))"
    and "has_version r (st_rows (nd_store n)) \<Longrightarrow> has_version r (st_rows (nd_store n'))"
    and "set (st_events (nd_store n)) \<subseteq> set (st_events (nd_store n'))"
    and "q \<noteq> peer \<Longrightarrow> unacquainted (nd_store n) q \<Longrightarrow> unacquainted (nd_store n') q"
    and "unacquainted (nd_store n) peer \<Longrightarrow> c \<in> set (st_rows (nd_store p)) \<Longrightarrow> has_version c (st_rows (nd_store n'))"
    and "unacquainted (nd_store n) peer \<Longrightarrow> set (st_events (nd_store p)) \<subseteq> set (st_events (nd_store n'))"
proof -
  let ?N = "peer_net C p True" and ?rq = "round_request (nd_store n) peer"
  let ?A = "answer ?rq (st_rows (nd_store p))" and ?E = "answer_events ?rq (st_events (nd_store p))"
  have canon: "\<forall>r \<in> set (st_events (nd_store p)). canonical C r" and h: "healthy (nd_store n)" "healthy (nd_store p)"
    and wf: "tbl_wf row_pk (st_rows (nd_store n))" "tbl_wf event_pk (st_events (nd_store n))"
    using assms(1,2) by (simp_all add: replicable_def store_wf_def)
  have r: "RoundOnce C ?N peer n = (Inr (), n')" and h': "healthy (nd_store n')"
    using RoundOnce_healthy [OF h peer_net_connected canon, of peer] by (auto simp: n'_def)
  note res = RoundOnce_result [OF r peer_net_connected(1) canon]
  have ev: "set (st_events (nd_store n')) = set ?E \<union> set (st_events (nd_store n))"
    using res assms(3) answer_events_subset [of ?rq "st_events (nd_store p)"]
    by (simp, intro ins_all_union [OF wf(2)]) (auto elim: inj_on_subset)
  show sub: "set (st_rows (nd_store n')) \<subseteq> set (st_rows (nd_store n)) \<union> set (st_rows (nd_store p))"
    using res set_merge_rows [of ?A "st_rows (nd_store n)"] answer_subset [of ?rq "st_rows (nd_store p)"] by auto
  show sub': "set (st_events (nd_store n')) \<subseteq> set (st_events (nd_store n)) \<union> set (st_events (nd_store p))"
    and "set (st_events (nd_store n)) \<subseteq> set (st_events (nd_store n'))"
    using ev answer_events_subset [of ?rq "st_events (nd_store p)"] by auto
  have "store_wf (nd_store n')" using res wf by (auto simp: store_wf_def)
  then show "replicable C (nd_store n')"
    using sub sub' h' assms(1,2) by (auto simp: replicable_def)
  show "has_version r (st_rows (nd_store n)) \<Longrightarrow> has_version r (st_rows (nd_store n'))"
    using res wf(1) by (simp add: has_version_grows)
  show "q \<noteq> peer \<Longrightarrow> unacquainted (nd_store n) q \<Longrightarrow> unacquainted (nd_store n') q"
    using RoundOnce_other_peers [OF r peer_net_connected(1)] by (simp add: unacquainted_def)
  note first = first_contact [OF r peer_net_connected(1) assms(1,2)]
  show "unacquainted (nd_store n) peer \<Longrightarrow> c \<in> set (st_rows (nd_store p)) \<Longrightarrow> has_version c (st_rows (nd_store n'))"
    using first wf(1) by (simp add: has_version_merge)
  show "unacquainted (nd_store n) peer \<Longrightarrow> set (st_events (nd_store p)) \<subseteq> set (st_events (nd_store n'))"
    using first ev by auto
qed

section \<open>What the nodes hold along a schedule\<close>

text \<open>All rows and all events the members \<open>A\<close> of a cluster hold.\<close>

definition cluster_rows :: "string set \<Rightarrow> (string \<Rightarrow> node) \<Rightarrow> row set" where
  "cluster_rows A S = (\<Union>a \<in> A. set (st_rows (nd_store (S a))))"

definition cluster_events :: "string set \<Rightarrow> (string \<Rightarrow> node) \<Rightarrow> event_row set" where
  "cluster_events A S = (\<Union>a \<in> A. set (st_events (nd_store (S a))))"

text \<open>The node \<open>n\<close> holds what the node \<open>p\<close> had, rows in that version or a newer one.\<close>

definition covers :: "node \<Rightarrow> node \<Rightarrow> bool" where
  "covers n p \<longleftrightarrow> (\<forall>r \<in> set (st_rows (nd_store p)). has_version r (st_rows (nd_store n))) \<and>
     set (st_events (nd_store p)) \<subseteq> set (st_events (nd_store n))"

text \<open>
  After the pulls \<open>D\<close> have been answered, a member covers the initial state of itself and of those
  it pulled from, and has no watermark for the others.
\<close>

definition spread :: "codec \<Rightarrow> string set \<Rightarrow> (string \<Rightarrow> node) \<Rightarrow> (string \<times> string) set \<Rightarrow> (string \<Rightarrow> node) \<Rightarrow> bool" where
  "spread C A S0 D S \<longleftrightarrow> cluster_rows A S \<subseteq> cluster_rows A S0 \<and> cluster_events A S \<subseteq> cluster_events A S0 \<and>
     (\<forall>a \<in> A. replicable C (nd_store (S a)) \<and> covers (S a) (S0 a) \<and>
        (\<forall>b \<in> A. covers (S a) (S0 b) \<or> (a, b) \<notin> D \<and> unacquainted (nd_store (S a)) b))"

lemma spread_pair:
  "spread C A S0 D S \<Longrightarrow> a \<in> A \<Longrightarrow> b \<in> A \<Longrightarrow>
     covers (S a) (S0 b) \<or> (a, b) \<notin> D \<and> unacquainted (nd_store (S a)) b"
  by (simp add: spread_def)

lemma covers_trans: "covers n p \<Longrightarrow> covers p q \<Longrightarrow> covers n q"
  unfolding covers_def by (blast intro: has_version_via)

lemma covers_refl: "replicable C (nd_store n) \<Longrightarrow> covers n n"
  by (simp add: covers_def has_version_self replicable_def store_wf_def)

lemma spread_lost:
  assumes "spread C A S0 D S" "a \<in> A"
  shows "spread C A S0 D (pull_step C (a, b, False) S)"
proof -
  have "nd_store (pull_step C (a, b, False) S c) = nd_store (S c)" for c
    using assms by (simp add: pull_step_def pull_lost spread_def replicable_def)
  then show ?thesis
    using assms(1) by (simp add: spread_def covers_def cluster_rows_def cluster_events_def)
qed

lemma UN_update:
  assumes "set (f (nd_store n)) \<subseteq> set (f (nd_store (S a))) \<union> set (f (nd_store (S b)))" "a \<in> A" "b \<in> A"
  shows "(\<Union>c \<in> A. set (f (nd_store ((S(a := n)) c)))) \<subseteq> (\<Union>c \<in> A. set (f (nd_store (S c))))"
  using assms by (intro UN_least) (auto split: if_splits)

lemma spread_answered:
  assumes "spread C A S0 D S" "a \<in> A" "b \<in> A" "inj_on event_pk (cluster_events A S0)"
  shows "spread C A S0 (insert (a, b) D) (pull_step C (a, b, True) S)"
proof -
  let ?n = "snd (RoundOnce C (peer_net C (S b) True) b (S a))"
  have rep: "replicable C (nd_store (S a))" "replicable C (nd_store (S b))"
    and own: "covers (S b) (S0 b)" and E: "cluster_events A S \<subseteq> cluster_events A S0"
    using assms(1-3) by (simp_all add: spread_def)
  have "inj_on event_pk (set (st_events (nd_store (S b))) \<union> set (st_events (nd_store (S a))))"
    using assms(2-4) E by (elim inj_on_subset) (auto simp: cluster_events_def)
  note p = pull_answered [OF rep this]
  have keep: "covers ?n q" if "covers (S a) q" for q
    using that p(4) [of _ b] p(5) [of b] by (auto simp: covers_def)
  have new: "covers ?n (S0 b)" if "unacquainted (nd_store (S a)) b"
    using covers_trans [OF _ own] p(7,8) that by (simp add: covers_def)
  have "cluster_rows A (S(a := ?n)) \<subseteq> cluster_rows A S" "cluster_events A (S(a := ?n)) \<subseteq> cluster_events A S"
    unfolding cluster_rows_def cluster_events_def
    using UN_update [OF p(2) assms(2,3)] UN_update [OF p(3) assms(2,3)] by simp_all
  moreover have "covers ?n (S0 c) \<or> (a, c) \<notin> insert (a, b) D \<and> unacquainted (nd_store ?n) c" if "c \<in> A" for c
    using spread_pair [OF assms(1,2) that] keep new p(6) [of c b] by (cases "c = b") auto
  ultimately show ?thesis
    using assms(1,2) p(1) keep by (auto simp: spread_def pull_step_def)
qed

lemma spread_pulls:
  assumes "spread C A S0 D S" "inj_on event_pk (cluster_events A S0)" "\<forall>(a, b, ok) \<in> set ps. a \<in> A \<and> b \<in> A"
  shows "spread C A S0 (D \<union> {(a, b). (a, b, True) \<in> set ps}) (pulls C ps S)"
  using assms(1,3)
proof (induction ps arbitrary: D S)
  case (Cons e ps)
  obtain a b ok where e: "e = (a, b, ok)" by (cases e)
  have "spread C A S0 (D \<union> {(c, d). (c, d, True) = e}) (pull_step C e S)"
    using spread_lost [of C A S0 D S a b] spread_answered [of C A S0 D S a b] Cons.prems assms(2)
    by (cases ok) (auto simp: e)
  from Cons.IH [OF this] Cons.prems(2) show ?case
    by (simp add: pulls_def Collect_disj_eq case_prod_unfold Un_assoc)
qed (simp add: pulls_def)

text \<open>A table that holds a version of each row of \<open>U\<close>, and only rows of \<open>U\<close>, holds the newest.\<close>

lemma newest_exact:
  assumes "tbl_wf row_pk t" "set t \<subseteq> U" "stamp_unique U" "\<forall>r \<in> U. has_version r t"
  shows "set t = {r \<in> U. \<forall>c \<in> U. row_pk c = row_pk r \<longrightarrow> \<not> newer c r}"
proof (intro set_eqI iffI)
  fix r assume r: "r \<in> set t"
  have "\<not> newer c r" if "c \<in> U" "row_pk c = row_pk r" for c
  proof -
    have "tbl_select row_pk (row_pk c) t = Some r" using that r assms(1) by (simp add: tbl_select_iff)
    moreover have "has_version c t" using that assms(4) by blast
    ultimately show ?thesis by (simp add: has_version_def)
  qed
  then show "r \<in> {r \<in> U. \<forall>c \<in> U. row_pk c = row_pk r \<longrightarrow> \<not> newer c r}" using r assms(2) by blast
next
  fix r assume r: "r \<in> {r \<in> U. \<forall>c \<in> U. row_pk c = row_pk r \<longrightarrow> \<not> newer c r}"
  then obtain c where c: "c \<in> set t" "row_pk c = row_pk r" "\<not> newer r c"
    using assms(4) by (auto simp: has_version_def dest!: tbl_select_Some)
  then have "\<not> newer c r" "c \<in> U" "r \<in> U" using r assms(2) by auto
  then have "c = r"
    using c(2,3) assms(3) by (auto simp: stamp_unique_def newer_iff not_less_iff_gr_or_eq)
  then show "r \<in> set t" using c(1) by simp
qed



end
