(* ===== verification/Threads.thy ===== *)
theory Threads
  imports Gossip
begin

text \<open>
  Goroutines that share a node. A goroutine is a program whose actions are the operations the
  code performs in one piece: a statement or a transaction on the database, which has a single
  connection, a method of the clock or the client, which hold a mutex, an atomic counter, a
  remote call. Between two actions of one goroutine any number of actions of others may happen.
  The locale \<open>shared_state\<close> is the contract between them: an invariant of the shared node, and
  what each goroutine may rely on of the steps of the others.
\<close>

section \<open>Programs\<close>

datatype 'a prog = Done "error + 'a" | Act "node \<Rightarrow> 'a prog \<times> node"

primrec bindP :: "'a prog \<Rightarrow> ('a \<Rightarrow> 'b prog) \<Rightarrow> 'b prog" where
  "bindP (Done r) k = (case r of Inl e \<Rightarrow> Done (Inl e) | Inr x \<Rightarrow> k x)"
| "bindP (Act f) k = Act (map_prod (\<lambda>p. bindP p k) id \<circ> f)"

definition atom :: "'a node_op \<Rightarrow> 'a prog" where
  "atom m = Act (map_prod Done id \<circ> m)"

text \<open>A program that runs alone.\<close>

primrec run_prog :: "'a prog \<Rightarrow> 'a node_op" where
  "run_prog (Done r) = Pair r"
| "run_prog (Act f) = (\<lambda>n. case (map_prod run_prog id \<circ> f) n of (g, n') \<Rightarrow> g n')"

lemma run_Done [simp]: "run_prog (Done (Inr x)) = ret x" "run_prog (Done (Inl e)) = throw e"
  by (simp_all add: ret_def throw_def fun_eq_iff)

lemma run_atom [simp]: "run_prog (atom m) = m"
  by (simp add: atom_def fun_eq_iff case_prod_beta)

lemma run_bindP [simp]: "run_prog (bindP p k) = bindE (run_prog p) (\<lambda>x. run_prog (k x))"
proof (induction p)
  case (Done r)
  then show ?case by (auto simp: bindE_def fun_eq_iff split: sum.splits)
next
  case (Act f)
  show ?case
  proof
    fix n
    show "run_prog (bindP (Act f) k) n = bindE (run_prog (Act f)) (\<lambda>x. run_prog (k x)) n"
      using Act [of "f n" "fst (f n)"] by (cases "f n") (simp add: bindE_def range_eqI [of _ f n])
  qed
qed

declare run_prog.simps(1) [simp del]

text \<open>The program ends after at most so many actions, whatever happens between them.\<close>

primrec ends_in :: "nat \<Rightarrow> 'a prog \<Rightarrow> bool" where
  "ends_in 0 p = (case p of Done _ \<Rightarrow> True | Act _ \<Rightarrow> False)"
| "ends_in (Suc j) p = (case p of Done _ \<Rightarrow> True | Act f \<Rightarrow> (\<forall>n. ends_in j (fst (f n))))"

lemma ends_in_Done [simp]: "ends_in j (Done r)"
  by (cases j) simp_all

lemma ends_in_Act: "ends_in j (Act f) \<longleftrightarrow> 0 < j \<and> (\<forall>n. ends_in (j - 1) (fst (f n)))"
  by (cases j) simp_all

lemma ends_in_atom [simp]: "ends_in j (atom m) \<longleftrightarrow> 0 < j"
  by (simp add: atom_def ends_in_Act)

lemma ends_in_mono: "ends_in i p \<Longrightarrow> i \<le> j \<Longrightarrow> ends_in j p"
proof (induction i arbitrary: j p)
  case 0
  then show ?case by (cases p) auto
next
  case (Suc i)
  then show ?case by (cases p; cases j) auto
qed

lemma ends_in_bindP: "ends_in i p \<Longrightarrow> (\<And>x. ends_in j (k x)) \<Longrightarrow> ends_in (i + j) (bindP p k)"
proof (induction i arbitrary: p)
  case 0
  then show ?case by (cases p) (auto split: sum.splits)
next
  case (Suc i)
  show ?case
  proof (cases p)
    case (Done r)
    then show ?thesis using Suc.prems(2) ends_in_mono [of j _ "Suc i + j"] by (auto split: sum.splits)
  next
    case (Act f)
    then show ?thesis using Suc by (simp add: ends_in_Act)
  qed
qed

lemma ends_in_then: "0 < j \<Longrightarrow> (\<And>x. ends_in (j - 1) (k x)) \<Longrightarrow> ends_in j (bindP (atom m) k)"
  using ends_in_bindP [of 1 "atom m" "j - 1" k] by simp

declare ends_in.simps [simp del]

section \<open>Relying on each other\<close>

text \<open>
  At the state \<open>n\<close>, and after whatever the others do that keeps the invariant \<open>I\<close> and stays in
  the relation \<open>G\<close>, the actions of the program keep both, and it ends with \<open>Q\<close>.
\<close>

inductive safe :: "(node \<Rightarrow> bool) \<Rightarrow> (node \<Rightarrow> node \<Rightarrow> bool) \<Rightarrow> (error + 'a \<Rightarrow> node \<Rightarrow> bool) \<Rightarrow> 'a prog \<Rightarrow> node \<Rightarrow> bool"
  for I G Q where
  safe_Done: "(\<And>m. I m \<Longrightarrow> G n m \<Longrightarrow> Q r m) \<Longrightarrow> safe I G Q (Done r) n"
| safe_Act: "(\<And>m. I m \<Longrightarrow> G n m \<Longrightarrow> I (snd (f m)) \<and> G m (snd (f m)) \<and> safe I G Q (fst (f m)) (snd (f m))) \<Longrightarrow>
    safe I G Q (Act f) n"

inductive_cases safe_DoneE: "safe I G Q (Done r) n"
inductive_cases safe_ActE: "safe I G Q (Act f) n"

locale shared_state =
  fixes I :: "node \<Rightarrow> bool" and G :: "node \<Rightarrow> node \<Rightarrow> bool"
  assumes G_refl: "G n n" and G_trans: "G a b \<Longrightarrow> G b c \<Longrightarrow> G a c"
begin

lemma safe_stable: "safe I G Q p n \<Longrightarrow> G n m \<Longrightarrow> safe I G Q p m"
  by (cases rule: safe.cases) (auto intro!: safe.intros dest: G_trans)

lemma safe_post: "safe I G Q (Done r) n \<Longrightarrow> I n \<Longrightarrow> Q r n"
  by (auto elim!: safe_DoneE intro: G_refl)

lemma safe_action:
  assumes "safe I G Q (Act f) n" "I n" "f n = (p, n')"
  shows "I n'" "G n n'" "safe I G Q p n'"
  using assms G_refl [of n] by (auto elim!: safe_ActE dest!: meta_spec [of _ n])

lemma safe_bindP:
  "safe I G Q p n \<Longrightarrow> I n \<Longrightarrow> (\<And>e m. I m \<Longrightarrow> G n m \<Longrightarrow> Q (Inl e) m \<Longrightarrow> Q' (Inl e) m) \<Longrightarrow>
     (\<And>x m. I m \<Longrightarrow> G n m \<Longrightarrow> Q (Inr x) m \<Longrightarrow> safe I G Q' (k x) m) \<Longrightarrow> safe I G Q' (bindP p k) n"
proof (induction rule: safe.induct)
  case (safe_Done n r)
  show ?case
  proof (cases r)
    case (Inl e)
    then show ?thesis using safe_Done by (auto intro!: safe.safe_Done)
  next
    case (Inr x)
    then show ?thesis using safe_Done G_refl by auto
  qed
next
  case (safe_Act n f)
  have "I (snd (f m)) \<and> G m (snd (f m)) \<and> safe I G Q' (bindP (fst (f m)) k) (snd (f m))"
    if m: "I m" "G n m" for m
  proof -
    have f: "I (snd (f m))" "G m (snd (f m))" using safe_Act.IH [OF m] by simp_all
    have "G n (snd (f m))" using m(2) f(2) by (rule G_trans)
    then show ?thesis using safe_Act.IH [OF m] safe_Act.prems(2,3) f G_trans by blast
  qed
  then show ?case by (auto intro!: safe.safe_Act)
qed

lemma safe_atom:
  assumes "\<And>m. I m \<Longrightarrow> G n m \<Longrightarrow> I (snd (a m)) \<and> G m (snd (a m))"
    and "\<And>m m'. I m \<Longrightarrow> G n m \<Longrightarrow> I m' \<Longrightarrow> G (snd (a m)) m' \<Longrightarrow> Q (fst (a m)) m'"
  shows "safe I G Q (atom a) n"
  unfolding atom_def using assms by (intro safe.intros) (auto intro!: safe.safe_Done)

lemma safe_conseq:
  "safe I G Q p n \<Longrightarrow> G n0 n \<Longrightarrow> (\<And>r m. I m \<Longrightarrow> G n0 m \<Longrightarrow> Q r m \<Longrightarrow> Q' r m) \<Longrightarrow> safe I G Q' p n"
proof (induction rule: safe.induct)
  case (safe_Done n r)
  then show ?case by (auto intro!: safe.safe_Done intro: G_trans)
next
  case (safe_Act n f)
  have "G n0 (snd (f m))" if "I m" "G n m" for m
    using safe_Act.IH [OF that] safe_Act.prems(1) that(2) G_trans by blast
  then show ?case using safe_Act by (auto intro!: safe.safe_Act)
qed

lemma safe_ret: "(\<And>m. I m \<Longrightarrow> G n m \<Longrightarrow> Q r m) \<Longrightarrow> safe I G Q (Done r) n"
  by (rule safe.safe_Done)

end

end
