(* ===== verification/Rounds.thy ===== *)
theory Rounds
  imports Threads
begin

text \<open>
  \<^verbatim>\<open>roundAll\<close> of \<^verbatim>\<open>internal/engine/sync/sync.go\<close> as it runs: one goroutine per peer, whose actions
  interleave, a channel for their errors, and the loop that receives from it.
\<close>

section \<open>A round as a goroutine\<close>

primrec round_kinds_prog :: "string \<Rightarrow> kind list \<Rightarrow> hlc gomap \<Rightarrow> uint64 gomap \<Rightarrow> (hlc gomap \<times> uint64 gomap) prog" where
  "round_kinds_prog peer [] watermarks checksums = Done (Inr (watermarks, checksums))"
| "round_kinds_prog peer (k # ks) watermarks checksums =
     bindP (atom (on_store (Watermark peer k))) (\<lambda>wm.
     bindP (atom (on_store (Checksum k))) (\<lambda>chk.
     round_kinds_prog peer ks (gm_put k wm watermarks) (gm_put k chk checksums)))"

definition client_Pull_prog :: "net \<Rightarrow> string \<Rightarrow> hlc gomap \<Rightarrow> uint64 gomap \<Rightarrow> hlc \<Rightarrow> uint64 \<Rightarrow> pull_response prog" where
  "client_Pull_prog N addr watermarks checksums eventWm eventChk =
     bindP (atom (client_conn N addr)) (\<lambda>cc. atom (\<lambda>n.
       let req = \<lparr>rq_watermarks = map (\<lambda>(k, h). (k, Some h)) watermarks, rq_checksums = Some checksums,
                  rq_event_watermark = Some eventWm, rq_event_checksum = eventChk\<rparr>
       in (net_call N cc req, n)))"

definition round_rows_prog :: "string \<Rightarrow> pull_response \<Rightarrow> unit prog" where
  "round_rows_prog peer resp =
     (if rs_rows resp \<noteq> [] then
        (let (rows, maxH) = rows_loop (rs_rows resp) [] hlc_zero in
         bindP (atom (on_store (ApplyRemote peer rows))) (\<lambda>_.
         bindP (atom (on_metrics (\<lambda>m. m\<lparr>SyncRowsApplied := counter_add (of_nat (length rows)) (SyncRowsApplied m)\<rparr>))) (\<lambda>_.
         atom (on_clock (clock_update maxH)))))
      else Done (Inr ()))"

text \<open>\<^verbatim>\<open>SetWatermark\<close> is not a transaction: it reads, compares, and writes.\<close>

definition SetWatermark_prog :: "string \<Rightarrow> kind \<Rightarrow> hlc \<Rightarrow> unit prog" where
  "SetWatermark_prog peer k h =
     bindP (atom (on_store (Watermark peer k))) (\<lambda>cur.
       if \<not> After h cur then Done (Inr ())
       else atom (on_store (exec (\<lambda>s. s\<lparr>st_watermarks := (st_watermarks s)((peer, k) \<mapsto> h)\<rparr>))))"

definition round_events_prog :: "codec \<Rightarrow> string \<Rightarrow> hlc \<Rightarrow> pull_response \<Rightarrow> unit prog" where
  "round_events_prog C peer evWm resp =
     (if rs_events resp \<noteq> [] then
        (case events_loop C (rs_events resp) [] evWm hlc_zero of
           Inl e \<Rightarrow> Done (Inl e)
         | Inr (incoming, evWm, maxEv) \<Rightarrow>
             bindP (atom (on_store (ApplyEvents C incoming))) (\<lambda>_.
             bindP (atom (on_metrics (\<lambda>m. m\<lparr>SyncEventsApplied := counter_add (of_nat (length incoming)) (SyncEventsApplied m)\<rparr>))) (\<lambda>_.
             bindP (SetWatermark_prog peer KindEvent evWm) (\<lambda>_.
             atom (on_clock (clock_update maxEv))))))
      else Done (Inr ()))"

definition round_prog :: "codec \<Rightarrow> net \<Rightarrow> string \<Rightarrow> unit prog" where
  "round_prog C N peer =
     bindP (round_kinds_prog peer Kinds [] []) (\<lambda>(watermarks, checksums).
     bindP (atom (on_store (Watermark peer KindEvent))) (\<lambda>evWm.
     bindP (atom (on_store ChecksumEvents)) (\<lambda>evChk.
     bindP (client_Pull_prog N peer watermarks checksums evWm evChk) (\<lambda>resp.
     bindP (round_rows_prog peer resp) (\<lambda>_.
     round_events_prog C peer evWm resp)))))"

section \<open>Alone, the goroutine is the round\<close>

lemma run_round_kinds: "run_prog (round_kinds_prog peer ks w c) = round_kinds peer ks w c"
  by (induction ks arbitrary: w c) simp_all

lemma run_client_Pull: "run_prog (client_Pull_prog N a w c e h) = client_Pull N a w c e h"
  by (simp add: client_Pull_prog_def client_Pull_def)

lemma run_round_rows: "run_prog (round_rows_prog peer resp) = round_rows peer resp"
  by (simp add: round_rows_prog_def round_rows_def case_prod_beta Let_def)

lemma on_store_bindE: "on_store (bindE m f) = bindE (on_store m) (\<lambda>x. on_store (f x))"
  by (auto simp: on_store_def bindE_def fun_eq_iff split: prod.splits sum.splits)

lemma run_SetWatermark: "run_prog (SetWatermark_prog peer k h) = on_store (SetWatermark peer k h)"
  unfolding SetWatermark_prog_def SetWatermark_def on_store_bindE
  by (simp add: fun_eq_iff bindE_def on_store_def ret_def if_distrib [of run_prog] split: sum.splits prod.splits)

lemma run_round_events: "run_prog (round_events_prog C peer wm resp) = round_events C peer wm resp"
  by (simp add: round_events_prog_def round_events_def run_SetWatermark split: sum.splits)

lemma run_round_prog: "run_prog (round_prog C N peer) = RoundOnce C N peer"
  by (simp add: round_prog_def RoundOnce_def run_round_kinds run_client_Pull run_round_rows run_round_events
      case_prod_unfold)

lemma round_kinds_ends: "ends_in (2 * length ks) (round_kinds_prog peer ks w c)"
  by (induction ks arbitrary: w c) (auto intro!: ends_in_then)

lemma round_ends: "ends_in 16 (round_prog C N peer)"
proof -
  have rows: "ends_in 3 (round_rows_prog peer resp)" for resp
    by (auto simp: round_rows_prog_def Let_def case_prod_beta intro!: ends_in_then)
  have set: "ends_in 2 (SetWatermark_prog peer k h)" for k h
    by (auto simp: SetWatermark_prog_def intro!: ends_in_then)
  have "ends_in 3 (bindP (SetWatermark_prog peer KindEvent wm) (\<lambda>_. atom m))" for wm and m :: "unit node_op"
    using ends_in_bindP [OF set, of 1 "\<lambda>_. atom m"] by simp
  then have events: "ends_in 5 (round_events_prog C peer wm resp)" for wm resp
    by (auto simp: round_events_prog_def split: sum.split intro!: ends_in_then)
  have pull: "ends_in 2 (client_Pull_prog N peer w c e h)" for w c e h
    by (auto simp: client_Pull_prog_def intro!: ends_in_then)
  have "ends_in 8 (bindP (round_rows_prog peer resp) (\<lambda>_. round_events_prog C peer wm resp))" for wm resp
    using ends_in_bindP [OF rows events, of resp "\<lambda>_. wm" "\<lambda>_. resp"] by simp
  then have "ends_in (2 + 8) (bindP (client_Pull_prog N peer w c e h) (\<lambda>resp.
      bindP (round_rows_prog peer resp) (\<lambda>_. round_events_prog C peer wm resp)))" for w c e h wm
    using pull by (intro ends_in_bindP)
  then have "ends_in (4 + 12) (round_prog C N peer)"
    unfolding round_prog_def using round_kinds_ends [of Kinds peer "[]" "[]"]
    by (intro ends_in_bindP) (auto simp: Kinds_def case_prod_beta intro!: ends_in_then)
  then show ?thesis by simp
qed

section \<open>All rounds\<close>

text \<open>
  The state of \<^verbatim>\<open>roundAll\<close>: the peers its loop has not reached, the goroutines that have not sent
  their error, the channel, how many errors have been received and the first of them. The
  channel has room for \<open>cap\<close> errors; sending to a full channel and receiving from an empty one
  wait. A panic in a goroutine ends the process.
\<close>

record pool =
  po_node :: node
  po_todo :: "string list"
  po_rounds :: "(string \<times> unit prog) list"
  po_errCh :: "error option list"
  po_got :: nat
  po_first :: "error option"

definition crashed :: "pool \<Rightarrow> bool" where
  "crashed s \<longleftrightarrow> list_ex (\<lambda>(p, g). case g of Done (Inl e) \<Rightarrow> is_panic e | _ \<Rightarrow> False) (po_rounds s)"

definition sent :: "error + unit \<Rightarrow> error option" where
  "sent r = (case r of Inl e \<Rightarrow> Some e | Inr _ \<Rightarrow> None)"

inductive pool_step :: "codec \<Rightarrow> net \<Rightarrow> nat \<Rightarrow> pool \<Rightarrow> pool \<Rightarrow> bool" for C N cap where
  pool_skip: "\<not> crashed s \<Longrightarrow> po_todo s = [] # ps \<Longrightarrow> length (po_errCh s) < cap \<Longrightarrow>
    pool_step C N cap s (s\<lparr>po_todo := ps, po_errCh := po_errCh s @ [None]\<rparr>)"
| pool_go: "\<not> crashed s \<Longrightarrow> po_todo s = p # ps \<Longrightarrow> p \<noteq> [] \<Longrightarrow>
    pool_step C N cap s (s\<lparr>po_todo := ps, po_rounds := po_rounds s @ [(p, round_prog C N p)]\<rparr>)"
| pool_act: "\<not> crashed s \<Longrightarrow> po_rounds s = xs @ (p, Act f) # ys \<Longrightarrow> f (po_node s) = (g, n') \<Longrightarrow>
    pool_step C N cap s (s\<lparr>po_node := n', po_rounds := xs @ (p, g) # ys\<rparr>)"
| pool_send: "\<not> crashed s \<Longrightarrow> po_rounds s = xs @ (p, Done r) # ys \<Longrightarrow> length (po_errCh s) < cap \<Longrightarrow>
    pool_step C N cap s (s\<lparr>po_rounds := xs @ ys, po_errCh := po_errCh s @ [sent r]\<rparr>)"
| pool_recv: "\<not> crashed s \<Longrightarrow> po_todo s = [] \<Longrightarrow> po_got s < cap \<Longrightarrow> po_errCh s = e # es \<Longrightarrow>
    pool_step C N cap s (s\<lparr>po_errCh := es, po_got := Suc (po_got s),
      po_first := (if e \<noteq> None \<and> po_first s = None then e else po_first s)\<rparr>)"

definition pool_init :: "string list \<Rightarrow> node \<Rightarrow> pool" where
  "pool_init peers n = \<lparr>po_node = n, po_todo = peers, po_rounds = [], po_errCh = [], po_got = 0, po_first = None\<rparr>"

lemma pool_init_sel [simp]:
  "po_node (pool_init ps n) = n" "po_todo (pool_init ps n) = ps" "po_rounds (pool_init ps n) = []"
  "po_errCh (pool_init ps n) = []" "po_got (pool_init ps n) = 0" "po_first (pool_init ps n) = None"
  by (simp_all add: pool_init_def)

section \<open>No schedule runs forever or gets stuck\<close>

text \<open>Every peer is in the loop, in a goroutine, in the channel, or received.\<close>

definition accounted :: "nat \<Rightarrow> pool \<Rightarrow> bool" where
  "accounted cap s \<longleftrightarrow> length (po_todo s) + length (po_rounds s) + length (po_errCh s) + po_got s = cap"

lemma accounted_step: "pool_step C N cap s s' \<Longrightarrow> accounted cap s \<Longrightarrow> accounted cap s'"
  by (induction rule: pool_step.induct) (auto simp: accounted_def)

text \<open>The steps that are left: at most 19 for a peer in the loop.\<close>

definition fits :: "nat \<Rightarrow> pool \<Rightarrow> bool" where
  "fits m s \<longleftrightarrow> (\<exists>js. list_all2 (\<lambda>(p, g) j. ends_in j g) (po_rounds s) js \<and>
     19 * length (po_todo s) + sum_list (map (\<lambda>j. j + 2) js) + length (po_errCh s) \<le> m)"

lemma fits_step: "pool_step C N cap s s' \<Longrightarrow> fits m s \<Longrightarrow> 0 < m \<and> fits (m - 1) s'"
proof (induction rule: pool_step.induct)
  case (pool_go s p ps)
  then obtain js where "list_all2 (\<lambda>(p, g) j. ends_in j g) (po_rounds s) js"
      "19 * Suc (length ps) + sum_list (map (\<lambda>j. j + 2) js) + length (po_errCh s) \<le> m"
    by (auto simp: fits_def)
  then show ?case
    by (auto simp: fits_def round_ends list_all2_appendI intro!: exI [of _ "js @ [16]"])
next
  case (pool_act s xs p f ys g n')
  then obtain ks j js where js: "list_all2 (\<lambda>(p, g) j. ends_in j g) xs ks" "ends_in j (Act f)"
      "list_all2 (\<lambda>(p, g) j. ends_in j g) ys js"
      "19 * length (po_todo s) + sum_list (map (\<lambda>j. j + 2) (ks @ j # js)) + length (po_errCh s) \<le> m"
    by (auto simp: fits_def list_all2_append1 list_all2_Cons1)
  then have "0 < j" "ends_in (j - 1) g"
    using pool_act(3) by (auto simp: ends_in_Act dest!: spec [of _ "po_node s"])
  then show ?case
    using js by (auto simp: fits_def list_all2_appendI intro!: exI [of _ "ks @ (j - 1) # js"])
next
  case (pool_send s xs p r ys)
  then obtain ks j js where js: "list_all2 (\<lambda>(p, g) j. ends_in j g) xs ks"
      "list_all2 (\<lambda>(p, g) j. ends_in j g) ys js"
      "19 * length (po_todo s) + sum_list (map (\<lambda>j. j + 2) (ks @ j # js)) + length (po_errCh s) \<le> m"
    by (auto simp: fits_def list_all2_append1 list_all2_Cons1)
  then show ?case
    by (auto simp: fits_def list_all2_appendI intro!: exI [of _ "ks @ js"])
qed (auto simp: fits_def)

lemma fits_run: "(pool_step C N cap ^^ j) s s' \<Longrightarrow> fits m s \<Longrightarrow> j \<le> m \<and> fits (m - j) s'"
proof (induction j arbitrary: s')
  case (Suc j)
  then obtain t where "(pool_step C N cap ^^ j) s t" "pool_step C N cap t s'" by auto
  then show ?case using Suc fits_step [of C N cap t s' "m - j"] by force
qed simp

lemma accounted_run: "(pool_step C N cap ^^ j) s s' \<Longrightarrow> accounted cap s \<Longrightarrow> accounted cap s'"
  by (induction j arbitrary: s') (auto dest: accounted_step)

lemma pool_progress:
  assumes "accounted cap s" "\<not> crashed s" "po_got s < cap"
  shows "\<exists>s'. pool_step C N cap s s'"
proof (cases "po_rounds s")
  case (Cons x xs)
  obtain p g where x: "x = (p, g)" by (cases x)
  show ?thesis
  proof (cases g)
    case (Act f)
    obtain h n' where "f (po_node s) = (h, n')" by fastforce
    then show ?thesis using pool_act [OF assms(2), of "[]" p f xs h n'] Cons x Act by auto
  next
    case (Done r)
    have "length (po_errCh s) < cap" using assms(1) Cons by (simp add: accounted_def)
    then show ?thesis using pool_send [OF assms(2), of "[]" p r xs] Cons x Done by auto
  qed
next
  case Nil
  show ?thesis
  proof (cases "po_todo s")
    case (Cons p ps)
    then have "length (po_errCh s) < cap" using assms(1) by (simp add: accounted_def)
    then show ?thesis
      using pool_skip [OF assms(2), of ps] pool_go [OF assms(2), of p ps] Cons by (cases "p = []") blast+
  next
    case todo: Nil
    then have "po_errCh s \<noteq> []" using assms(1,3) Nil by (auto simp: accounted_def)
    then show ?thesis using pool_recv [OF assms(2) todo assms(3)] by (cases "po_errCh s") auto
  qed
qed

text \<open>
  C4. The rounds with all peers come to an end. However the goroutines of \<^verbatim>\<open>roundAll\<close> are scheduled,
  whatever the peers answer and the database does, at most 19 actions per peer are performed. A
  schedule that has not received one result per peer can go on, unless a goroutine has panicked:
  no goroutine waits on the channel for ever, and none is left behind when the last result has
  been received.
\<close>
theorem roundAll_terminates:
  assumes "(pool_step C N (length peers) ^^ j) (pool_init peers n) s"
  shows "j \<le> 19 * length peers \<and>
    (crashed s \<or> (\<exists>s'. pool_step C N (length peers) s s') \<or>
     po_got s = length peers \<and> po_todo s = [] \<and> po_rounds s = [] \<and> po_errCh s = [])"
proof -
  have f: "fits (19 * length peers) (pool_init peers n)" by (simp add: fits_def)
  have "accounted (length peers) (pool_init peers n)" by (simp add: accounted_def)
  then have a: "accounted (length peers) s" using assms accounted_run by blast
  then have "po_got s < length peers \<or> po_got s = length peers \<and> length (po_todo s) = 0 \<and>
      length (po_rounds s) = 0 \<and> length (po_errCh s) = 0"
    unfolding accounted_def by linarith
  then show ?thesis using fits_run [OF assms f] pool_progress [OF a] by (metis length_0_conv)
qed


section \<open>The rounds one after the other\<close>

text \<open>The order in which \<open>rounds\<close> takes the peers is one of the schedules.\<close>

lemma pool_alone:
  "run_prog g (po_node s) = (r, n') \<Longrightarrow> po_rounds s = [(p, g)] \<Longrightarrow>
     (pool_step C N cap)\<^sup>*\<^sup>* s (s\<lparr>po_node := n', po_rounds := [(p, Done r)]\<rparr>)"
proof (induction g arbitrary: s)
  case (Done r')
  then have "s\<lparr>po_node := n', po_rounds := [(p, Done r)]\<rparr> = s" by (cases s) (simp add: run_prog.simps(1))
  then show ?case by simp
next
  case (Act f)
  obtain g n1 where f: "f (po_node s) = (g, n1)" by fastforce
  let ?s = "s\<lparr>po_node := n1, po_rounds := [(p, g)]\<rparr>"
  have "pool_step C N cap s ?s"
    using pool_act [of s "[]" p f "[]" g n1] f Act.prems(2) by (simp add: crashed_def)
  moreover have "(pool_step C N cap)\<^sup>*\<^sup>* ?s (?s\<lparr>po_node := n', po_rounds := [(p, Done r)]\<rparr>)"
    using Act.prems(1) f by (intro Act.IH [of "f (po_node s)" g]) (auto intro: range_eqI [of _ f "po_node s"])
  ultimately show ?case by (simp add: converse_rtranclp_into_rtranclp)
qed

lemma pool_one_peer:
  assumes "po_todo s = p # ps" "po_rounds s = []" "p \<noteq> []" "RoundOnce C N p (po_node s) = (r, n')"
    and "\<forall>e. r = Inl e \<longrightarrow> \<not> is_panic e" "length (po_errCh s) < cap"
  shows "(pool_step C N cap)\<^sup>*\<^sup>* s (s\<lparr>po_node := n', po_todo := ps, po_errCh := po_errCh s @ [sent r]\<rparr>)"
proof -
  let ?s1 = "s\<lparr>po_todo := ps, po_rounds := [(p, round_prog C N p)]\<rparr>"
  let ?s2 = "?s1\<lparr>po_node := n', po_rounds := [(p, Done r)]\<rparr>"
  let ?s3 = "?s2\<lparr>po_rounds := [], po_errCh := po_errCh s @ [sent r]\<rparr>"
  have 1: "pool_step C N cap s ?s1" using pool_go [of s p ps] assms(1-3) by (simp add: crashed_def)
  have 2: "(pool_step C N cap)\<^sup>*\<^sup>* ?s1 ?s2"
    using assms(4) by (intro pool_alone [where g = "round_prog C N p"]) (simp_all add: run_round_prog)
  have 3: "pool_step C N cap ?s2 ?s3"
    using pool_send [of ?s2 "[]" p r "[]" cap] assms(5,6) by (auto simp: crashed_def split: sum.splits)
  have 4: "?s3 = s\<lparr>po_node := n', po_todo := ps, po_errCh := po_errCh s @ [sent r]\<rparr>"
    using assms(2) by (cases s) simp
  show ?thesis
    using rtranclp.rtrancl_into_rtrancl [OF converse_rtranclp_into_rtranclp [OF 1 2] 3] unfolding 4 .
qed

text \<open>The first error in the channel.\<close>

definition first_some :: "error option \<Rightarrow> error option list \<Rightarrow> error option" where
  "first_some = foldl (\<lambda>a e. if e \<noteq> None \<and> a = None then e else a)"

lemma pool_drain:
  "po_todo s = [] \<Longrightarrow> po_rounds s = [] \<Longrightarrow> po_got s + length (po_errCh s) = cap \<Longrightarrow>
     (pool_step C N cap)\<^sup>*\<^sup>* s (s\<lparr>po_errCh := [], po_got := cap, po_first := first_some (po_first s) (po_errCh s)\<rparr>)"
proof (induction "po_errCh s" arbitrary: s)
  case Nil
  then have "s\<lparr>po_errCh := [], po_got := cap, po_first := first_some (po_first s) (po_errCh s)\<rparr> = s"
    by (cases s) (simp add: first_some_def)
  then show ?case by simp
next
  case (Cons e es)
  let ?s = "s\<lparr>po_errCh := es, po_got := Suc (po_got s), po_first := (if e \<noteq> None \<and> po_first s = None then e else po_first s)\<rparr>"
  have "pool_step C N cap s ?s"
    using Cons(2-5) by (intro pool_recv) (auto simp: crashed_def dest: sym)
  moreover have "(pool_step C N cap)\<^sup>*\<^sup>* ?s (?s\<lparr>po_errCh := [], po_got := cap, po_first := first_some (po_first ?s) (po_errCh ?s)\<rparr>)"
    using Cons(2-5) by (intro Cons(1)) (auto dest: sym)
  ultimately show ?case
    using converse_rtranclp_into_rtranclp by (fastforce simp: first_some_def simp flip: Cons(2))
qed

lemma pool_sequential:
  "po_todo s = ps \<Longrightarrow> po_rounds s = [] \<Longrightarrow> po_first s = None \<Longrightarrow> po_got s = 0 \<Longrightarrow> length (po_errCh s) + length ps \<le> cap \<Longrightarrow>
     rounds C N ps (first_some None (po_errCh s)) (po_node s) = (Inr first, n') \<Longrightarrow>
     \<exists>es. (pool_step C N cap)\<^sup>*\<^sup>* s (s\<lparr>po_node := n', po_todo := [], po_errCh := es\<rparr>) \<and>
       length es = length (po_errCh s) + length ps \<and> first_some None es = first"
proof (induction ps arbitrary: s)
  case Nil
  then have "s\<lparr>po_node := n', po_todo := [], po_errCh := po_errCh s\<rparr> = s" by (cases s) (simp add: ret_def)
  then have "(pool_step C N cap)\<^sup>*\<^sup>* s (s\<lparr>po_node := n', po_todo := [], po_errCh := po_errCh s\<rparr>)"
    by (metis rtranclp.rtrancl_refl)
  then show ?case using Nil by (intro exI [of _ "po_errCh s"]) (simp add: ret_def)
next
  case (Cons p ps)
  have step: ?case if t: "(pool_step C N cap)\<^sup>*\<^sup>* s (s\<lparr>po_node := m, po_todo := ps, po_errCh := po_errCh s @ [e]\<rparr>)"
      "rounds C N ps (first_some None (po_errCh s @ [e])) m = (Inr first, n')" for m e
  proof -
    obtain es where "(pool_step C N cap)\<^sup>*\<^sup>* (s\<lparr>po_node := m, po_todo := ps, po_errCh := po_errCh s @ [e]\<rparr>)
          (s\<lparr>po_node := n', po_todo := [], po_errCh := es\<rparr>)"
        "length es = length (po_errCh s) + length (p # ps)" "first_some None es = first"
      using Cons.IH [of "s\<lparr>po_node := m, po_todo := ps, po_errCh := po_errCh s @ [e]\<rparr>"] t(2) Cons.prems by auto
    then show ?thesis using rtranclp_trans [OF t(1)] by blast
  qed
  show ?case
  proof (cases "p = []")
    case True
    have "pool_step C N cap s (s\<lparr>po_todo := ps, po_errCh := po_errCh s @ [None]\<rparr>)"
      using Cons.prems True by (intro pool_skip) (auto simp: crashed_def)
    then show ?thesis using step [of None "po_node s"] Cons.prems(6) True by (simp add: first_some_def r_into_rtranclp)
  next
    case False
    obtain r m where r: "RoundOnce C N p (po_node s) = (r, m)" by fastforce
    have np: "\<forall>e. r = Inl e \<longrightarrow> \<not> is_panic e"
      using Cons.prems(6) False r by (auto simp: tryE_def throw_def split: if_splits)
    then have "rounds C N ps (first_some None (po_errCh s @ [sent r])) m = (Inr first, n')"
      using Cons.prems(6) False r by (cases r) (auto simp: tryE_def first_some_def sent_def)
    then show ?thesis
      using step [OF pool_one_peer [OF Cons.prems(1,2) False r np]] Cons.prems(5) by simp
  qed
qed

lemma sequential_schedule:
  assumes "rounds C N peers None n = (Inr first, n')"
  shows "\<exists>s. (pool_step C N (length peers))\<^sup>*\<^sup>* (pool_init peers n) s \<and> po_node s = n' \<and> po_got s = length peers \<and> po_first s = first"
proof -
  let ?i = "pool_init peers n"
  obtain es where es: "(pool_step C N (length peers))\<^sup>*\<^sup>* ?i (?i\<lparr>po_node := n', po_todo := [], po_errCh := es\<rparr>)"
      "length es = length peers" "first_some None es = first"
    using pool_sequential [of ?i peers "length peers" C N first n'] assms by (auto simp: first_some_def)
  show ?thesis
    using rtranclp_trans [OF es(1) pool_drain] es(2,3)
    by (intro exI [of _ "?i\<lparr>po_node := n', po_todo := [], po_errCh := [], po_got := length peers, po_first := first\<rparr>"]) simp
qed

lemma ex_rounds:
  "\<exists>n'. rounds null_codec (ex_net (ex_node rs)) [''p'', [], ''q''] None (ex_node qs) = (Inr None, n')"
proof -
  have r: "\<exists>n'. RoundOnce null_codec (ex_net (ex_node rs)) q n = (Inr (), n') \<and> healthy (nd_store n')" if "healthy (nd_store n)" for n q
    using RoundOnce_healthy [of n "ex_node rs" null_codec "ex_net (ex_node rs)" q "''p''" 0] that by simp
  obtain n1 where 1: "RoundOnce null_codec (ex_net (ex_node rs)) ''p'' (ex_node qs) = (Inr (), n1)" "healthy (nd_store n1)"
    using r [of "ex_node qs" "''p''"] by auto
  obtain n2 where "RoundOnce null_codec (ex_net (ex_node rs)) ''q'' n1 = (Inr (), n2)"
    using r [OF 1(2), of "''q''"] by auto
  then show ?thesis using 1(1) by (simp add: tryE_def ret_def)
qed

theorem roundAll_terminates_witness:
  "\<exists>j s. (pool_step null_codec (ex_net (ex_node [ex_row ''a'' ''x'' 5])) 3 ^^ j) (pool_init [''p'', [], ''q''] (ex_node [])) s \<and>
     j \<le> 57 \<and> po_got s = 3"
proof -
  let ?N = "ex_net (ex_node [ex_row ''a'' ''x'' 5])" and ?ps = "[''p'', [], ''q'']"
  obtain s where s: "(pool_step null_codec ?N (length ?ps))\<^sup>*\<^sup>* (pool_init ?ps (ex_node [])) s" "po_got s = length ?ps"
    using ex_rounds [of "[ex_row ''a'' ''x'' 5]" "[]"] sequential_schedule by metis
  from s(1) obtain j where j: "(pool_step null_codec ?N (length ?ps) ^^ j) (pool_init ?ps (ex_node [])) s"
    by (auto simp: rtranclp_power)
  show ?thesis
    using j roundAll_terminates [OF j] s(2) by (intro exI [of _ j] exI [of _ s]) (simp add: numeral_3_eq_3)
qed

end
