(* ===== verification/Interleave.thy ===== *)
theory Interleave
  imports Rounds
begin

text \<open>
  What the interleaved rounds of \<^verbatim>\<open>roundAll\<close> achieve. The goroutines share the store; each relies on
  the others only to replace rows by newer versions, to keep the log and the watermarks of rows
  growing, and never to move a watermark past the data. This is an instance of the contract
  \<open>shared_state\<close>, and every round fulfils it.
\<close>

section \<open>The contract between the rounds\<close>

text \<open>\<open>T\<close> gives the node behind each address, \<open>P\<close> the addresses of the peers.\<close>

definition logged :: "node \<Rightarrow> string \<Rightarrow> event_row list \<Rightarrow> bool" where
  "logged n q es \<longleftrightarrow> (\<forall>e \<in> set es. er_hlc e \<le> wm_of (nd_store n) q KindEvent \<longrightarrow>
     event_pk e \<in> event_pk ` set (st_events (nd_store n)))"

definition in_step :: "(string \<Rightarrow> node) \<Rightarrow> node \<Rightarrow> bool" where
  "in_step T n \<longleftrightarrow> store_wf (nd_store n) \<and>
     (\<forall>q. caught_up n q (st_rows (nd_store (T q))) \<and> logged n q (st_events (nd_store (T q))))"

definition grown :: "string set \<Rightarrow> (string \<Rightarrow> node) \<Rightarrow> node \<Rightarrow> node \<Rightarrow> bool" where
  "grown P T n n' \<longleftrightarrow>
     (\<forall>r. has_version r (st_rows (nd_store n)) \<longrightarrow> has_version r (st_rows (nd_store n'))) \<and>
     set (st_events (nd_store n)) \<subseteq> set (st_events (nd_store n')) \<and>
     (\<forall>q. \<forall>k \<in> set Kinds. wm_of (nd_store n) q k \<le> wm_of (nd_store n') q k) \<and>
     reading (nd_clock n) \<le> reading (nd_clock n') \<and>
     set (st_rows (nd_store n')) \<subseteq> set (st_rows (nd_store n)) \<union> cluster_rows P T \<and>
     set (st_events (nd_store n')) \<subseteq> set (st_events (nd_store n)) \<union> cluster_events P T"

lemma grown_refl: "grown P T n n"
  by (simp add: grown_def)

lemma grown_trans: "grown P T a b \<Longrightarrow> grown P T b c \<Longrightarrow> grown P T a c"
  unfolding grown_def by (intro conjI) (blast intro: order_trans)+

interpretation rounds_rg: shared_state "in_step T" "grown P T" for P T
  by unfold_locales (fact grown_refl, fact grown_trans)

section \<open>Actions that leave the tables alone\<close>

lemma quiet_keeps:
  assumes "same_tables (nd_store m) (nd_store m')" "reading (nd_clock m) \<le> reading (nd_clock m')"
  shows "in_step T m' = in_step T m" "grown P T m m'"
  using assms
  by (auto simp: in_step_def grown_def caught_up_def logged_def same_tables_def wm_of_def store_wf_def)

lemma safe_quiet:
  assumes "\<And>m. same_tables (nd_store m) (nd_store (snd (a m))) \<and> reading (nd_clock m) \<le> reading (nd_clock (snd (a m)))"
    and "\<And>m m'. in_step T m \<Longrightarrow> grown P T n m \<Longrightarrow> in_step T m' \<Longrightarrow> grown P T m m' \<Longrightarrow> Q (fst (a m)) m'"
  shows "safe (in_step T) (grown P T) Q (atom a) n"
proof (rule rounds_rg.safe_atom)
  fix m assume "in_step T m" "grown P T n m"
  then show "in_step T (snd (a m)) \<and> grown P T m (snd (a m))"
    using quiet_keeps(1) [of m "snd (a m)" T] quiet_keeps(2) [of m "snd (a m)" P T] assms(1) [of m] by simp
next
  fix m m' assume "in_step T m" "grown P T n m" "in_step T m'" "grown P T (snd (a m)) m'"
  moreover have "grown P T m (snd (a m))" using quiet_keeps(2) [of m "snd (a m)" P T] assms(1) [of m] by simp
  ultimately show "Q (fst (a m)) m'" using assms(2) grown_trans by blast
qed

lemma read_quiet:
  "(\<And>s r s'. q s = (r, s') \<Longrightarrow> same_tables s s') \<Longrightarrow>
     same_tables (nd_store m) (nd_store (snd (on_store q m))) \<and> reading (nd_clock m) \<le> reading (nd_clock (snd (on_store q m)))"
  by (auto simp: on_store_def split: prod.splits)

lemma conn_quiet: "same_tables (nd_store m) (nd_store (snd (client_conn N q m))) \<and>
    reading (nd_clock m) \<le> reading (nd_clock (snd (client_conn N q m)))"
  by (auto simp: client_conn_def Let_def split: option.splits sum.splits)

lemma metrics_quiet: "same_tables (nd_store m) (nd_store (snd (on_metrics f m))) \<and>
    reading (nd_clock m) \<le> reading (nd_clock (snd (on_metrics f m)))"
  by (simp add: on_metrics_def)

lemma clock_quiet: "same_tables (nd_store m) (nd_store (snd (on_clock (clock_update h) m))) \<and>
    reading (nd_clock m) \<le> reading (nd_clock (snd (on_clock (clock_update h) m)))"
  by (simp add: on_clock_def)

lemma quiet:
  "same_tables (nd_store m) (nd_store (snd (on_store (Watermark p k) m))) \<and>
     reading (nd_clock m) \<le> reading (nd_clock (snd (on_store (Watermark p k) m)))"
  "same_tables (nd_store m) (nd_store (snd (on_store (Checksum k) m))) \<and>
     reading (nd_clock m) \<le> reading (nd_clock (snd (on_store (Checksum k) m)))"
  "same_tables (nd_store m) (nd_store (snd (on_store ChecksumEvents m))) \<and>
     reading (nd_clock m) \<le> reading (nd_clock (snd (on_store ChecksumEvents m)))"
  by (rule read_quiet, erule Watermark_same Checksum_same ChecksumEvents_same)+

section \<open>Actions that write\<close>

text \<open>What a goroutine knows of its peer: all rows are there, all events are there.\<close>

definition holds_rows :: "(string \<Rightarrow> node) \<Rightarrow> string \<Rightarrow> node \<Rightarrow> bool" where
  "holds_rows T q n \<longleftrightarrow> (\<forall>r \<in> set (st_rows (nd_store (T q))). r_kind r \<in> set Kinds \<longrightarrow> has_version r (st_rows (nd_store n)))"

definition holds_events :: "(string \<Rightarrow> node) \<Rightarrow> string \<Rightarrow> node \<Rightarrow> bool" where
  "holds_events T q n \<longleftrightarrow> event_pk ` set (st_events (nd_store (T q))) \<subseteq> event_pk ` set (st_events (nd_store n))"

lemma grown_events: "grown P T n m \<Longrightarrow> event_pk ` set (st_events (nd_store n)) \<subseteq> event_pk ` set (st_events (nd_store m))"
  by (simp add: grown_def image_mono)

lemma holds_stable:
  "holds_rows T q n \<Longrightarrow> grown P T n m \<Longrightarrow> holds_rows T q m"
  "holds_events T q n \<Longrightarrow> grown P T n m \<Longrightarrow> holds_events T q m"
  by (simp add: holds_rows_def grown_def) (use grown_events in \<open>unfold holds_events_def, blast\<close>)

lemma raised_elsewhere:
  "st_watermarks s' = raise_watermarks peer b (st_watermarks s) \<Longrightarrow> q \<noteq> peer \<Longrightarrow> wm_of s' q k = wm_of s q k"
  by (simp add: wm_of_def raise_watermarks_def)

lemma apply_rows_step:
  assumes I: "in_step T m" and q: "q \<in> P" and s': "ApplyRemote q rs (nd_store m) = (Inr u, s')"
    and rs: "set rs \<subseteq> {r \<in> set (st_rows (nd_store (T q))). r_kind r \<in> set Kinds}"
    and late: "\<forall>r \<in> set (st_rows (nd_store (T q))). r_kind r \<in> set Kinds \<and> wm_of (nd_store m) q (r_kind r) < r_hlc r \<longrightarrow> r \<in> set rs"
  shows "in_step T (m\<lparr>nd_store := s'\<rparr>)" "grown P T m (m\<lparr>nd_store := s'\<rparr>)" "holds_rows T q (m\<lparr>nd_store := s'\<rparr>)"
proof -
  note a = ApplyRemote_Inr [OF s']
  have wf: "tbl_wf row_pk (st_rows (nd_store m))" and cu: "caught_up m p (st_rows (nd_store (T p)))"
    and lg: "logged m p (st_events (nd_store (T p)))" for p
    using I by (simp_all add: in_step_def store_wf_def)
  have keep: "has_version r (st_rows s')" if "has_version r (st_rows (nd_store m)) \<or> r \<in> set rs" for r
    using a that has_version_merge [OF wf] by simp
  have up: "wm_of (nd_store m) p k \<le> wm_of s' p k" for p k
    using a raised_mono [of s' q rs "nd_store m" k] raised_elsewhere [of s' q "batch_max rs" "nd_store m" p k]
    by (cases "p = q") auto
  have new: "has_version r (st_rows s')" if "r \<in> set (st_rows (nd_store (T q)))" "r_kind r \<in> set Kinds" for r
    using that cu [of q] late keep [of r] by (cases "wm_of (nd_store m) q (r_kind r) < r_hlc r") (auto simp: caught_up_def)
  have ev: "wm_of s' p KindEvent = wm_of (nd_store m) p KindEvent" for p
    using a raised_elsewhere [of s' q "batch_max rs" "nd_store m" p] raised_other [of s' q rs "nd_store m" KindEvent] rs
    by (cases "p = q") (force simp: Kinds_def)+
  have "has_version r (st_rows s')"
    if "r \<in> set (st_rows (nd_store (T p)))" "r_kind r \<in> set Kinds" "r_hlc r \<le> wm_of s' p (r_kind r)" for p r
    using that new keep cu [of p] a raised_elsewhere [of s' q "batch_max rs" "nd_store m" p "r_kind r"]
    by (cases "p = q") (auto simp: caught_up_def)
  moreover have "store_wf s'"
    using I a by (auto simp: in_step_def store_wf_def)
  ultimately show "in_step T (m\<lparr>nd_store := s'\<rparr>)"
    using lg a ev by (simp add: in_step_def caught_up_def logged_def)
  show "grown P T m (m\<lparr>nd_store := s'\<rparr>)"
    using keep up a set_merge_rows [of rs "st_rows (nd_store m)"] rs q
    by (auto simp: grown_def cluster_rows_def)
  show "holds_rows T q (m\<lparr>nd_store := s'\<rparr>)" using new by (simp add: holds_rows_def)
qed

lemma apply_events_step:
  assumes I: "in_step T m" and q: "q \<in> P" and s': "ApplyEvents C evs (nd_store m) = (Inr u, s')"
    and rs: "list_all2 (decodes C) rs evs" "\<forall>r \<in> set rs. canonical C r" "set rs \<subseteq> set (st_events (nd_store (T q)))"
    and early: "\<forall>e \<in> set (st_events (nd_store (T q))). e \<in> set rs \<or> event_pk e \<in> event_pk ` set (st_events (nd_store m))"
  shows "in_step T (m\<lparr>nd_store := s'\<rparr>)" "grown P T m (m\<lparr>nd_store := s'\<rparr>)" "holds_events T q (m\<lparr>nd_store := s'\<rparr>)"
proof -
  obtain fs where s: "s' = (nd_store m)\<lparr>st_events := evlog.ins_all rs (st_events (nd_store m)), st_faults := fs\<rparr>"
    using ApplyEvents_Inr [OF s'] canonical_transfer [OF rs(1) _ rs(2)] by blast
  note sub = set_ins_all(1) [of "st_events (nd_store m)" rs] set_ins_all(2) [of rs "st_events (nd_store m)"]
  have wm: "wm_of s' = wm_of (nd_store m)" by (simp add: s wm_of_def fun_eq_iff)
  have t: "st_rows s' = st_rows (nd_store m)" "st_events s' = evlog.ins_all rs (st_events (nd_store m))" by (simp_all add: s)
  have key: "event_pk e \<in> event_pk ` set (st_events s')" if "e \<in> set rs" for e
    using evlog.ins_all_has [OF that, of "st_events (nd_store m)"] by (simp add: t tbl_select_None)
  show "in_step T (m\<lparr>nd_store := s'\<rparr>)"
    using I image_mono [OF sub(1), of event_pk]
    by (auto simp: in_step_def caught_up_def logged_def wm store_wf_def t simp del: image_insert)
  show "grown P T m (m\<lparr>nd_store := s'\<rparr>)"
    using sub rs(3) q by (auto simp: grown_def wm t cluster_events_def)
  show "holds_events T q (m\<lparr>nd_store := s'\<rparr>)"
    using early key image_mono [OF sub(1), of event_pk]
    unfolding holds_events_def image_subset_iff by (auto simp: t)
qed

lemma set_watermark_step:
  assumes "in_step T m" "holds_events T q m"
  shows "in_step T (m\<lparr>nd_store := (nd_store m)\<lparr>st_faults := fs, st_watermarks := (st_watermarks (nd_store m))((q, KindEvent) \<mapsto> h)\<rparr>\<rparr>)"
    "grown P T m (m\<lparr>nd_store := (nd_store m)\<lparr>st_faults := fs, st_watermarks := (st_watermarks (nd_store m))((q, KindEvent) \<mapsto> h)\<rparr>\<rparr>)"
  using assms by (auto simp: in_step_def grown_def caught_up_def logged_def holds_events_def wm_of_def Kinds_def store_wf_def)


section \<open>A round keeps the contract\<close>

text \<open>A call that is answered is answered by the server of the node behind the address; it may fail.\<close>

definition honest :: "codec \<Rightarrow> net \<Rightarrow> (string \<Rightarrow> node) \<Rightarrow> bool" where
  "honest C N T \<longleftrightarrow> (\<forall>q m cc m' req resp. client_conn N q m = (Inr cc, m') \<longrightarrow> net_call N cc req = Inr resp \<longrightarrow>
     (\<exists>pid. fst (server_Pull C pid req (T q)) = Inr resp))"

text \<open>The answer has the rows and events of the peer beyond the marks in the request, perhaps more.\<close>

definition from_peer :: "codec \<Rightarrow> (string \<Rightarrow> node) \<Rightarrow> string \<Rightarrow> hlc gomap \<Rightarrow> hlc \<Rightarrow> pull_response \<Rightarrow> bool" where
  "from_peer C T q w we resp \<longleftrightarrow>
     set (resp_rows resp) \<subseteq> {r \<in> set (st_rows (nd_store (T q))). r_kind r \<in> set Kinds} \<and>
     (\<forall>r \<in> set (st_rows (nd_store (T q))). \<forall>h. r_kind r \<in> set Kinds \<and> gm_get w (r_kind r) = Some h \<and> h < r_hlc r \<longrightarrow>
        r \<in> set (resp_rows resp)) \<and>
     (\<exists>es evs. rs_events resp = map (event_to_pb C) evs \<and> list_all2 (decodes C) es evs \<and>
        set es \<subseteq> set (st_events (nd_store (T q))) \<and> (\<forall>e \<in> set (st_events (nd_store (T q))). we < er_hlc e \<longrightarrow> e \<in> set es))"

lemma server_from_peer:
  assumes "fst (server_Pull C pid req (T q)) = Inr resp"
    and "rq_watermarks req = map (\<lambda>(k, h). (k, Some h)) w" "rq_event_watermark req = Some we"
  shows "from_peer C T q w we resp"
proof -
  obtain m' where "server_Pull C pid req (T q) = (Inr resp, m')" using assms(1) by (metis prod.collapse)
  note p = server_Pull_Inr [OF this]
  have rows: "resp_rows resp = answer req (st_rows (nd_store (T q)))"
    using p by (simp add: resp_rows_def answer_def map_concat comp_def)
  have w: "gm_get w k = Some h \<Longrightarrow> req_watermark req k = h" for k h
    using assms(2) by (simp add: req_watermark_def gm_get_def map_of_map)
  have we: "req_event_wm req = we" using assms(3) by (simp add: req_event_wm_def)
  show ?thesis
    unfolding from_peer_def rows
    using p answer_subset [of req "st_rows (nd_store (T q))"] answer_covers [of _ "st_rows (nd_store (T q))" req]
      answer_events_subset [of req "st_events (nd_store (T q))"] answer_events_covers [of _ "st_events (nd_store (T q))" req] w we
    by blast
qed

text \<open>Marks that were read of the watermarks of \<open>q\<close> are not ahead of them.\<close>

definition marks :: "hlc gomap \<Rightarrow> kind set \<Rightarrow> string \<Rightarrow> node \<Rightarrow> bool" where
  "marks w K q n \<longleftrightarrow> K \<subseteq> set Kinds \<and> (\<forall>k \<in> K. \<exists>h. gm_get w k = Some h \<and> h \<le> wm_of (nd_store n) q k)"

lemma grown_wm: "grown P T n m \<Longrightarrow> k \<in> set Kinds \<Longrightarrow> wm_of (nd_store n) q k \<le> wm_of (nd_store m) q k"
  by (simp add: grown_def)

lemma marks_stable: "marks w K q n \<Longrightarrow> grown P T n m \<Longrightarrow> marks w K q m"
  unfolding marks_def by (meson grown_wm order_trans subsetD)

lemma marks_put: "marks w K q n \<Longrightarrow> k \<in> set Kinds \<Longrightarrow> h \<le> wm_of (nd_store n) q k \<Longrightarrow> marks (gm_put k h w) (insert k K) q n"
  by (auto simp: marks_def)

lemma safe_kinds:
  "in_step T n \<Longrightarrow> set ks \<subseteq> set Kinds \<Longrightarrow> marks w K q n \<Longrightarrow>
     safe (in_step T) (grown P T) (\<lambda>res m. \<forall>w' c'. res = Inr (w', c') \<longrightarrow> marks w' (set ks \<union> K) q m) (round_kinds_prog q ks w c) n"
proof (induction ks arbitrary: n w c K)
  case Nil
  then show ?case by (auto intro!: rounds_rg.safe_ret intro: marks_stable)
next
  case (Cons k ks)
  let ?Q = "\<lambda>res m. \<forall>wm. res = Inr wm \<longrightarrow> wm \<le> wm_of (nd_store m) q k"
  have k: "k \<in> set Kinds" using Cons.prems(2) by simp
  have read: "safe (in_step T) (grown P T) ?Q (atom (on_store (Watermark q k))) n"
  proof (rule safe_quiet [OF quiet(1)], intro allI impI)
    fix m m' wm assume "grown P T m m'" "fst (on_store (Watermark q k) m) = Inr wm"
    then show "wm \<le> wm_of (nd_store m') q k"
      using grown_wm [OF _ k, of P T m m' q] by (auto simp: on_store_def split: prod.splits dest!: Watermark_Inr)
  qed
  have chk: "safe (in_step T) (grown P T) (\<lambda>res m. True) (atom (on_store (Checksum k))) m" for m
    by (rule safe_quiet [OF quiet(2)]) simp
  show ?case
    unfolding round_kinds_prog.simps
  proof (intro rounds_rg.safe_bindP [OF read Cons.prems(1)] rounds_rg.safe_bindP [OF chk])
    fix wm m c' m' assume m: "grown P T n m" "?Q (Inr wm) m" "in_step T m'" "grown P T m m'"
    have "marks (gm_put k wm w) (insert k K) q m'"
      using m(2) marks_stable [OF marks_put [OF marks_stable [OF Cons.prems(3) m(1)] k] m(4)] by simp
    from Cons.IH [OF m(3) _ this, of "gm_put k c' c"] Cons.prems(2)
    show "safe (in_step T) (grown P T) (\<lambda>res m. \<forall>w' c'. res = Inr (w', c') \<longrightarrow> marks w' (set (k # ks) \<union> K) q m)
       (round_kinds_prog q ks (gm_put k wm w) (gm_put k c' c)) m'"
      by simp
  qed auto
qed

lemma safe_pull:
  assumes "honest C N T" "in_step T n"
  shows "safe (in_step T) (grown P T) (\<lambda>res m. \<forall>resp. res = Inr resp \<longrightarrow> from_peer C T q w we resp)
    (client_Pull_prog N q w c we h) n"
proof -
  let ?Q = "\<lambda>res m. \<forall>cc. res = Inr cc \<longrightarrow> (\<exists>m0 m1. client_conn N q m0 = (Inr cc, m1))"
  have conn: "safe (in_step T) (grown P T) ?Q (atom (client_conn N q)) n"
    by (rule safe_quiet [OF conn_quiet]) (metis surjective_pairing)
  show ?thesis
    unfolding client_Pull_prog_def
  proof (rule rounds_rg.safe_bindP [OF conn assms(2)])
    fix cc m assume "?Q (Inr cc) m"
    then obtain m0 m1 where cc: "client_conn N q m0 = (Inr cc, m1)" by blast
    have "from_peer C T q w we resp" if "net_call N cc \<lparr>rq_watermarks = map (\<lambda>(k, h). (k, Some h)) w, rq_checksums = Some c,
        rq_event_watermark = Some we, rq_event_checksum = h\<rparr> = Inr resp" for resp
      using assms(1) cc that server_from_peer [of C _ _ T q resp w we] unfolding honest_def by fastforce
    then show "safe (in_step T) (grown P T) (\<lambda>res m. \<forall>resp. res = Inr resp \<longrightarrow> from_peer C T q w we resp)
        (atom (\<lambda>n. let req = \<lparr>rq_watermarks = map (\<lambda>(k, h). (k, Some h)) w, rq_checksums = Some c,
                  rq_event_watermark = Some we, rq_event_checksum = h\<rparr> in (net_call N cc req, n))) m"
      by (intro safe_quiet) (simp_all add: same_tables_def)
  qed simp
qed


lemma safe_rows:
  assumes "in_step T n" "q \<in> P" "marks w (set Kinds) q n" "from_peer C T q w we resp"
  shows "safe (in_step T) (grown P T) (\<lambda>res m. res = Inr () \<longrightarrow> holds_rows T q m) (round_rows_prog q resp) n"
proof -
  have covers: "r \<in> set (resp_rows resp)"
    if "grown P T n m" "r \<in> set (st_rows (nd_store (T q)))" "r_kind r \<in> set Kinds" "wm_of (nd_store m) q (r_kind r) < r_hlc r" for m r
    using marks_stable [OF assms(3) that(1)] that(2-4) assms(4) unfolding marks_def from_peer_def by fastforce
  show ?thesis
  proof (cases "rs_rows resp = []")
    case True
    have "holds_rows T q m" if "in_step T m" "grown P T n m" for m
      unfolding holds_rows_def
    proof (intro ballI impI)
      fix r assume r: "r \<in> set (st_rows (nd_store (T q)))" "r_kind r \<in> set Kinds"
      then have "r_hlc r \<le> wm_of (nd_store m) q (r_kind r)"
        using covers [OF that(2) r] True by (force simp: resp_rows_def not_less)
      then show "has_version r (st_rows (nd_store m))" using that(1) r by (simp add: in_step_def caught_up_def)
    qed
    then show ?thesis using True by (auto simp: round_rows_prog_def intro!: rounds_rg.safe_ret)
  next
    case False
    let ?Q = "\<lambda>res m. res = Inr () \<longrightarrow> holds_rows T q m" and ?a = "on_store (ApplyRemote q (resp_rows resp))"
    have "in_step T (snd (?a m)) \<and> grown P T m (snd (?a m)) \<and> (fst (?a m) = Inr () \<longrightarrow> holds_rows T q (snd (?a m)))"
      if m: "in_step T m" "grown P T n m" for m
    proof (cases "ApplyRemote q (resp_rows resp) (nd_store m)")
      case (Pair res s')
      show ?thesis
      proof (cases res)
        case (Inl e)
        then show ?thesis using Pair m(1) quiet_keeps [of m "m\<lparr>nd_store := s'\<rparr>"] by (simp add: on_store_def ApplyRemote_Inl)
      next
        case (Inr u)
        then show ?thesis
          using Pair apply_rows_step [OF m(1) assms(2), of "resp_rows resp" u s'] assms(4) covers [OF m(2)]
          by (simp add: on_store_def from_peer_def)
      qed
    qed
    then have "safe (in_step T) (grown P T) ?Q (atom ?a) n"
      by (intro rounds_rg.safe_atom) (auto intro: holds_stable)
    then show ?thesis
      unfolding round_rows_prog_def rows_loop_eq resp_rows_def using False assms(1)
      by (auto intro!: rounds_rg.safe_bindP safe_quiet [OF metrics_quiet, where Q = ?Q] safe_quiet [OF clock_quiet] intro: holds_stable)
  qed
qed

lemma safe_SetWatermark:
  assumes "in_step T n" "holds_events T q n"
  shows "safe (in_step T) (grown P T) (\<lambda>res m. True) (SetWatermark_prog q KindEvent h) n"
proof -
  let ?a = "on_store (exec (\<lambda>s. s\<lparr>st_watermarks := (st_watermarks s)((q, KindEvent) \<mapsto> h)\<rparr>))"
  have "in_step T (snd (?a m)) \<and> grown P T m (snd (?a m))" if "in_step T m" "holds_events T q m" for m
  proof (cases "exec (\<lambda>s. s\<lparr>st_watermarks := (st_watermarks s)((q, KindEvent) \<mapsto> h)\<rparr>) (nd_store m)")
    case (Pair res s')
    then show ?thesis
    proof (cases rule: exec_cases)
      case 1
      then show ?thesis using Pair that(1) quiet_keeps [of m "m\<lparr>nd_store := s'\<rparr>"] by (simp add: on_store_def)
    next
      case (2 fs)
      then show ?thesis using Pair set_watermark_step [OF that] by (simp add: on_store_def)
    qed
  qed
  then have "safe (in_step T) (grown P T) (\<lambda>res m. True) (atom ?a) m" if "grown P T n m" for m
    using that assms(2) by (intro rounds_rg.safe_atom) (auto intro: holds_stable grown_trans)
  then show ?thesis
    unfolding SetWatermark_prog_def
    by (intro rounds_rg.safe_bindP [OF safe_quiet [OF quiet(1), where Q = "\<lambda>_ _. True"] assms(1)])
       (auto intro: rounds_rg.safe_ret)
qed

lemma safe_events:
  assumes "in_step T n" "q \<in> P" "from_peer C T q w we resp" "\<forall>e \<in> set (st_events (nd_store (T q))). canonical C e"
    and "\<forall>e \<in> set (st_events (nd_store (T q))). er_hlc e \<le> we \<longrightarrow> event_pk e \<in> event_pk ` set (st_events (nd_store n))"
  shows "safe (in_step T) (grown P T) (\<lambda>res m. res = Inr () \<longrightarrow> holds_events T q m) (round_events_prog C q we resp) n"
proof -
  obtain es evs where es: "rs_events resp = map (event_to_pb C) evs" "list_all2 (decodes C) es evs"
      "set es \<subseteq> set (st_events (nd_store (T q)))" "\<forall>e \<in> set (st_events (nd_store (T q))). we < er_hlc e \<longrightarrow> e \<in> set es"
    using assms(3) by (auto simp: from_peer_def)
  have canon: "\<forall>e \<in> set es. canonical C e" using es(3) assms(4) by blast
  have early: "\<forall>e \<in> set (st_events (nd_store (T q))). e \<in> set es \<or> event_pk e \<in> event_pk ` set (st_events (nd_store m))"
    if "grown P T n m" for m
    using grown_events [OF that] assms(5) es(4) by (meson not_le subsetD)
  show ?thesis
  proof (cases "evs = []")
    case True
    then have "holds_events T q m" if "grown P T n m" for m
      using early [OF that] es(2) unfolding holds_events_def by (auto simp: image_subset_iff)
    then show ?thesis using True es(1) by (auto simp: round_events_prog_def intro!: rounds_rg.safe_ret)
  next
    case False
    let ?Q = "\<lambda>res m. res = Inr () \<longrightarrow> holds_events T q m" and ?a = "on_store (ApplyEvents C evs)"
    have "in_step T (snd (?a m)) \<and> grown P T m (snd (?a m)) \<and> (fst (?a m) = Inr () \<longrightarrow> holds_events T q (snd (?a m)))"
      if m: "in_step T m" "grown P T n m" for m
    proof (cases "ApplyEvents C evs (nd_store m)")
      case (Pair res s')
      show ?thesis
      proof (cases res)
        case (Inl e)
        then show ?thesis using Pair m(1) quiet_keeps [of m "m\<lparr>nd_store := s'\<rparr>"] by (simp add: on_store_def ApplyEvents_Inl)
      next
        case (Inr u)
        then show ?thesis
          using Pair apply_events_step [OF m(1) assms(2) _ es(2) canon es(3) early [OF m(2)]] by (simp add: on_store_def)
      qed
    qed
    then have a: "safe (in_step T) (grown P T) ?Q (atom ?a) n"
      by (intro rounds_rg.safe_atom) (auto intro: holds_stable)
    have rest: "safe (in_step T) (grown P T) ?Q (bindP (SetWatermark_prog q KindEvent h) (\<lambda>_. atom (on_clock (clock_update h')))) m"
      if "in_step T m" "holds_events T q m" for h h' m
      using that by (intro rounds_rg.safe_bindP [OF safe_SetWatermark] safe_quiet [OF clock_quiet])
        (auto intro: holds_stable grown_trans)
    show ?thesis
      unfolding round_events_prog_def using False es(1) events_loop_eq [OF es(2) canon]
      by (auto intro!: rounds_rg.safe_bindP [OF a assms(1)] rounds_rg.safe_bindP [OF safe_quiet [OF metrics_quiet, where Q = ?Q]] rest
          intro: holds_stable)
  qed
qed

lemma safe_round:
  assumes "honest C N T" "in_step T n" "q \<in> P" "\<forall>e \<in> set (st_events (nd_store (T q))). canonical C e"
  shows "safe (in_step T) (grown P T) (\<lambda>res m. res = Inr () \<longrightarrow> holds_rows T q m \<and> holds_events T q m) (round_prog C N q) n"
proof -
  let ?s = "\<lambda>Q p n. safe (in_step T) (grown P T) Q p n"
  let ?low = "\<lambda>we m. \<forall>e \<in> set (st_events (nd_store (T q))). er_hlc e \<le> we \<longrightarrow> event_pk e \<in> event_pk ` set (st_events (nd_store m))"
  have kinds: "?s (\<lambda>res m. \<forall>w' c'. res = Inr (w', c') \<longrightarrow> marks w' (set Kinds) q m) (round_kinds_prog q Kinds [] []) n"
    using safe_kinds [OF assms(2) subset_refl, of "[]" "{}" q P "[]"] by (simp add: marks_def)
  have low: "?low we m \<Longrightarrow> grown P T m m' \<Longrightarrow> ?low we m'" for we m m'
    using grown_events by blast
  have wm: "?s (\<lambda>res m. \<forall>we. res = Inr we \<longrightarrow> ?low we m) (atom (on_store (Watermark q KindEvent))) m" for m
  proof (rule safe_quiet [OF quiet(1)], intro allI impI)
    fix m m' we assume "in_step T m" "grown P T m m'" "fst (on_store (Watermark q KindEvent) m) = Inr we"
    then have "?low we m"
      by (auto simp: in_step_def logged_def on_store_def split: prod.splits dest!: Watermark_Inr)
    then show "?low we m'" using low \<open>grown P T m m'\<close> by blast
  qed
  have chk: "?s (\<lambda>_ _. True) (atom (on_store ChecksumEvents)) m" for m
    by (rule safe_quiet [OF quiet(3)]) simp
  have rest: "?s (\<lambda>res m. res = Inr () \<longrightarrow> holds_rows T q m \<and> holds_events T q m)
      (bindP (round_rows_prog q resp) (\<lambda>_. round_events_prog C q we resp)) m"
    if m: "in_step T m" "marks w (set Kinds) q m" "?low we m" "from_peer C T q w we resp" for w we resp m
  proof (rule rounds_rg.safe_bindP [OF safe_rows [OF m(1) assms(3) m(2,4)] m(1)])
    fix x m' assume m': "in_step T m'" "grown P T m m'" "Inr x = Inr () \<longrightarrow> holds_rows T q m'"
    show "?s (\<lambda>res m. res = Inr () \<longrightarrow> holds_rows T q m \<and> holds_events T q m) (round_events_prog C q we resp) m'"
      using m'(3) by (intro rounds_rg.safe_conseq [OF safe_events [OF m'(1) assms(3) m(4) assms(4) low [OF m(3) m'(2)]] grown_refl])
        (auto intro: holds_stable)
  qed simp
  show ?thesis
    unfolding round_prog_def
  proof (rule rounds_rg.safe_bindP [OF kinds assms(2)], goal_cases)
    case (2 wc m1)
    then show ?case
    proof (cases wc, simp only: prod.case, goal_cases)
      case (1 w c)
      then have m1: "in_step T m1" "marks w (set Kinds) q m1" by simp_all
      show ?case
      proof (rule rounds_rg.safe_bindP [OF wm m1(1)], goal_cases)
        case (2 we m2)
        note m2 = 2
        show ?case
        proof (rule rounds_rg.safe_bindP [OF chk m2(1)], goal_cases)
          case (2 h m3)
          show ?case
          proof (rule rounds_rg.safe_bindP [OF safe_pull [OF assms(1) 2(1)]], goal_cases)
            case (3 resp m4)
            have g: "grown P T m2 m4" using \<open>grown P T m2 m3\<close> 3(2) by (rule grown_trans)
            have "marks w (set Kinds) q m4" using marks_stable [OF marks_stable [OF m1(2) m2(2)] g] .
            moreover have "?low we m4" using low [OF _ g] m2(3) by simp
            ultimately show ?case using 3(3) by (intro rest [OF 3(1)]) simp_all
          qed (use 2 in simp_all)
        qed simp
      qed simp
    qed
  qed simp
qed


section \<open>Every schedule keeps the contract\<close>

text \<open>
  The invariant of a schedule: the goroutines are safe where they are, and each peer is still to
  come, has a goroutine, has been dealt with (\<open>H\<close>), or there is an error.
\<close>

definition pool_safe :: "(node \<Rightarrow> bool) \<Rightarrow> (node \<Rightarrow> node \<Rightarrow> bool) \<Rightarrow> (string \<Rightarrow> node \<Rightarrow> bool) \<Rightarrow> string list \<Rightarrow> node \<Rightarrow> pool \<Rightarrow> bool" where
  "pool_safe I G H peers n0 s \<longleftrightarrow> I (po_node s) \<and> G n0 (po_node s) \<and> set (po_todo s) \<subseteq> set peers \<and>
     (\<forall>p g. (p, g) \<in> set (po_rounds s) \<longrightarrow> p \<in> set peers \<and> safe I G (\<lambda>res m. res = Inr () \<longrightarrow> H p m) g (po_node s)) \<and>
     (\<forall>p \<in> set peers. p = [] \<or> p \<in> set (po_todo s) \<or> p \<in> fst ` set (po_rounds s) \<or> H p (po_node s) \<or>
        (\<exists>e. Some e \<in> set (po_errCh s)) \<or> po_first s \<noteq> None)"

context shared_state begin

lemma pool_safe_act:
  assumes "pool_safe I G H peers n0 s" "\<And>p n m. H p n \<Longrightarrow> G n m \<Longrightarrow> H p m"
    and "po_rounds s = xs @ (p, Act f) # ys" "f (po_node s) = (g, n')"
  shows "pool_safe I G H peers n0 (s\<lparr>po_node := n', po_rounds := xs @ (p, g) # ys\<rparr>)"
proof -
  have s: "I (po_node s)" "safe I G (\<lambda>res m. res = Inr () \<longrightarrow> H p m) (Act f) (po_node s)" "G n0 (po_node s)"
    using assms(1,3) by (simp_all add: pool_safe_def)
  note a = safe_action [OF s(2,1) assms(4)]
  have "safe I G (\<lambda>res m. res = Inr () \<longrightarrow> H q m) h n'" if "(q, h) \<in> set (xs @ ys)" for q h
    using assms(1,3) that by (intro safe_stable [OF _ a(2)]) (auto simp: pool_safe_def)
  moreover have "G n0 n'" using s(3) a(2) by (rule G_trans)
  ultimately show ?thesis
    using assms a by (auto simp: pool_safe_def)
qed

lemma pool_safe_send:
  assumes "pool_safe I G H peers n0 s" "po_rounds s = xs @ (p, Done r) # ys"
  shows "pool_safe I G H peers n0 (s\<lparr>po_rounds := xs @ ys, po_errCh := po_errCh s @ [sent r]\<rparr>)"
proof -
  have "r = Inr () \<longrightarrow> H p (po_node s)"
    using safe_post [of "\<lambda>res m. res = Inr () \<longrightarrow> H p m" r "po_node s"] assms by (simp add: pool_safe_def)
  then have "H p (po_node s) \<or> (\<exists>e. sent r = Some e)" by (cases r) (auto simp: sent_def)
  then show ?thesis using assms by (auto simp: pool_safe_def)
qed

lemma pool_safe_step:
  assumes "pool_step C N cap s s'" "pool_safe I G H peers n0 s" "\<And>p n m. H p n \<Longrightarrow> G n m \<Longrightarrow> H p m"
    and "\<And>p n. p \<in> set peers \<Longrightarrow> I n \<Longrightarrow> safe I G (\<lambda>res m. res = Inr () \<longrightarrow> H p m) (round_prog C N p) n"
  shows "pool_safe I G H peers n0 s'"
  using assms(1)
proof cases
  case (pool_act xs p f ys g n')
  then show ?thesis using pool_safe_act [OF assms(2,3)] by simp
next
  case (pool_send xs p r ys)
  then show ?thesis using pool_safe_send [OF assms(2)] by simp
next
  case (pool_go p ps)
  then show ?thesis using assms(2,4) by (auto simp: pool_safe_def)
next
  case (pool_skip ps)
  then show ?thesis using assms(2) by (auto simp: pool_safe_def)
next
  case (pool_recv e es)
  then show ?thesis using assms(2) by (auto simp: pool_safe_def)
qed

lemma pool_safe_run:
  assumes "(pool_step C N cap)\<^sup>*\<^sup>* (pool_init peers n) s" "I n" "\<And>p n m. H p n \<Longrightarrow> G n m \<Longrightarrow> H p m"
    and "\<And>p n. p \<in> set peers \<Longrightarrow> I n \<Longrightarrow> safe I G (\<lambda>res m. res = Inr () \<longrightarrow> H p m) (round_prog C N p) n"
  shows "pool_safe I G H peers n s"
  using assms(1)
proof (induction rule: rtranclp_induct)
  case base
  then show ?case using assms(2) by (auto simp: pool_safe_def G_refl)
next
  case (step s s')
  show ?case by (rule pool_safe_step [OF step.hyps(2) step.IH assms(3,4)])
qed

end

lemma roundAll_interleaved_aux:
  assumes "(pool_step C N (length peers))\<^sup>*\<^sup>* (pool_init peers n) s" "in_step T n" "honest C N T"
    and "\<forall>p \<in> set peers. \<forall>e \<in> set (st_events (nd_store (T p))). canonical C e"
  shows "in_step T (po_node s) \<and> grown (set peers) T n (po_node s) \<and>
    (po_got s = length peers \<and> po_first s = None \<longrightarrow>
      (\<forall>p \<in> set peers. p \<noteq> [] \<longrightarrow> holds_rows T p (po_node s) \<and> holds_events T p (po_node s)))"
proof -
  have safe: "pool_safe (in_step T) (grown (set peers) T) (\<lambda>p m. holds_rows T p m \<and> holds_events T p m) peers n s"
  proof (rule rounds_rg.pool_safe_run [OF assms(1,2)])
    fix p m assume "p \<in> set peers" "in_step T m"
    then show "safe (in_step T) (grown (set peers) T) (\<lambda>res m. res = Inr () \<longrightarrow> holds_rows T p m \<and> holds_events T p m) (round_prog C N p) m"
      using assms(4) by (intro safe_round [OF assms(3)]) auto
  qed (auto intro: holds_stable)
  obtain j where "(pool_step C N (length peers) ^^ j) (pool_init peers n) s"
    using assms(1) by (auto simp: rtranclp_power)
  then have "accounted (length peers) s" by (rule accounted_run) (simp add: accounted_def)
  then have "po_got s = length peers \<Longrightarrow> po_todo s = [] \<and> po_rounds s = [] \<and> po_errCh s = []"
    by (simp add: accounted_def)
  then show ?thesis using safe by (auto simp: pool_safe_def)
qed


text \<open>A node that has met nobody, and a network where one node answers under every address.\<close>

lemma ex_in_step: "\<forall>r \<in> set rs. HLC 0 0 < r_hlc r \<Longrightarrow> distinct (map row_pk qs) \<Longrightarrow> in_step (\<lambda>_. ex_node rs) (ex_node qs)"
  by (auto simp: in_step_def caught_up_def logged_def store_wf_def tbl_wf_def hlc_zero_def)

lemma ex_honest: "honest null_codec (ex_net p) (\<lambda>_. p)"
  by (auto simp: honest_def ex_net_def)




end
