(* ===== verification/Spec2Isabelle.thy ===== *)
theory Spec2Isabelle
  imports Daemon Interleave
begin

text \<open>
  Takl keeps a registry of build runners. Every node runs the daemon \<^verbatim>\<open>takld\<close>: an agent samples the
  machine and publishes the runner's row, a sync engine pulls rows and events from the peers,
  a gossip cluster reports which nodes join and leave, and an HTTP API answers where to place a
  build. \<^verbatim>\<open>taklctl\<close> is the command line client. All state that matters is in one SQLite store per
  node; rows carry hybrid logical clock stamps and the newest version of a key wins everywhere.

  \<^bold>\<open>Theories and sources.\<close> Paths are relative to \<^verbatim>\<open>src\<close>.

  \<^item> \<open>Takl_Prelude\<close>: named collections, \<^verbatim>\<open>int64\<close> with its wrap-around (\<open>wrap64\<close>), tables with a primary
    key as lists. \<open>Float64\<close>: \<^verbatim>\<open>float64\<close> as rationals with IEEE rounding. \<open>Text_Lib\<close>, \<open>Net_Lib\<close>, \<open>X509_Lib\<close>:
    what the program uses of \<^verbatim>\<open>strings\<close>, \<^verbatim>\<open>strconv\<close>, \<^verbatim>\<open>encoding/base64\<close>, \<^verbatim>\<open>net\<close>, \<^verbatim>\<open>path/filepath\<close>, \<^verbatim>\<open>crypto/x509\<close>,
    \<^verbatim>\<open>crypto/tls\<close>. \<open>Json\<close>: JSON values, Go maps, the rules by which \<^verbatim>\<open>json.Unmarshal\<close> fills a variable.
  \<^item> \<open>Hlc\<close> (\<^verbatim>\<open>internal/model/hlc.go\<close>): stamps and the clock. \<^verbatim>\<open>Tick\<close> is \<open>tick\<close>, \<^verbatim>\<open>Update\<close> is \<open>clock_update\<close>.
  \<^item> \<open>Db\<close>, \<open>Store\<close>, \<open>Store_Events\<close>, \<open>Checksum\<close> (\<^verbatim>\<open>internal/engine/store/store.go\<close>, \<^verbatim>\<open>internal/model/event.go\<close>): the
    record \<open>store\<close> has the three tables; each method is a definition of its name, each SQL statement
    a function on a table. \<open>Lww\<close> and \<open>Grow_Log\<close> are the interfaces that the rows and the log fulfil.
  \<^item> \<open>Metrics\<close> (\<^verbatim>\<open>internal/metrics/metrics.go\<close>), \<open>Transport\<close> (\<^verbatim>\<open>internal/transport/server.go\<close>, \<^verbatim>\<open>client.go\<close>, the
    messages of \<^verbatim>\<open>pb\<close>): the record \<open>node\<close> has the store, the clock, the counters, the connections.
  \<^item> \<open>Sync\<close> (\<^verbatim>\<open>internal/engine/sync/sync.go\<close>): \<open>RoundOnce\<close>, \<open>roundAll\<close>, \<open>gcTombstones\<close>, the loop \<open>engine_Run\<close>.
    \<open>Repair\<close>: what repeated rounds achieve. \<open>Gossip\<close>: rounds between any number of nodes.
    \<open>Threads\<close>, \<open>Rounds\<close>, \<open>Interleave\<close>: the goroutines of \<^verbatim>\<open>roundAll\<close>. A round is a sequence of atomic actions
    (\<open>round_prog\<close>; an action is a database call, the network call, or an access to the clock or a
    counter), \<open>pool_step\<close> interleaves them and has the error channel; run alone, \<open>round_prog\<close> is \<open>RoundOnce\<close>.
  \<^item> \<open>Runner\<close> (\<^verbatim>\<open>internal/model/model.go\<close>), \<open>Membership\<close> (\<^verbatim>\<open>internal/membership\<close>), \<open>Agent\<close>
    (\<^verbatim>\<open>internal/agent/agent.go\<close>, \<^verbatim>\<open>internal/backend/stub/stub.go\<close>), \<open>Api\<close> (\<^verbatim>\<open>internal/api/api.go\<close>). \<open>Mailbox\<close>: the
    channel from the gossip delegate to the agent's handler.
  \<^item> \<open>Takld\<close> (\<^verbatim>\<open>internal/config/config.go\<close>, \<^verbatim>\<open>cmd/takld/main.go\<close>), \<open>Pki\<close> (\<^verbatim>\<open>internal/transport/tls.go\<close>, the
    certificate authority of \<^verbatim>\<open>cmd/taklctl/main.go\<close>), \<open>Taklctl\<close> (the rest of that file, \<^verbatim>\<open>internal/version\<close>).
  \<^item> \<open>Node_Run\<close>: a node as a whole, a step relation over all operations of its goroutines. \<open>Daemon\<close>: the process of
    \<^verbatim>\<open>cmd/takld/main.go\<close>, what \<^verbatim>\<open>main\<close> acquires, starts and defers (\<open>boot\<close>), what ends it, and the shutdown (\<open>takld_main\<close>).

  \<^bold>\<open>How the code is represented.\<close> An operation is a function from the state to a result and the
  state after it; the result is \<^term>\<open>Inl e\<close> where Go returns an error or panics (\<open>Panic\<close>). A store carries
  a script of failures, consumed call by call (\<open>st_faults\<close>), so that a theorem about an operation covers
  a failure at any of its database calls; \<open>healthy\<close> is the empty script. A transaction that does not
  commit restores the tables. Code outside the repository is an argument: the JSON text codec,
  gRPC and the network (\<open>net\<close>), \<^verbatim>\<open>memberlist\<close>, the YAML decoder, the sensors, the file system, the wall
  clock, random numbers, the order of map iteration and of the unstable sort. What a theorem needs of
  them is a hypothesis about the values at hand.

  \<^bold>\<open>Interfaces.\<close> \<open>stamp_source\<close> (a stamp is newer than all before; interpreted on \<open>tick\<close> as \<open>clk\<close>),
  \<open>lww_table\<close> (merging keeps the newest; on \<open>merge_row\<close> as \<open>rows_lww\<close>), \<open>grow_log\<close> (inserting never
  overwrites; on \<open>insert_ignore\<close> as \<open>evlog\<close>), \<open>stamped_op\<close> and \<open>reading_op\<close> (an operation takes at most one
  stamp and writes with it, or leaves rows and clock alone; on the operations of the agent, the
  engine, the pull server and the API), \<open>shared_state\<close> (an invariant and a relation that the actions
  of all goroutines respect; on the rounds of \<^verbatim>\<open>roundAll\<close> as \<open>rounds_rg\<close>).

  \<^bold>\<open>What is shown.\<close>

  \<^item> Replication: merging is atomic, idempotent and independent of order (\<open>Store\<close>, \<open>Store_Events\<close>); a round
    brings over what is later than the watermark, a watermark is never ahead of the data whatever
    fails, two nodes agree after a round each way (\<open>Sync\<close>); a cluster of any size agrees on the
    newest versions once every node has heard from every other, in whatever order and with whatever
    calls lost (\<open>Gossip\<close>); two rounds repair what the watermarks hide
    where the checksums tell (\<open>Repair\<close>); in a run of a node no key goes back (\<open>Node_Run\<close>).
  \<^item> Concurrency: under every interleaving of the rounds with all peers the watermarks stay behind
    the data, every schedule that ends without error ends with the same rows, and every schedule
    ends (\<open>Rounds\<close>, \<open>Interleave\<close>); the handler gets the notifications in order, all of them as long as
    256 are not exceeded (\<open>Mailbox\<close>).
  \<^item> Agent and API: draining has hysteresis over five samples; a leaving node is pruned; placement
    returns exactly the eligible runners, best first; labels are read back; every request is
    answered and counted.
  \<^item> Start and security: the guards of \<^verbatim>\<open>main\<close>, the profiler behind the token, the advertised address,
    generated gossip keys, certificates from \<^verbatim>\<open>taklctl ca\<close> to the handshake, and the order and duration
    of the shutdown (\<open>Daemon\<close>).
  \<^item> Flaws, each with a concrete instance: wildcards in \<^verbatim>\<open>DeleteByNode\<close>, collected tombstones that
    come back, what the checksum does not see, replicas without live rows that are never repaired,
    a panic on an event without stamp, a clock that restarts behind the store, a client that panics
    on the events the server sends, certificates of too many days, keys that are read as shorter ones,
    a leave that is dropped when the channel is full, an exit that skips the deferred calls, a
    failure that exits with status 0, a sampling interval that panics.

  \<^bold>\<open>Bounds.\<close> Recursion follows the data, so no definition has fuel; the loops that run until the
  process ends (\<^verbatim>\<open>Agent.Run\<close>, \<^verbatim>\<open>Engine.Run\<close>, the membership handler) are functions of the list of their
  turns, and the theorems hold for every list. A goroutine of \<^verbatim>\<open>roundAll\<close> performs at most 16 actions,
  and with its start, its send and the receive the rounds take at most 19 steps per peer, which is
  proved. Where a counter would wrap, the bound is a hypothesis
  (less than $2^{63}$ samples or stamps).

  \<^bold>\<open>Not modelled.\<close>

  \<^item> Interleavings inside an operation of the agent or the API: a step of \<open>node_step\<close> runs one operation to
    its end, as if no other goroutine ran meanwhile. The database serialises single statements and
    transactions only; \<open>put_after_merge\<close> shows an interleaving in which a key goes back. Only the rounds of
    the sync engine are modelled action by action.
  \<^item> Logging, contexts and deadlines, sockets and signals: input and output without a decision of the
    program. A deadline that passes is an error of the network argument; the time that requests,
    pulls and the cluster take to stop is an argument of the shutdown, and closing a handle takes none.
  \<^item> Text formats that belong to libraries: JSON, YAML, PEM, DER, protocol buffers, the parsing of
    flags, the alignment of tables. Cryptography is symbolic: a signature is the key it was made with.
  \<^item> The empty methods of the \<^verbatim>\<open>memberlist\<close> delegate, the generated code under \<^verbatim>\<open>internal/transport/pb\<close>
    beyond the fields of its messages.
\<close>

end
